(* ===== verification/Prelude.thy ===== *)
theory Prelude
  imports Complex_Main "HOL-Library.Word" "HOL-Library.Sublist" "HOL-Library.List_Lexorder"
    "HOL-Library.Char_ord" "HOL-Library.AList"
begin

text \<open>
  The shared base of the development: the Rust primitive types at their widths, the outcome of a
  computation that may panic, saturating arithmetic, the functions of \<open>str\<close> and of slices that
  the gateway calls, and the generic lemmas on lists and words the component theories use.

  A Rust string is its UTF-8 byte sequence, so \<open>string\<close> (a list of 8-bit characters) is the type of
  \<open>String\<close> and \<open>&str\<close>, and the byte-wise order of \<open>str::cmp\<close> is the lexicographic order of
  \<open>HOL-Library.List_Lexorder\<close> over the character codes of \<open>HOL-Library.Char_ord\<close>.
  The release profile of the workspace leaves overflow checks off, so \<open>+\<close>, \<open>-\<close> and \<open>*\<close> on
  machine integers wrap around, as they do on \<open>'a word\<close>; a division by zero, an out-of-range index
  and an \<open>unwrap\<close> of an error panic.
\<close>

section \<open>Primitive types\<close>

type_synonym u8 = "8 word"
type_synonym u16 = "16 word"
type_synonym u32 = "32 word"
type_synonym u64 = "64 word"
type_synonym i64 = "64 word"
type_synonym usize = "64 word"
type_synonym bytes = "u8 list"

text \<open>A \<open>std::time::Duration\<close> is a number of nanoseconds.\<close>

type_synonym duration = nat

text \<open>The result of Rust code that may panic or block for ever on a lock its own task holds.\<close>

datatype 'a rust = Panic | Hang | Ret 'a

fun rust_bind :: "'a rust \<Rightarrow> ('a \<Rightarrow> 'b rust) \<Rightarrow> 'b rust" where
  "rust_bind Panic f = Panic"
| "rust_bind Hang f = Hang"
| "rust_bind (Ret x) f = f x"

lemma rust_bind_eq:
  "rust_bind r f = Ret y \<longleftrightarrow> (\<exists>x. r = Ret x \<and> f x = Ret y)"
  "rust_bind r f = Panic \<longleftrightarrow> r = Panic \<or> (\<exists>x. r = Ret x \<and> f x = Panic)"
  "rust_bind r f = Hang \<longleftrightarrow> r = Hang \<or> (\<exists>x. r = Ret x \<and> f x = Hang)"
  by (cases r; simp)+

text \<open>The \<open>?\<close> operator on \<open>Result\<close>, a sum with the error on the left, and a loop whose body may
  return early with an error.\<close>

fun try_bind :: "'e + 'a \<Rightarrow> ('a \<Rightarrow> 'e + 'b) \<Rightarrow> 'e + 'b" where
  "try_bind (Inl e) f = Inl e"
| "try_bind (Inr x) f = f x"

fun try_for :: "('a \<Rightarrow> 'e + unit) \<Rightarrow> 'a list \<Rightarrow> 'e + unit" where
  "try_for f [] = Inr ()"
| "try_for f (x # xs) = try_bind (f x) (\<lambda>_. try_for f xs)"

definition ok_or :: "'e \<Rightarrow> 'a option \<Rightarrow> 'e + 'a" where
  "ok_or e x = (case x of None \<Rightarrow> Inl e | Some y \<Rightarrow> Inr y)"

definition map_err :: "('e \<Rightarrow> 'f) \<Rightarrow> 'e + 'a \<Rightarrow> 'f + 'a" where
  "map_err f r = map_sum f id r"

lemma try_bind_Inr: "try_bind r f = Inr y \<longleftrightarrow> (\<exists>x. r = Inr x \<and> f x = Inr y)"
  by (cases r) auto

lemma try_bind_Inl: "try_bind r f = Inl e \<longleftrightarrow> r = Inl e \<or> (\<exists>x. r = Inr x \<and> f x = Inl e)"
  by (cases r) auto

lemma try_for_Inr: "try_for f xs = Inr () \<longleftrightarrow> (\<forall>x \<in> set xs. f x = Inr ())"
  by (induction xs) (auto simp: try_bind_Inr)

lemma try_for_Inl: "try_for f xs = Inl e \<Longrightarrow> \<exists>x \<in> set xs. f x = Inl e"
  by (induction xs) (auto simp: try_bind_Inl)

lemma ok_or_Inr [simp]: "ok_or e x = Inr y \<longleftrightarrow> x = Some y"
  by (auto simp: ok_or_def split: option.split)

lemma map_err_Inr [simp]: "map_err f r = Inr y \<longleftrightarrow> r = Inr y"
  by (cases r) (auto simp: map_err_def)

text \<open>A \<open>std::collections::HashMap\<close> is the list of its entries in the order an iteration visits them:
  lookups read it with \<open>map_of\<close>, loops over it follow the list.\<close>

type_synonym 'v hash_map = "(string \<times> 'v) list"

abbreviation contains_key :: "'v hash_map \<Rightarrow> string \<Rightarrow> bool" where
  "contains_key m k \<equiv> map_of m k \<noteq> None"

text \<open>\<open>collect\<close> into a \<open>HashMap\<close>: a later pair replaces an earlier one with the same key.\<close>

definition collect_map :: "(string \<times> 'v) list \<Rightarrow> 'v hash_map" where
  "collect_map kvs = foldl (\<lambda>m (k, v). AList.update k v m) [] kvs"

lemma collect_map_distinct: "distinct (map fst kvs) \<Longrightarrow> map_of (collect_map kvs) = map_of kvs"
proof -
  have "map_of (foldl (\<lambda>m (k, v). AList.update k v m) m kvs) = map_of m ++ map_of kvs"
    if "distinct (map fst kvs)" for m
    using that
  proof (induction kvs arbitrary: m)
    case (Cons kv kvs)
    then have "fst kv \<notin> dom (map_of kvs)" by (simp add: dom_map_of_conv_image_fst)
    with Cons show ?case
      by (cases kv) (auto simp: update_conv' map_add_def fun_eq_iff split: option.splits)
  qed simp
  from this [of "[]"] show "distinct (map fst kvs) \<Longrightarrow> ?thesis" by (simp add: collect_map_def)
qed

named_theorems rust_defs \<open>unfolding of the standard-library functions\<close>
named_theorems gw_inv \<open>preservation of the components' invariants\<close>

subsection \<open>Durations\<close>

definition from_secs :: "u64 \<Rightarrow> duration" where
  "from_secs s = unat s * 1000000000"

definition from_millis :: "u64 \<Rightarrow> duration" where
  "from_millis ms = unat ms * 1000000"

definition as_secs :: "duration \<Rightarrow> u64" where
  "as_secs d = word_of_nat (d div 1000000000)"

text \<open>\<open>Duration::as_millis\<close> returns a \<open>u128\<close>, wide enough for every duration.\<close>

definition as_millis :: "duration \<Rightarrow> nat" where
  "as_millis d = d div 1000000"

lemma as_secs_from_secs [simp]: "as_secs (from_secs s) = s"
  by (simp add: as_secs_def from_secs_def)

lemma as_millis_from_millis [simp]: "as_millis (from_millis s) = unat s"
  by (simp add: as_millis_def from_millis_def)

lemma from_secs_le_iff [simp]: "from_secs a \<le> from_secs b \<longleftrightarrow> a \<le> b"
  by (simp add: from_secs_def word_le_nat_alt)

subsection \<open>Saturating arithmetic\<close>

definition saturating_sub :: "'a::len word \<Rightarrow> 'a word \<Rightarrow> 'a word" where
  "saturating_sub a b = (if a < b then 0 else a - b)"

definition saturating_add :: "'a::len word \<Rightarrow> 'a word \<Rightarrow> 'a word" where
  "saturating_add a b = (if unat a + unat b < 2 ^ LENGTH('a) then a + b else - 1)"

definition saturating_mul :: "'a::len word \<Rightarrow> 'a word \<Rightarrow> 'a word" where
  "saturating_mul a b = (if unat a * unat b < 2 ^ LENGTH('a) then a * b else - 1)"

lemma unat_saturating_sub: "unat (saturating_sub a b) = unat a - unat b"
  by (auto simp: saturating_sub_def unat_sub word_less_nat_alt not_less word_le_nat_alt)

lemma unat_minus_one_max: "unat (- 1 :: 'a::len word) = 2 ^ LENGTH('a) - 1"
  by (simp add: unsigned_minus_1_eq_mask mask_eq_exp_minus_1)

lemma unat_saturating_add:
  fixes a b :: "'a::len word"
  shows "unat (saturating_add a b) = min (unat a + unat b) (2 ^ LENGTH('a) - 1)"
  by (auto simp: saturating_add_def unat_minus_one_max unat_word_ariths min_def)

lemma unat_saturating_mul:
  fixes a b :: "'a::len word"
  shows "unat (saturating_mul a b) = min (unat a * unat b) (2 ^ LENGTH('a) - 1)"
proof (cases "unat a * unat b < 2 ^ LENGTH('a)")
  case True
  then have "unat (a * b) = unat a * unat b" by (simp add: unat_word_ariths)
  moreover have "unat a * unat b \<le> 2 ^ LENGTH('a) - 1" using True by linarith
  ultimately show ?thesis using True by (simp only: saturating_mul_def min_def if_True)
next
  case False
  then show ?thesis by (simp add: saturating_mul_def unat_minus_one_max)
qed

lemma unat_lt_exp: "unat (a :: 'a::len word) < 2 ^ LENGTH('a)"
  by (rule unsigned_less)

lemma unat_less_eq_max: "unat (a :: 'a::len word) \<le> 2 ^ LENGTH('a) - 1"
  using unat_lt_exp [of a] by linarith

lemma unat_word_of_nat: "n < 2 ^ LENGTH('a) \<Longrightarrow> unat (word_of_nat n :: 'a::len word) = n"
  by (simp add: unsigned_of_nat take_bit_nat_eq_self)

lemma unat_sum_list:
  fixes ws :: "'a::len word list"
  shows "sum_list (map unat ws) < 2 ^ LENGTH('a) \<Longrightarrow> unat (sum_list ws) = sum_list (map unat ws)"
  by (induction ws) (simp_all add: unat_word_ariths)

section \<open>Strings\<close>

definition is_ascii_upper :: "char \<Rightarrow> bool" where
  "is_ascii_upper c \<longleftrightarrow> 65 \<le> (of_char c :: nat) \<and> (of_char c :: nat) \<le> 90"

definition is_ascii_lower :: "char \<Rightarrow> bool" where
  "is_ascii_lower c \<longleftrightarrow> 97 \<le> (of_char c :: nat) \<and> (of_char c :: nat) \<le> 122"

definition is_ascii_digit :: "char \<Rightarrow> bool" where
  "is_ascii_digit c \<longleftrightarrow> 48 \<le> (of_char c :: nat) \<and> (of_char c :: nat) \<le> 57"

definition char_lower :: "char \<Rightarrow> char" where
  "char_lower c = (if is_ascii_upper c then char_of ((of_char c :: nat) + 32) else c)"

definition char_upper :: "char \<Rightarrow> char" where
  "char_upper c = (if is_ascii_lower c then char_of ((of_char c :: nat) - 32) else c)"

definition to_ascii_lowercase :: "string \<Rightarrow> string" where
  "to_ascii_lowercase = map char_lower"

definition to_ascii_uppercase :: "string \<Rightarrow> string" where
  "to_ascii_uppercase = map char_upper"

definition eq_ignore_ascii_case :: "string \<Rightarrow> string \<Rightarrow> bool" where
  "eq_ignore_ascii_case a b \<longleftrightarrow> to_ascii_lowercase a = to_ascii_lowercase b"

lemma of_char_less_256: "(of_char c :: nat) < 256"
  using nat_of_char_less_256 [of c] by simp

lemma of_char_char_lower:
  "(of_char (char_lower c) :: nat) = (if is_ascii_upper c then of_char c + 32 else of_char c)"
  by (auto simp: char_lower_def is_ascii_upper_def of_char_of)

lemma char_lower_idem [simp]: "char_lower (char_lower c) = char_lower c"
proof -
  have "\<not> is_ascii_upper (char_lower c)"
    unfolding is_ascii_upper_def of_char_char_lower by (auto simp: is_ascii_upper_def)
  then show ?thesis by (simp add: char_lower_def [of "char_lower c"])
qed

lemma char_lower_slash [simp]: "char_lower c = CHR ''/'' \<longleftrightarrow> c = CHR ''/''"
proof
  assume "char_lower c = CHR ''/''"
  then have *: "(of_char (char_lower c) :: nat) = 47" by simp
  have "\<not> is_ascii_upper c"
  proof
    assume "is_ascii_upper c"
    with * show False by (simp add: of_char_char_lower is_ascii_upper_def)
  qed
  with \<open>char_lower c = CHR ''/''\<close> show "c = CHR ''/''" by (simp add: char_lower_def)
qed (simp add: char_lower_def is_ascii_upper_def)

lemma to_ascii_lowercase_idem [simp]:
  "to_ascii_lowercase (to_ascii_lowercase s) = to_ascii_lowercase s"
  by (simp add: to_ascii_lowercase_def)

lemma to_ascii_lowercase_simps [simp]:
  "to_ascii_lowercase [] = []"
  "to_ascii_lowercase (c # s) = char_lower c # to_ascii_lowercase s"
  "length (to_ascii_lowercase s) = length s"
  by (simp_all add: to_ascii_lowercase_def)

lemma eq_ignore_ascii_case_refl [simp]: "eq_ignore_ascii_case s s"
  by (simp add: eq_ignore_ascii_case_def)

lemma eq_ignore_ascii_case_sym: "eq_ignore_ascii_case a b \<Longrightarrow> eq_ignore_ascii_case b a"
  by (simp add: eq_ignore_ascii_case_def)

subsection \<open>Searching and splitting\<close>

definition trim_start_matches :: "char \<Rightarrow> string \<Rightarrow> string" where
  "trim_start_matches c s = dropWhile (\<lambda>x. x = c) s"

text \<open>\<open>str::contains\<close> for a substring pattern.\<close>

fun str_contains :: "string \<Rightarrow> string \<Rightarrow> bool" where
  "str_contains [] p = (p = [])"
| "str_contains (c # s) p = (prefix p (c # s) \<or> str_contains s p)"

lemma str_contains_iff_sublist: "str_contains s p \<longleftrightarrow> sublist p s"
  by (induction s) (auto simp: sublist_Cons_right)

definition strip_prefix :: "string \<Rightarrow> string \<Rightarrow> string option" where
  "strip_prefix s p = (if prefix p s then Some (drop (length p) s) else None)"

lemma strip_prefix_Some: "strip_prefix s p = Some r \<longleftrightarrow> s = p @ r"
  by (auto simp: strip_prefix_def prefix_def)

text \<open>\<open>str::split\<close> on a character: one piece more than there are separators.\<close>

fun str_split :: "char \<Rightarrow> string \<Rightarrow> string list" where
  "str_split c [] = [[]]"
| "str_split c (x # xs) =
     (if x = c then [] # str_split c xs
      else (case str_split c xs of [] \<Rightarrow> [[x]] | p # ps \<Rightarrow> (x # p) # ps))"

lemma str_split_not_Nil [simp]: "str_split c s \<noteq> []"
  by (induction s) (auto split: list.splits)

lemma str_split_no_sep: "p \<in> set (str_split c s) \<Longrightarrow> c \<notin> set p"
proof (induction s arbitrary: p)
  case (Cons x xs)
  then show ?case by (cases "str_split c xs") (auto split: if_splits)
qed simp

lemma str_split_absent: "c \<notin> set s \<Longrightarrow> str_split c s = [s]"
  by (induction s) auto

text \<open>
  \<open>str::trim\<close> removes leading and trailing code points with the Unicode property
  \<open>White_Space\<close>: nine ASCII or Latin-1 controls and spaces, and the multi-byte ones below in their
  UTF-8 encoding. UTF-8 is self-synchronising, so matching the encodings at the ends of the byte
  string is matching code points.
\<close>

definition white_space :: "string list" where
  "white_space =
     [[CHR 0x09], [CHR 0x0A], [CHR 0x0B], [CHR 0x0C], [CHR 0x0D], [CHR 0x20],
      [CHR 0xC2, CHR 0x85], [CHR 0xC2, CHR 0xA0], [CHR 0xE1, CHR 0x9A, CHR 0x80],
      [CHR 0xE2, CHR 0x80, CHR 0x80], [CHR 0xE2, CHR 0x80, CHR 0x81],
      [CHR 0xE2, CHR 0x80, CHR 0x82], [CHR 0xE2, CHR 0x80, CHR 0x83],
      [CHR 0xE2, CHR 0x80, CHR 0x84], [CHR 0xE2, CHR 0x80, CHR 0x85],
      [CHR 0xE2, CHR 0x80, CHR 0x86], [CHR 0xE2, CHR 0x80, CHR 0x87],
      [CHR 0xE2, CHR 0x80, CHR 0x88], [CHR 0xE2, CHR 0x80, CHR 0x89],
      [CHR 0xE2, CHR 0x80, CHR 0x8A], [CHR 0xE2, CHR 0x80, CHR 0xA8],
      [CHR 0xE2, CHR 0x80, CHR 0xA9], [CHR 0xE2, CHR 0x80, CHR 0xAF],
      [CHR 0xE2, CHR 0x81, CHR 0x9F], [CHR 0xE3, CHR 0x80, CHR 0x80]]"

text \<open>Remove leading occurrences of the given patterns; an empty pattern removes nothing.\<close>

function strip_seqs :: "string list \<Rightarrow> string \<Rightarrow> string" where
  "strip_seqs ws s =
     (case List.find (\<lambda>w. w \<noteq> [] \<and> prefix w s) ws of
        None \<Rightarrow> s
      | Some w \<Rightarrow> strip_seqs ws (drop (length w) s))"
  by pat_completeness auto
termination
  by (relation "measure (\<lambda>(ws, s). length s)")
    (auto simp: find_Some_iff prefix_def neq_Nil_conv)

declare strip_seqs.simps [simp del]

definition str_trim :: "string \<Rightarrow> string" where
  "str_trim s =
     rev (strip_seqs (map rev white_space) (rev (strip_seqs white_space s)))"

lemma strip_seqs_Nil [simp]: "strip_seqs ws [] = []"
  by (subst strip_seqs.simps) (auto split: option.split simp: find_Some_iff)

lemma str_trim_Nil [simp]: "str_trim [] = []"
  by (simp add: str_trim_def)

lemma strip_seqs_suffix: "\<exists>p. s = p @ strip_seqs ws s"
proof (induction ws s rule: strip_seqs.induct)
  case (1 ws s)
  show ?case
  proof (cases "List.find (\<lambda>w. w \<noteq> [] \<and> prefix w s) ws")
    case None
    then show ?thesis by (simp add: strip_seqs.simps [of ws s])
  next
    case (Some w)
    then obtain p where "drop (length w) s = p @ strip_seqs ws (drop (length w) s)"
      using "1.IH" by blast
    then have "s = (take (length w) s @ p) @ strip_seqs ws (drop (length w) s)"
      by (metis append.assoc append_take_drop_id)
    with Some show ?thesis by (subst strip_seqs.simps) (simp only: option.case, blast)
  qed
qed

text \<open>\<open>str::split_whitespace\<close>: the maximal non-empty pieces between occurrences of the patterns. A pattern starts with a byte
  that starts a character, so in UTF-8 it is found at the start of a character only.\<close>

function split_seqs :: "string list \<Rightarrow> string \<Rightarrow> string \<Rightarrow> string list" where
  "split_seqs ws acc s =
     (case List.find (\<lambda>w. w \<noteq> [] \<and> prefix w s) ws of
        None \<Rightarrow>
          (case s of
             [] \<Rightarrow> if acc = [] then [] else [acc]
           | c # s' \<Rightarrow> split_seqs ws (acc @ [c]) s')
      | Some w \<Rightarrow> (if acc = [] then [] else [acc]) @ split_seqs ws [] (drop (length w) s))"
  by pat_completeness auto
termination
  by (relation "measure (\<lambda>(ws, acc, s). length s)")
    (auto simp: find_Some_iff prefix_def neq_Nil_conv)

declare split_seqs.simps [simp del]

definition split_whitespace :: "string \<Rightarrow> string list" where
  "split_whitespace s = split_seqs white_space [] s"

lemma split_seqs_Nil [simp]: "split_seqs ws acc [] = (if acc = [] then [] else [acc])"
proof -
  have "List.find (\<lambda>w. w \<noteq> [] \<and> prefix w []) ws = None" by (simp add: find_None_iff)
  then show ?thesis by (simp add: split_seqs.simps [of ws acc "[]"])
qed

lemma split_seqs_word:
  assumes "\<forall>w \<in> set ws. hd w \<notin> set u"
  shows "split_seqs ws acc (u @ s) = split_seqs ws (acc @ u) s"
  using assms
proof (induction u arbitrary: acc)
  case (Cons c u)
  have "List.find (\<lambda>w. w \<noteq> [] \<and> prefix w (c # u @ s)) ws = None"
    using Cons.prems by (auto simp: find_None_iff prefix_Cons)
  with Cons show ?case by (simp add: split_seqs.simps [of ws acc "c # u @ s"])
qed simp

lemma split_whitespace_space: "split_seqs white_space acc (CHR '' '' # s) = (if acc = [] then [] else [acc]) @ split_whitespace s"
  by (subst split_seqs.simps) (simp add: white_space_def split_whitespace_def)

text \<open>Words joined by spaces are found again.\<close>

lemma split_whitespace_words:
  assumes "\<forall>u \<in> set us. u \<noteq> [] \<and> (\<forall>w \<in> set white_space. hd w \<notin> set u)"
  shows "split_whitespace (concat (map (\<lambda>u. CHR '' '' # u) us)) = us"
proof -
  have *: "split_seqs white_space acc (concat (map (\<lambda>u. CHR '' '' # u) us)) = (if acc = [] then us else acc # us)" for acc
    using assms
  proof (induction us arbitrary: acc)
    case (Cons u us)
    then show ?case by (auto simp: split_whitespace_space split_seqs_word split_whitespace_def)
  qed simp
  from * [of "[]"] show ?thesis by (simp add: split_whitespace_def)
qed

lemma set_str_trim: "set (str_trim s) \<subseteq> set s"
proof -
  have *: "set (strip_seqs ws t) \<subseteq> set t" for ws t
    using strip_seqs_suffix [of t ws] by (metis set_append sup_ge2)
  have "set (strip_seqs (map rev white_space) (rev (strip_seqs white_space s)))
      \<subseteq> set (strip_seqs white_space s)"
    using * [of "map rev white_space" "rev (strip_seqs white_space s)"] by simp
  with * [of white_space s] show ?thesis by (auto simp: str_trim_def)
qed

subsection \<open>Decimal numbers\<close>

text \<open>\<open>ToString\<close> of an unsigned integer and \<open>str::parse\<close> into \<open>u64\<close>: an optional plus sign,
  at least one digit, digits only, and a value that fits.\<close>

fun nat_to_string :: "nat \<Rightarrow> string" where
  "nat_to_string n =
     (if n < 10 then [char_of (48 + n)]
      else nat_to_string (n div 10) @ [char_of (48 + n mod 10)])"

declare nat_to_string.simps [simp del]

definition u64_to_string :: "u64 \<Rightarrow> string" where
  "u64_to_string w = nat_to_string (unat w)"

fun digits_value :: "nat \<Rightarrow> string \<Rightarrow> nat" where
  "digits_value acc [] = acc"
| "digits_value acc (c # s) = digits_value (10 * acc + (of_char c - 48)) s"

definition parse_u64 :: "string \<Rightarrow> u64 option" where
  "parse_u64 s =
     (let ds = (case s of c # r \<Rightarrow> (if c = CHR ''+'' then r else s) | [] \<Rightarrow> [])
      in if ds \<noteq> [] \<and> list_all is_ascii_digit ds \<and> digits_value 0 ds < 2 ^ 64
         then Some (word_of_nat (digits_value 0 ds)) else None)"

lemma digits_value_append: "digits_value acc (s @ t) = digits_value (digits_value acc s) t"
  by (induction s arbitrary: acc) auto

lemma of_char_digit: "d < 10 \<Longrightarrow> (of_char (char_of (48 + d) :: char) :: nat) = 48 + d"
  by (simp add: of_char_of)

lemma nat_to_string_digits: "list_all is_ascii_digit (nat_to_string n)"
proof (induction n rule: nat_to_string.induct)
  case (1 n)
  have "is_ascii_digit (char_of (48 + d))" if "d < 10" for d :: nat
    using that by (simp add: is_ascii_digit_def of_char_digit)
  with 1 show ?case by (subst nat_to_string.simps) simp
qed

lemma nat_to_string_not_Nil [simp]: "nat_to_string n \<noteq> []"
  by (subst nat_to_string.simps) simp

lemma digits_value_nat_to_string: "digits_value 0 (nat_to_string n) = n"
proof (induction n rule: nat_to_string.induct)
  case (1 n)
  show ?case
  proof (cases "n < 10")
    case True
    then show ?thesis by (subst nat_to_string.simps) (simp add: of_char_digit)
  next
    case False
    with 1 show ?thesis
      by (subst nat_to_string.simps) (simp add: digits_value_append of_char_digit)
  qed
qed

lemma digit_not_plus: "is_ascii_digit c \<Longrightarrow> c \<noteq> CHR ''+''"
  by (auto simp: is_ascii_digit_def)

lemma parse_u64_digits:
  assumes "list_all is_ascii_digit s" "s \<noteq> []"
  shows "parse_u64 s = (if digits_value 0 s < 2 ^ 64 then Some (word_of_nat (digits_value 0 s)) else None)"
  using assms by (cases s) (auto simp: parse_u64_def Let_def dest: digit_not_plus)

lemma parse_u64_to_string [simp]: "parse_u64 (u64_to_string w) = Some w"
proof -
  have "unat w < 2 ^ 64" using unat_lt_exp [of w] by simp
  then show ?thesis
    by (simp add: u64_to_string_def parse_u64_digits nat_to_string_digits digits_value_nat_to_string)
qed

lemma nat_to_string_inj [simp]: "nat_to_string m = nat_to_string n \<longleftrightarrow> m = n"
  by (metis digits_value_nat_to_string)

section \<open>Slices\<close>

text \<open>\<open>Iterator::position\<close>.\<close>

fun position :: "('a \<Rightarrow> bool) \<Rightarrow> 'a list \<Rightarrow> nat option" where
  "position P [] = None"
| "position P (x # xs) = (if P x then Some 0 else map_option Suc (position P xs))"

lemma position_Some:
  "position P xs = Some i \<Longrightarrow> i < length xs \<and> P (xs ! i) \<and> (\<forall>j < i. \<not> P (xs ! j))"
proof (induction xs arbitrary: i)
  case (Cons x xs)
  then show ?case by (auto split: if_splits simp: nth_Cons split: nat.split)
qed simp

lemma position_None: "position P xs = None \<longleftrightarrow> (\<forall>x \<in> set xs. \<not> P x)"
  by (induction xs) auto

text \<open>
  \<open>slice::binary_search_by\<close> of the standard library, on the keys of the elements: \<open>base\<close> is the
  start of the remaining range and \<open>sz\<close> its length. The result is the index on \<open>Ok\<close>.
\<close>

function bsearch_loop :: "('a \<Rightarrow> 'k::linorder) \<Rightarrow> 'a list \<Rightarrow> 'k \<Rightarrow> nat \<Rightarrow> nat \<Rightarrow> nat" where
  "bsearch_loop key xs k base sz =
     (if sz > 1 then
        (let half = sz div 2; mid = base + half
         in bsearch_loop key xs k (if key (xs ! mid) > k then base else mid) (sz - half))
      else base)"
  by pat_completeness auto
termination
  by (relation "measure (\<lambda>(key, xs, k, base, sz). sz)") auto

declare bsearch_loop.simps [simp del]

definition binary_search_by :: "('a \<Rightarrow> 'k::linorder) \<Rightarrow> 'a list \<Rightarrow> 'k \<Rightarrow> nat option" where
  "binary_search_by key xs k =
     (if xs = [] then None
      else (let base = bsearch_loop key xs k 0 (length xs)
            in if key (xs ! base) = k then Some base else None))"

text \<open>The loop keeps every element with the key inside the range it still considers.\<close>

lemma bsearch_loop_finds:
  assumes "sorted (map key xs)" and "base \<le> i" and "i < base + sz"
    and "base + sz \<le> length xs" and "key (xs ! i) = k"
    and "\<And>j. j < length xs \<Longrightarrow> key (xs ! j) = k \<Longrightarrow> j = i"
  shows "bsearch_loop key xs k base sz = i"
  using assms
proof (induction key xs k base sz rule: bsearch_loop.induct)
  case (1 key xs k base sz)
  have mono: "key (xs ! a) \<le> key (xs ! b)" if "a \<le> b" "b < length xs" for a b
    using sorted_nth_mono [OF "1.prems"(1), of a b] that by simp
  show ?case
  proof (cases "sz > 1")
    case False
    with "1.prems" show ?thesis by (auto simp: bsearch_loop.simps [of key xs k base sz])
  next
    case True
    let ?mid = "base + sz div 2"
    have mid: "?mid < length xs" using "1.prems"(4) True by linarith
    have step: "bsearch_loop key xs k base sz =
        bsearch_loop key xs k (if key (xs ! ?mid) > k then base else ?mid) (sz - sz div 2)"
      using True by (simp add: bsearch_loop.simps [of key xs k base sz] Let_def)
    show ?thesis
    proof (cases "key (xs ! ?mid) > k")
      case gt: True
      have "i < ?mid"
        using mono [of ?mid i] gt "1.prems"(3,4,5) by (metis leD le_less_linear order_less_le_trans)
      then have "i < base + (sz - sz div 2)" by linarith
      with "1.IH" [OF True refl refl] gt "1.prems" show ?thesis
        by (auto simp: step)
    next
      case le: False
      have "?mid \<le> i"
      proof (rule ccontr)
        assume "\<not> ?mid \<le> i"
        then have "key (xs ! i) \<le> key (xs ! ?mid)" using mono [of i ?mid] mid by simp
        with le "1.prems"(5) have "key (xs ! ?mid) = k" by simp
        with "1.prems"(6) [OF mid] \<open>\<not> ?mid \<le> i\<close> show False by simp
      qed
      with "1.IH" [OF True refl refl] le "1.prems" True show ?thesis
        by (auto simp: step)
    qed
  qed
qed

lemma bsearch_loop_less: "sz > 0 \<Longrightarrow> bsearch_loop key xs k base sz < base + sz"
proof (induction key xs k base sz rule: bsearch_loop.induct)
  case (1 key xs k base sz)
  show ?case
  proof (cases "sz > 1")
    case False
    with "1.prems" show ?thesis by (simp add: bsearch_loop.simps [of key xs k base sz])
  next
    case True
    let ?b = "if key (xs ! (base + sz div 2)) > k then base else base + sz div 2"
    have "bsearch_loop key xs k ?b (sz - sz div 2) < ?b + (sz - sz div 2)"
      using "1.IH" [OF True refl refl] True by simp
    also have "\<dots> \<le> base + sz" by simp
    finally show ?thesis
      using True by (simp add: bsearch_loop.simps [of key xs k base sz] Let_def)
  qed
qed

text \<open>On a slice with strictly increasing keys, binary search is linear search.\<close>

theorem binary_search_by_position:
  assumes "sorted (map key xs)" and "distinct (map key xs)"
  shows "binary_search_by key xs k = position (\<lambda>x. key x = k) xs"
proof (cases "position (\<lambda>x. key x = k) xs")
  case None
  show ?thesis
  proof (cases "xs = []")
    case True
    with None show ?thesis by (simp add: binary_search_by_def)
  next
    case False
    then have "bsearch_loop key xs k 0 (length xs) < length xs"
      using bsearch_loop_less [of "length xs" key xs k 0] by simp
    then have "xs ! bsearch_loop key xs k 0 (length xs) \<in> set xs" by simp
    moreover have "\<forall>x \<in> set xs. key x \<noteq> k" using None by (simp add: position_None)
    ultimately show ?thesis using None False by (auto simp: binary_search_by_def Let_def)
  qed
next
  case (Some i)
  from position_Some [OF this] have i: "i < length xs" "key (xs ! i) = k" by auto
  have uniq: "j = i" if "j < length xs" "key (xs ! j) = k" for j
    using nth_eq_iff_index_eq [OF assms(2), of j i] that i by simp
  have "bsearch_loop key xs k 0 (length xs) = i"
  proof (rule bsearch_loop_finds [OF assms(1)])
    show "key (xs ! i) = k" by (rule i(2))
    show "i < 0 + length xs" using i(1) by simp
    show "j = i" if "j < length xs" "key (xs ! j) = k" for j using that by (rule uniq)
  qed simp_all
  moreover have "xs \<noteq> []" using i by auto
  ultimately show ?thesis using i Some by (simp add: binary_search_by_def)
qed

text \<open>\<open>Iterator::min_by_key\<close> returns the first of several equal minima.\<close>

fun min_by_key :: "('a \<Rightarrow> 'k::linorder) \<Rightarrow> 'a list \<Rightarrow> 'a option" where
  "min_by_key f [] = None"
| "min_by_key f (x # xs) =
     (case min_by_key f xs of None \<Rightarrow> Some x | Some y \<Rightarrow> Some (if f y < f x then y else x))"

lemma min_by_key_None [simp]: "min_by_key f xs = None \<longleftrightarrow> xs = []"
  by (cases xs) (auto split: option.splits)

lemma min_by_key_Some:
  "min_by_key f xs = Some m \<Longrightarrow> m \<in> set xs \<and> (\<forall>x \<in> set xs. f m \<le> f x)"
proof (induction xs arbitrary: m)
  case (Cons x xs)
  then show ?case by (cases "min_by_key f xs") (fastforce split: if_splits)+
qed simp

section \<open>Generic list lemmas\<close>

lemma find_append:
  "List.find P (xs @ ys) = (case List.find P xs of Some x \<Rightarrow> Some x | None \<Rightarrow> List.find P ys)"
  by (induction xs) auto

lemma find_SomeD: "List.find P xs = Some x \<Longrightarrow> x \<in> set xs \<and> P x"
  by (auto simp: find_Some_iff)

lemma find_filter: "List.find P (filter Q xs) = List.find (\<lambda>x. Q x \<and> P x) xs"
  by (induction xs) auto

lemma find_eq_hd_filter:
  "List.find P xs = (case filter P xs of [] \<Rightarrow> None | x # _ \<Rightarrow> Some x)"
  by (induction xs) auto

section \<open>Transition systems\<close>

text \<open>The components with interleaved operations are step relations. What a component owes is that its steps keep its
  invariant; then every state reachable from one that has it has it.\<close>

locale invariant_system =
  fixes step :: "'s \<Rightarrow> 's \<Rightarrow> bool" and inv :: "'s \<Rightarrow> bool"
  assumes inv_step: "step s t \<Longrightarrow> inv s \<Longrightarrow> inv t"
begin

lemma inv_steps:
  assumes "step\<^sup>*\<^sup>* s t" and "inv s"
  shows "inv t"
  using assms by (induction rule: rtranclp_induct) (auto intro: inv_step)

end

end
