(* ===== verification/F64.thy ===== *)
theory F64
  imports Prelude "HOL-Library.Log_Nat"
begin

text \<open>
  Rust's \<open>f64\<close>: IEEE-754 binary64 arithmetic with round-to-nearest, ties to even. A finite value is
  the rational number it denotes, and each basic operation is the exact operation followed by one
  rounding to 53 significant bits (\<open>f64_round\<close>), as the standard prescribes. The exponent range is
  not bounded here: every number the gateway computes with (token counts and rates up to
  \<open>2 ^ 64\<close>, elapsed times down to a nanosecond) lies far inside the normal range, so neither
  subnormals nor infinities arise from them.

  The laws the clients use are monotonicity (\<open>f64_round_mono\<close>) and exactness on integers up to
  \<open>2 ^ 53\<close> (\<open>f64_round_of_nat\<close>).
\<close>

type_synonym f64 = rat

definition round_half_even :: "rat \<Rightarrow> int" where
  "round_half_even y =
     (let f = \<lfloor>y\<rfloor>; d = y - of_int f
      in if d < 1 / 2 then f else if d > 1 / 2 then f + 1 else if even f then f else f + 1)"

text \<open>The binary exponent of a positive number, from the bit lengths of its numerator and
  denominator: the difference is the exponent or one more.\<close>

definition f64_exponent :: "rat \<Rightarrow> int" where
  "f64_exponent x =
     (let (p, q) = quotient_of x; e = bitlen p - bitlen q
      in if x < 2 powi e then e - 1 else e)"

definition round_pos :: "rat \<Rightarrow> rat" where
  "round_pos x =
     (let ulp = 2 powi (f64_exponent x - 52) in of_int (round_half_even (x / ulp)) * ulp)"

definition f64_round :: "rat \<Rightarrow> f64" where
  "f64_round x = (if x = 0 then 0 else if x < 0 then - round_pos (- x) else round_pos x)"

definition f64_add :: "f64 \<Rightarrow> f64 \<Rightarrow> f64" where
  "f64_add a b = f64_round (a + b)"

definition f64_sub :: "f64 \<Rightarrow> f64 \<Rightarrow> f64" where
  "f64_sub a b = f64_round (a - b)"

definition f64_mul :: "f64 \<Rightarrow> f64 \<Rightarrow> f64" where
  "f64_mul a b = f64_round (a * b)"

text \<open>\<open>as f64\<close> from an unsigned integer rounds; \<open>as u64\<close> from a float saturates and truncates;
  \<open>f64::floor\<close> is exact.\<close>

definition u64_as_f64 :: "u64 \<Rightarrow> f64" where
  "u64_as_f64 w = f64_round (of_nat (unat w))"

definition f64_as_u64 :: "f64 \<Rightarrow> u64" where
  "f64_as_u64 x = word_of_nat (min (nat \<lfloor>x\<rfloor>) (2 ^ 64 - 1))"

definition f64_floor :: "f64 \<Rightarrow> f64" where
  "f64_floor x = of_int \<lfloor>x\<rfloor>"

text \<open>\<open>Duration::as_secs_f64\<close>: whole seconds plus the nanosecond part divided by a billion.\<close>

definition as_secs_f64 :: "duration \<Rightarrow> f64" where
  "as_secs_f64 d =
     f64_add (f64_round (of_nat (d div 1000000000)))
       (f64_round (of_nat (d mod 1000000000) / 1000000000))"

section \<open>Rounding to an integer\<close>

lemma round_half_even_of_int [simp]: "round_half_even (of_int n) = n"
  by (simp add: round_half_even_def)

lemma round_half_even_bounds: "\<lfloor>y\<rfloor> \<le> round_half_even y" "round_half_even y \<le> \<lfloor>y\<rfloor> + 1"
  by (auto simp: round_half_even_def Let_def)

lemma round_half_even_mono:
  assumes "x \<le> y"
  shows "round_half_even x \<le> round_half_even y"
proof (cases "\<lfloor>x\<rfloor> = \<lfloor>y\<rfloor>")
  case True
  with assms show ?thesis by (auto simp: round_half_even_def Let_def)
next
  case False
  with floor_mono [OF assms] have "\<lfloor>x\<rfloor> + 1 \<le> \<lfloor>y\<rfloor>" by simp
  with round_half_even_bounds [of x] round_half_even_bounds [of y] show ?thesis by linarith
qed

section \<open>The exponent\<close>

lemma powi_less_iff: "(2::rat) powi a < 2 powi b \<longleftrightarrow> a < b"
  using power_int_strict_increasing [of a b "2::rat"] power_int_strict_increasing [of b a "2::rat"]
  by (metis less_irrefl less_trans linorder_less_linear one_less_numeral_iff semiring_norm(76))

lemma powi_le_iff: "(2::rat) powi a \<le> 2 powi b \<longleftrightarrow> a \<le> b"
  using powi_less_iff [of b a] by (simp add: not_less [symmetric])

lemma powi_pos: "(0::rat) < 2 powi a"
  by (rule zero_less_power_int) simp

lemma bitlen_powi_bounds:
  assumes "0 < (p::int)"
  shows "(2::rat) powi (bitlen p - 1) \<le> of_int p" "(of_int p :: rat) < 2 powi bitlen p"
proof -
  define n where "n = nat (bitlen p - 1)"
  have b: "bitlen p \<ge> 1" using assms bitlen_le_iff_power [of p 0] by (auto simp: bitlen_nonneg)
  then have n: "bitlen p = int n + 1" by (simp add: n_def)
  have "2 ^ nat (bitlen p - 1) \<le> p \<and> p < 2 ^ nat (bitlen p)"
    by (rule bitlen_bounds [OF assms])
  then have "2 ^ n \<le> p" "p < 2 ^ Suc n" using n by (auto simp: nat_add_distrib)
  then have "(of_int (2 ^ n) :: rat) \<le> of_int p" "(of_int p :: rat) < of_int (2 ^ Suc n)"
    by (simp_all only: of_int_le_iff of_int_less_iff)
  then show "(2::rat) powi (bitlen p - 1) \<le> of_int p" "(of_int p :: rat) < 2 powi bitlen p"
    using n by (simp_all add: power_int_add)
qed

lemma f64_exponent_bounds:
  assumes "0 < x"
  shows "2 powi f64_exponent x \<le> x" "x < 2 powi (f64_exponent x + 1)"
proof -
  obtain p q where pq: "quotient_of x = (p, q)" by (cases "quotient_of x")
  have q: "0 < q" using quotient_of_denom_pos [OF pq] .
  have x: "x = of_int p / of_int q" using quotient_of_div [OF pq] .
  with assms q have p: "0 < p" by (simp add: zero_less_divide_iff)
  let ?e = "bitlen p - bitlen q"
  have qp: "(0::rat) < of_int q" using q by simp
  have up: "x < 2 powi (?e + 1)"
  proof -
    have "of_int p < (2::rat) powi bitlen p" by (rule bitlen_powi_bounds [OF p])
    also have "\<dots> = 2 powi (?e + 1) * 2 powi (bitlen q - 1)"
      by (simp flip: power_int_add)
    also have "\<dots> \<le> 2 powi (?e + 1) * of_int q"
      by (rule mult_left_mono [OF bitlen_powi_bounds(1) [OF q]]) simp
    finally show ?thesis using qp by (simp add: x divide_less_eq)
  qed
  have lo: "2 powi (?e - 1) \<le> x"
  proof -
    have "(2::rat) powi (?e - 1) * of_int q \<le> 2 powi (?e - 1) * 2 powi bitlen q"
      by (rule mult_left_mono) (use bitlen_powi_bounds(2) [OF q] in simp_all)
    also have "\<dots> = 2 powi (bitlen p - 1)" by (simp flip: power_int_add)
    also have "\<dots> \<le> of_int p" by (rule bitlen_powi_bounds [OF p])
    finally show ?thesis using qp by (simp add: x le_divide_eq)
  qed
  have ex: "f64_exponent x = (if x < 2 powi ?e then ?e - 1 else ?e)"
    by (simp add: f64_exponent_def pq)
  show "2 powi f64_exponent x \<le> x" "x < 2 powi (f64_exponent x + 1)"
    using up lo by (auto simp: ex)
qed

lemma f64_exponent_mono:
  assumes "0 < x" "x \<le> y"
  shows "f64_exponent x \<le> f64_exponent y"
proof -
  have "(2::rat) powi f64_exponent x < 2 powi (f64_exponent y + 1)"
    using f64_exponent_bounds(1) [of x] f64_exponent_bounds(2) [of y] assms by linarith
  then show ?thesis by (simp add: powi_less_iff)
qed

section \<open>Rounding to 53 bits\<close>

lemma round_pos_eq:
  "round_pos x = of_int (round_half_even (x / 2 powi (f64_exponent x - 52))) * 2 powi (f64_exponent x - 52)"
  by (simp add: round_pos_def Let_def)

lemma ulp_split: "(2::rat) powi e = of_int (2 ^ 52) * 2 powi (e - 52)"
proof -
  have "(2::rat) powi e = 2 powi (52 + (e - 52))" by simp
  also have "\<dots> = 2 powi 52 * 2 powi (e - 52)" by (rule power_int_add) simp
  finally show ?thesis by simp
qed

lemma round_pos_bounds:
  assumes "0 < x"
  shows "2 powi f64_exponent x \<le> round_pos x" "round_pos x \<le> 2 powi (f64_exponent x + 1)"
proof -
  let ?u = "(2::rat) powi (f64_exponent x - 52)"
  have u: "0 < ?u" by (rule powi_pos)
  have "of_int (2 ^ 52) \<le> x / ?u"
    using f64_exponent_bounds(1) [OF assms] u by (simp add: ulp_split [of "f64_exponent x"] le_divide_eq)
  from round_half_even_mono [OF this] have lo: "2 ^ 52 \<le> round_half_even (x / ?u)"
    by (simp only: round_half_even_of_int)
  have e1: "(2::rat) powi (f64_exponent x + 1) = of_int (2 ^ 53) * ?u"
  proof -
    have "(2::rat) powi (f64_exponent x + 1) = 2 powi f64_exponent x * 2"
      by (simp add: power_int_add)
    then show ?thesis by (simp add: ulp_split [of "f64_exponent x"])
  qed
  have "x / ?u \<le> of_int (2 ^ 53)"
    using f64_exponent_bounds(2) [OF assms] u by (simp add: e1 divide_le_eq)
  from round_half_even_mono [OF this] have hi: "round_half_even (x / ?u) \<le> 2 ^ 53"
    by (simp only: round_half_even_of_int)
  show "2 powi f64_exponent x \<le> round_pos x"
    unfolding round_pos_eq ulp_split [of "f64_exponent x"]
    by (rule mult_right_mono) (use lo u in \<open>simp_all only: of_int_le_iff less_imp_le\<close>)
  show "round_pos x \<le> 2 powi (f64_exponent x + 1)"
    unfolding round_pos_eq e1
    by (rule mult_right_mono) (use hi u in \<open>simp_all only: of_int_le_iff less_imp_le\<close>)
qed

lemma round_pos_pos: "0 < x \<Longrightarrow> 0 < round_pos x"
  using round_pos_bounds(1) [of x] powi_pos [of "f64_exponent x"] by linarith

lemma round_pos_mono:
  assumes "0 < x" "x \<le> y"
  shows "round_pos x \<le> round_pos y"
proof (cases "f64_exponent x = f64_exponent y")
  case True
  let ?u = "(2::rat) powi (f64_exponent y - 52)"
  have "round_half_even (x / ?u) \<le> round_half_even (y / ?u)"
    using assms(2) powi_pos [of "f64_exponent y - 52"]
    by (intro round_half_even_mono) (simp add: divide_right_mono)
  then show ?thesis using powi_pos [of "f64_exponent y - 52"] by (simp add: round_pos_eq True)
next
  case False
  with f64_exponent_mono [OF assms] have "f64_exponent x + 1 \<le> f64_exponent y" by simp
  then have "(2::rat) powi (f64_exponent x + 1) \<le> 2 powi f64_exponent y" by (simp add: powi_le_iff)
  with round_pos_bounds(2) [OF assms(1)] round_pos_bounds(1) [of y] assms show ?thesis by linarith
qed

theorem f64_round_mono:
  assumes "x \<le> y"
  shows "f64_round x \<le> f64_round y"
proof -
  consider "x < 0" "y < 0" | "x < 0" "y \<ge> 0" | "x = 0" | "x > 0" using assms by linarith
  then show ?thesis
  proof cases
    case 1
    then have "round_pos (- y) \<le> round_pos (- x)" using assms by (intro round_pos_mono) auto
    with 1 show ?thesis by (simp add: f64_round_def)
  next
    case 2
    then have "0 < round_pos (- x)" by (intro round_pos_pos) simp
    moreover have "0 \<le> f64_round y"
      using 2 round_pos_pos [of y] by (auto simp: f64_round_def)
    ultimately show ?thesis using 2 by (simp add: f64_round_def)
  next
    case 3
    then show ?thesis using assms round_pos_pos [of y] by (auto simp: f64_round_def)
  next
    case 4
    then show ?thesis using assms round_pos_mono [of x y] by (simp add: f64_round_def)
  qed
qed

lemma f64_round_0 [simp]: "f64_round 0 = 0"
  by (simp add: f64_round_def)

lemma f64_round_nonneg: "0 \<le> x \<Longrightarrow> 0 \<le> f64_round x"
  using f64_round_mono [of 0 x] by simp

lemma round_pos_of_nat:
  assumes "0 < n" "n \<le> 2 ^ 53"
  shows "round_pos (of_nat n) = of_nat n"
proof (cases "f64_exponent (of_nat n) \<le> 52")
  case True
  define k where "k = nat (52 - f64_exponent (of_nat n))"
  have k: "f64_exponent (of_nat n) - 52 = - int k" using True by (simp add: k_def)
  have "of_nat n / (2::rat) powi (- int k) = of_int (int n * 2 ^ k)"
    by (simp add: power_int_minus field_simps)
  then have "round_half_even (of_nat n / (2::rat) powi (- int k)) = int n * 2 ^ k"
    by (simp only: round_half_even_of_int)
  then show ?thesis unfolding round_pos_eq k by (simp add: power_int_minus)
next
  case False
  then have "(2::rat) powi 53 \<le> 2 powi f64_exponent (of_nat n)" by (subst powi_le_iff) simp
  also have "\<dots> \<le> of_nat n" using assms by (intro f64_exponent_bounds) simp
  finally have "(of_nat (2 ^ 53) :: rat) \<le> of_nat n" by simp
  then have n: "n = 2 ^ 53" using assms by (simp only: of_nat_le_iff)
  have "(2::rat) powi f64_exponent (of_nat n) \<le> 2 powi 53"
    using f64_exponent_bounds(1) [of "of_nat n :: rat"] n by simp
  then have "f64_exponent (of_nat n :: rat) \<le> 53" by (simp only: powi_le_iff)
  then have e: "f64_exponent (of_nat n :: rat) = 53" using False by linarith
  have "of_nat n / (2::rat) powi (53 - 52) = of_int (2 ^ 52)" using n by simp
  then have "round_half_even (of_nat n / (2::rat) powi (53 - 52)) = 2 ^ 52"
    by (simp only: round_half_even_of_int)
  then have "round_pos (of_nat n) = of_int (2 ^ 52) * 2 powi (53 - 52)"
    unfolding round_pos_eq e by simp
  then show ?thesis using n by simp
qed

theorem f64_round_of_nat: "n \<le> 2 ^ 53 \<Longrightarrow> f64_round (of_nat n) = of_nat n"
  using round_pos_of_nat [of n] by (cases "n = 0") (simp_all add: f64_round_def)

lemma f64_round_1 [simp]: "f64_round 1 = 1"
  using f64_round_of_nat [of 1] by simp

lemma u64_as_f64_exact: "unat w \<le> 2 ^ 53 \<Longrightarrow> u64_as_f64 w = of_nat (unat w)"
  unfolding u64_as_f64_def by (rule f64_round_of_nat)

lemma u64_as_f64_nonneg: "0 \<le> u64_as_f64 w"
  unfolding u64_as_f64_def by (rule f64_round_nonneg) (rule of_nat_0_le_iff)

lemma as_secs_f64_nonneg: "0 \<le> as_secs_f64 d"
  unfolding as_secs_f64_def f64_add_def
  by (intro f64_round_nonneg add_nonneg_nonneg) auto

lemma as_secs_f64_0 [simp]: "as_secs_f64 0 = 0"
  by (simp add: as_secs_f64_def f64_add_def)

lemma f64_add_0 [simp]: "f64_round x = x \<Longrightarrow> f64_add x 0 = x"
  by (simp add: f64_add_def)

text \<open>Rounding is idempotent: the result of a rounding is representable.\<close>

lemma round_pos_idem:
  assumes "0 < x"
  shows "round_pos (round_pos x) = round_pos x"
proof -
  define e where "e = f64_exponent x"
  define m where "m = round_half_even (x / 2 powi (e - 52))"
  have r: "round_pos x = of_int m * 2 powi (e - 52)" by (simp add: round_pos_eq m_def e_def)
  let ?r = "round_pos x"
  have rp: "0 < ?r" by (rule round_pos_pos [OF assms])
  have "e \<le> f64_exponent ?r"
  proof -
    have "2 powi e < (2::rat) powi (f64_exponent ?r + 1)"
      using round_pos_bounds(1) [OF assms] f64_exponent_bounds(2) [OF rp] by (simp add: e_def)
    then show ?thesis by (simp add: powi_less_iff)
  qed
  moreover have "f64_exponent ?r \<le> e + 1"
  proof -
    have "(2::rat) powi f64_exponent ?r \<le> 2 powi (e + 1)"
      using round_pos_bounds(2) [OF assms] f64_exponent_bounds(1) [OF rp] by (simp add: e_def)
    then show ?thesis by (simp add: powi_le_iff)
  qed
  ultimately consider "f64_exponent ?r = e" | "f64_exponent ?r = e + 1" by linarith
  then show ?thesis
  proof cases
    case 1
    have "?r / 2 powi (e - 52) = of_int m" by (simp add: r)
    then show ?thesis unfolding round_pos_eq [of ?r] 1 by (simp add: r)
  next
    case 2
    then have "2 powi (e + 1) \<le> ?r" using f64_exponent_bounds(1) [OF rp] by simp
    with round_pos_bounds(2) [OF assms] have eq: "?r = 2 powi (e + 1)" by (simp add: e_def)
    have "(2::rat) powi (e + 1) / 2 powi (e + 1 - 52) = of_int (2 ^ 52)"
      unfolding ulp_split [of "e + 1"] by simp
    then have "round_half_even ((2::rat) powi (e + 1) / 2 powi (e + 1 - 52)) = 2 ^ 52"
      by (simp only: round_half_even_of_int)
    then have "round_pos ?r = of_int (2 ^ 52) * 2 powi (e + 1 - 52)"
      unfolding round_pos_eq [of ?r] 2 unfolding eq by simp
    then show ?thesis unfolding eq using ulp_split [of "e + 1"] by simp
  qed
qed

theorem f64_round_idem [simp]: "f64_round (f64_round x) = f64_round x"
proof -
  consider "x < 0" | "x = 0" | "0 < x" by linarith
  then show ?thesis
  proof cases
    case 1
    then have "0 < round_pos (- x)" by (intro round_pos_pos) simp
    with 1 show ?thesis by (simp add: f64_round_def round_pos_idem)
  next
    case 3
    then have "0 < round_pos x" by (rule round_pos_pos)
    with 3 show ?thesis by (simp add: f64_round_def round_pos_idem)
  qed simp
qed

text \<open>The relative error of a rounding up is at most \<open>2 powi (- 53)\<close>.\<close>

definition f64_eps :: rat where
  "f64_eps = 1 / 2 ^ 53"

lemma f64_eps_pos [simp]: "0 < f64_eps" "0 \<le> f64_eps"
  by (simp_all add: f64_eps_def)

lemma round_half_even_le: "of_int (round_half_even y) \<le> y + 1 / 2"
proof -
  have "of_int \<lfloor>y\<rfloor> \<le> y" by (rule of_int_floor_le)
  then have "of_int \<lfloor>y\<rfloor> \<le> y + 1 / 2" by linarith
  then show ?thesis by (auto simp: round_half_even_def Let_def)
qed

lemma f64_round_le:
  assumes "0 \<le> x"
  shows "f64_round x \<le> x * (1 + f64_eps)"
proof (cases "x = 0")
  case False
  with assms have x: "0 < x" by simp
  let ?u = "(2::rat) powi (f64_exponent x - 52)"
  have u: "0 < ?u" by (rule powi_pos)
  have "round_pos x \<le> (x / ?u + 1 / 2) * ?u"
    unfolding round_pos_eq using round_half_even_le u by (intro mult_right_mono) simp_all
  also have "\<dots> = x + ?u / 2" using u by (simp add: distrib_right)
  also have "?u / 2 \<le> x * f64_eps"
  proof -
    have "2 ^ 52 * ?u \<le> x" using f64_exponent_bounds(1) [OF x] ulp_split [of "f64_exponent x"] by simp
    then show ?thesis by (simp add: f64_eps_def)
  qed
  finally show ?thesis using x by (simp add: f64_round_def distrib_left)
qed simp

lemma round_half_even_ge: "y - 1 / 2 \<le> of_int (round_half_even y)"
proof -
  have "y < of_int \<lfloor>y\<rfloor> + 1" by linarith
  then show ?thesis by (auto simp: round_half_even_def Let_def)
qed

lemma f64_round_ge:
  assumes "0 \<le> x"
  shows "x * (1 - f64_eps) \<le> f64_round x"
proof (cases "x = 0")
  case False
  with assms have x: "0 < x" by simp
  let ?u = "(2::rat) powi (f64_exponent x - 52)"
  have u: "0 < ?u" by (rule powi_pos)
  have "?u / 2 \<le> x * f64_eps"
  proof -
    have "2 ^ 52 * ?u \<le> x" using f64_exponent_bounds(1) [OF x] ulp_split [of "f64_exponent x"] by simp
    then show ?thesis by (simp add: f64_eps_def)
  qed
  then have "x * (1 - f64_eps) \<le> x - ?u / 2" by (simp add: right_diff_distrib)
  also have "\<dots> = (x / ?u - 1 / 2) * ?u" using u by (simp add: left_diff_distrib)
  also have "\<dots> \<le> round_pos x"
    unfolding round_pos_eq using round_half_even_ge u by (intro mult_right_mono) simp_all
  finally show ?thesis using x by (simp add: f64_round_def)
qed simp

lemma as_secs_f64_le: "as_secs_f64 d \<le> of_nat d / 1000000000 * (1 + f64_eps) ^ 2"
proof -
  let ?s = "of_nat (d div 1000000000) :: rat" and ?n = "of_nat (d mod 1000000000) / 1000000000 :: rat"
  have nn: "0 \<le> ?s" "0 \<le> ?n" by simp_all
  have "of_nat d = (of_nat (d div 1000000000 * 1000000000 + d mod 1000000000) :: rat)" by simp
  then have d: "of_nat d / 1000000000 = ?s + ?n" by (simp only: of_nat_add of_nat_mult) simp
  have "as_secs_f64 d \<le> (f64_round ?s + f64_round ?n) * (1 + f64_eps)"
    unfolding as_secs_f64_def f64_add_def by (intro f64_round_le add_nonneg_nonneg f64_round_nonneg nn)
  also have "\<dots> \<le> (?s * (1 + f64_eps) + ?n * (1 + f64_eps)) * (1 + f64_eps)"
    by (intro mult_right_mono add_mono f64_round_le nn) (simp add: add_nonneg_nonneg)
  also have "\<dots> = of_nat d / 1000000000 * (1 + f64_eps) ^ 2"
    by (simp add: d power2_eq_square algebra_simps)
  finally show ?thesis .
qed

end
