(* ===== verification/Config.thy ===== *)
theory Config
  imports F64
begin

text \<open>
  The crate \<open>gateway-config\<close>: the schema (\<open>schema.rs\<close>) as records and datatypes with the source's
  fields and variants, the serde helpers for durations and the default functions, and the semantic
  validation (\<open>validation.rs\<close>) with its error messages. \<open>config_ok\<close> states what a valid configuration
  is; \<open>validate_iff\<close> shows that \<open>validate\<close> accepts exactly these.

  The regex crate is a parameter: \<open>re_new\<close> is \<open>Regex::new\<close>, with the error as it prints.
\<close>

section \<open>Schema\<close>

record tls_config =
  tls_cert_path :: string
  tls_key_path :: string
  tls_client_ca_path :: "string option"

record listener_config =
  ls_bind :: string
  ls_tls :: "tls_config option"
  ls_max_body_bytes :: usize
  ls_keepalive :: duration
  ls_max_concurrent_requests :: usize
  ls_concurrency_acquire_timeout_ms :: u64

record endpoint_config =
  ec_address :: string
  ec_weight :: u32
  ec_active :: bool

datatype load_balancing_config =
    WeightedRoundRobin
  | LeastConnections f64
  | ConsistentHashing string usize

record health_check_config =
  hc_path :: string
  hc_interval :: duration
  hc_timeout :: duration
  hc_healthy_threshold :: u32
  hc_unhealthy_threshold :: u32

record timeout_config =
  to_connect :: duration
  to_request :: duration
  to_idle :: duration

record retry_config =
  rc_max_attempts :: u32
  rc_base_backoff :: duration
  rc_on_statuses :: "u16 list"

record upstream_config =
  uc_endpoints :: "endpoint_config list"
  uc_load_balancing :: load_balancing_config
  uc_health_check :: "health_check_config option"
  uc_timeouts :: timeout_config
  uc_retry :: "retry_config option"

datatype path_match =
    Prefix string
  | Exact string
  | Regex string

record route_match =
  rm_path :: path_match
  rm_method :: "string option"
  rm_headers :: "string hash_map"

record auth_middleware_config =
  am_jwt :: bool
  am_api_key :: bool
  am_mtls :: bool

record rate_limit_middleware_ref =
  rl_policy :: string

record cache_middleware_config =
  cm_ttl :: duration
  cm_read_only :: bool

record middleware_config =
  mw_auth :: "auth_middleware_config option"
  mw_rate_limit :: "rate_limit_middleware_ref option"
  mw_cache :: "cache_middleware_config option"

record header_mutations =
  hdm_request_set :: "string hash_map"
  hdm_request_remove :: "string list"
  hdm_response_set :: "string hash_map"

record route_config =
  rt_id :: string
  rt_match :: route_match
  rt_upstream :: string
  rt_load_balancing :: "load_balancing_config option"
  rt_middleware :: middleware_config
  rt_headers :: header_mutations
  rt_max_concurrent_requests :: "usize option"

record token_bucket_config =
  tb_capacity :: u64
  tb_refill_rate :: u64

datatype distributed_rate_limit_config =
    TokenBucket u64 u64
  | SlidingWindow u64 duration

record rate_limit_policy =
  rp_local :: token_bucket_config
  rp_distributed :: distributed_rate_limit_config

record rate_limit_config =
  rlc_redis_url :: string
  rlc_policies :: "rate_limit_policy hash_map"

record cache_config =
  cc_redis_url :: string
  cc_l1_capacity :: usize

record jwt_config =
  jc_jwks_url :: string
  jc_audience :: "string list"
  jc_issuers :: "string list"
  jc_jwks_cache_ttl :: duration

record api_key_config =
  ak_redis_key_prefix :: string
  ak_redis_url :: string

record mtls_config =
  mt_client_ca_path :: string
  mt_required :: bool

record auth_config =
  au_jwt :: jwt_config
  au_api_keys :: api_key_config
  au_mtls :: mtls_config

record observability_config =
  ob_metrics_bind :: string

record control_plane_config =
  cp_grpc_address :: string
  cp_reconnect_interval :: duration

record gateway_config =
  gc_listener :: listener_config
  gc_upstreams :: "upstream_config hash_map"
  gc_routes :: "route_config list"
  gc_rate_limiting :: rate_limit_config
  gc_cache :: cache_config
  gc_auth :: auth_config
  gc_observability :: observability_config
  gc_control_plane :: control_plane_config

text \<open>The derived \<open>Default\<close> instances the routes use.\<close>

definition middleware_config_default :: middleware_config where
  "middleware_config_default = \<lparr>mw_auth = None, mw_rate_limit = None, mw_cache = None\<rparr>"

definition header_mutations_default :: header_mutations where
  "header_mutations_default = \<lparr>hdm_request_set = [], hdm_request_remove = [], hdm_response_set = []\<rparr>"

section \<open>Serde helpers and defaults\<close>

text \<open>\<open>duration_secs\<close> writes whole seconds; \<open>duration_millis\<close> writes milliseconds (a \<open>u128\<close>) and reads a
  \<open>u64\<close>.\<close>

definition duration_secs_serialize :: "duration \<Rightarrow> u64" where
  "duration_secs_serialize d = as_secs d"

definition duration_secs_deserialize :: "u64 \<Rightarrow> duration" where
  "duration_secs_deserialize s = from_secs s"

definition duration_millis_serialize :: "duration \<Rightarrow> nat" where
  "duration_millis_serialize d = as_millis d"

definition duration_millis_deserialize :: "nat \<Rightarrow> duration option" where
  "duration_millis_deserialize n = (if n < 2 ^ 64 then Some (from_millis (word_of_nat n)) else None)"

definition default_max_body_bytes :: usize where "default_max_body_bytes = 4 * 1024 * 1024"
definition default_keepalive_secs :: duration where "default_keepalive_secs = from_secs 75"
definition default_max_concurrent_requests :: usize where "default_max_concurrent_requests = 10000"
definition default_concurrency_acquire_timeout_ms :: u64 where
  "default_concurrency_acquire_timeout_ms = 500"
definition default_weight :: u32 where "default_weight = 1"
definition default_true :: bool where "default_true = True"
definition default_ewma_alpha :: f64 where "default_ewma_alpha = f64_round (3 / 10)"
definition default_vnodes :: usize where "default_vnodes = 150"
definition default_health_interval :: duration where "default_health_interval = from_secs 10"
definition default_health_timeout :: duration where "default_health_timeout = from_secs 2"
definition default_healthy_threshold :: u32 where "default_healthy_threshold = 2"
definition default_unhealthy_threshold :: u32 where "default_unhealthy_threshold = 3"
definition default_connect_timeout :: duration where "default_connect_timeout = from_secs 2"
definition default_request_timeout :: duration where "default_request_timeout = from_secs 30"
definition default_idle_timeout :: duration where "default_idle_timeout = from_secs 90"
definition default_retry_backoff :: duration where "default_retry_backoff = from_millis 50"
definition default_retry_statuses :: "u16 list" where "default_retry_statuses = [502, 503, 504]"
definition default_l1_cache_capacity :: usize where "default_l1_cache_capacity = 10000"
definition default_jwks_cache_ttl :: duration where "default_jwks_cache_ttl = from_secs 300"
definition default_cp_reconnect :: duration where "default_cp_reconnect = from_secs 5"

section \<open>Validation\<close>

datatype config_error = Io string | Parse string | Validation string

text \<open>The em dash of the messages, in UTF-8.\<close>

definition em_dash :: string where
  "em_dash = [CHR 0xE2, CHR 0x80, CHR 0x94]"

definition quoted :: "string \<Rightarrow> string" where
  "quoted s = [CHR 0x60] @ s @ [CHR 0x60]"

definition check_endpoint :: "string \<Rightarrow> endpoint_config \<Rightarrow> config_error + unit" where
  "check_endpoint name ep =
     (if ec_weight ep = 0
      then Inl (Validation (''upstream '' @ quoted name @ '' endpoint '' @ quoted (ec_address ep)
             @ '' has weight 0 '' @ em_dash @ '' use '' @ quoted ''active: false'' @ '' to disable''))
      else Inr ())"

definition check_upstream :: "string \<times> upstream_config \<Rightarrow> config_error + unit" where
  "check_upstream = (\<lambda>(name, upstream).
     if uc_endpoints upstream = []
     then Inl (Validation (''upstream '' @ quoted name @ '' must have at least one endpoint''))
     else try_bind (try_for (check_endpoint name) (uc_endpoints upstream)) (\<lambda>_.
       case uc_load_balancing upstream of
         ConsistentHashing hash_header _ \<Rightarrow>
           (if str_trim hash_header = []
            then Inl (Validation (''upstream '' @ quoted name
                   @ '': consistent_hashing requires a non-empty '' @ quoted ''hash_header''))
            else Inr ())
       | _ \<Rightarrow> Inr ()))"

definition validate_upstreams :: "gateway_config \<Rightarrow> config_error + unit" where
  "validate_upstreams cfg = try_for check_upstream (gc_upstreams cfg)"

definition check_route :: "(string \<Rightarrow> string + 're) \<Rightarrow> gateway_config \<Rightarrow> route_config \<Rightarrow> config_error + unit" where
  "check_route re_new cfg route =
     (if str_trim (rt_id route) = []
      then Inl (Validation (''every route must have a non-empty '' @ quoted ''id''))
      else if \<not> contains_key (gc_upstreams cfg) (rt_upstream route)
      then Inl (Validation (''route '' @ quoted (rt_id route) @ '' references unknown upstream ''
             @ quoted (rt_upstream route)))
      else case rm_path (rt_match route) of
        Regex pattern \<Rightarrow>
          (case re_new pattern of
             Inl e \<Rightarrow> Inl (Validation (''route '' @ quoted (rt_id route) @ '' has invalid path regex ''
                        @ quoted pattern @ '': '' @ e))
           | Inr _ \<Rightarrow> Inr ())
      | _ \<Rightarrow> Inr ())"

text \<open>The second loop of \<open>validate_routes\<close>, with the \<open>HashSet\<close> of the identifiers seen so far.\<close>

fun check_unique_ids :: "string set \<Rightarrow> route_config list \<Rightarrow> config_error + unit" where
  "check_unique_ids ids [] = Inr ()"
| "check_unique_ids ids (route # rest) =
     (if rt_id route \<in> ids
      then Inl (Validation (''duplicate route id '' @ quoted (rt_id route) @ '' '' @ em_dash
             @ '' each route must have a unique id''))
      else check_unique_ids (insert (rt_id route) ids) rest)"

definition validate_routes :: "(string \<Rightarrow> string + 're) \<Rightarrow> gateway_config \<Rightarrow> config_error + unit" where
  "validate_routes re_new cfg =
     try_bind (try_for (check_route re_new cfg) (gc_routes cfg))
       (\<lambda>_. check_unique_ids {} (gc_routes cfg))"

definition check_rate_limit_ref :: "gateway_config \<Rightarrow> route_config \<Rightarrow> config_error + unit" where
  "check_rate_limit_ref cfg route =
     (case mw_rate_limit (rt_middleware route) of
        None \<Rightarrow> Inr ()
      | Some rl \<Rightarrow>
          (if contains_key (rlc_policies (gc_rate_limiting cfg)) (rl_policy rl) then Inr ()
           else Inl (Validation (''route '' @ quoted (rt_id route)
                  @ '' references unknown rate-limit policy '' @ quoted (rl_policy rl)))))"

definition validate_rate_limit_refs :: "gateway_config \<Rightarrow> config_error + unit" where
  "validate_rate_limit_refs cfg = try_for (check_rate_limit_ref cfg) (gc_routes cfg)"

definition validate :: "(string \<Rightarrow> string + 're) \<Rightarrow> gateway_config \<Rightarrow> config_error + unit" where
  "validate re_new cfg =
     try_bind (validate_upstreams cfg) (\<lambda>_.
     try_bind (validate_routes re_new cfg) (\<lambda>_.
     validate_rate_limit_refs cfg))"

subsection \<open>What a valid configuration is\<close>

definition upstream_ok :: "upstream_config \<Rightarrow> bool" where
  "upstream_ok u \<longleftrightarrow> uc_endpoints u \<noteq> [] \<and> (\<forall>ep \<in> set (uc_endpoints u). ec_weight ep \<noteq> 0) \<and>
     (case uc_load_balancing u of ConsistentHashing h _ \<Rightarrow> str_trim h \<noteq> [] | _ \<Rightarrow> True)"

definition route_ok :: "(string \<Rightarrow> string + 're) \<Rightarrow> gateway_config \<Rightarrow> route_config \<Rightarrow> bool" where
  "route_ok re_new cfg r \<longleftrightarrow> str_trim (rt_id r) \<noteq> [] \<and>
     rt_upstream r \<in> fst ` set (gc_upstreams cfg) \<and>
     (case rm_path (rt_match r) of Regex p \<Rightarrow> \<not> isl (re_new p) | _ \<Rightarrow> True) \<and>
     (case mw_rate_limit (rt_middleware r) of
        None \<Rightarrow> True
      | Some rl \<Rightarrow> rl_policy rl \<in> fst ` set (rlc_policies (gc_rate_limiting cfg)))"

definition config_ok :: "(string \<Rightarrow> string + 're) \<Rightarrow> gateway_config \<Rightarrow> bool" where
  "config_ok re_new cfg \<longleftrightarrow>
     (\<forall>(n, u) \<in> set (gc_upstreams cfg). upstream_ok u) \<and>
     (\<forall>r \<in> set (gc_routes cfg). route_ok re_new cfg r) \<and>
     distinct (map rt_id (gc_routes cfg))"

section \<open>Lemmas\<close>

lemma check_endpoint_Inr: "check_endpoint n ep = Inr () \<longleftrightarrow> ec_weight ep \<noteq> 0"
  by (simp add: check_endpoint_def)

lemma check_upstream_Inr: "check_upstream (n, u) = Inr () \<longleftrightarrow> upstream_ok u"
  by (auto simp: check_upstream_def upstream_ok_def try_bind_Inr try_for_Inr check_endpoint_Inr
      split: load_balancing_config.splits)

lemma contains_key_iff: "contains_key m k \<longleftrightarrow> k \<in> fst ` set m"
  by (simp add: map_of_eq_None_iff)

lemma check_route_ref_Inr:
  "check_route re_new cfg r = Inr () \<and> check_rate_limit_ref cfg r = Inr () \<longleftrightarrow> route_ok re_new cfg r"
  unfolding check_route_def check_rate_limit_ref_def route_ok_def contains_key_iff
  by (auto simp: isl_def split: path_match.splits sum.splits option.splits)

lemma check_unique_ids_Inr:
  "check_unique_ids ids rs = Inr () \<longleftrightarrow> distinct (map rt_id rs) \<and> set (map rt_id rs) \<inter> ids = {}"
  by (induction rs arbitrary: ids) auto

lemmas validate_parts = validate_def validate_upstreams_def validate_routes_def
  validate_rate_limit_refs_def try_bind_Inr try_for_Inr check_unique_ids_Inr

lemma validate_Inr: "validate re_new cfg = Inr () \<longleftrightarrow> config_ok re_new cfg"
proof -
  have "validate re_new cfg = Inr () \<longleftrightarrow>
      (\<forall>x \<in> set (gc_upstreams cfg). check_upstream x = Inr ()) \<and>
      (\<forall>r \<in> set (gc_routes cfg). check_route re_new cfg r = Inr () \<and> check_rate_limit_ref cfg r = Inr ()) \<and>
      distinct (map rt_id (gc_routes cfg))"
    by (auto simp: validate_parts)
  moreover have "(\<forall>x \<in> set (gc_upstreams cfg). check_upstream x = Inr ()) \<longleftrightarrow>
      (\<forall>(n, u) \<in> set (gc_upstreams cfg). upstream_ok u)"
    using check_upstream_Inr by fast
  ultimately show ?thesis by (simp add: config_ok_def check_route_ref_Inr)
qed

lemma config_ok_route: "config_ok re_new cfg \<Longrightarrow> r \<in> set (gc_routes cfg) \<Longrightarrow> route_ok re_new cfg r"
  by (simp add: config_ok_def)

lemma config_ok_upstream:
  "config_ok re_new cfg \<Longrightarrow> map_of (gc_upstreams cfg) n = Some u \<Longrightarrow> upstream_ok u"
  by (auto simp: config_ok_def dest: map_of_SomeD)

lemma route_ok_upstream:
  "route_ok re_new cfg r \<Longrightarrow> \<exists>u. map_of (gc_upstreams cfg) (rt_upstream r) = Some u"
  by (metis contains_key_iff not_None_eq route_ok_def)

end
