(* ===== verification/Examples.thy ===== *)
theory Examples
  imports Config
begin

text \<open>
  Small concrete configurations for the closed examples: the configuration the crate's own tests
  build (one upstream \<open>backend\<close> with one endpoint), with a given list of routes.
\<close>

definition sample_upstream :: upstream_config where
  "sample_upstream =
     \<lparr>uc_endpoints = [\<lparr>ec_address = ''127.0.0.1:9000'', ec_weight = 1, ec_active = True\<rparr>],
      uc_load_balancing = WeightedRoundRobin,
      uc_health_check = None,
      uc_timeouts = \<lparr>to_connect = from_secs 2, to_request = from_secs 30, to_idle = from_secs 90\<rparr>,
      uc_retry = None\<rparr>"

definition sample_route :: "string \<Rightarrow> path_match \<Rightarrow> string option \<Rightarrow> route_config" where
  "sample_route i path m =
     \<lparr>rt_id = i, rt_match = \<lparr>rm_path = path, rm_method = m, rm_headers = []\<rparr>,
      rt_upstream = ''backend'', rt_load_balancing = None,
      rt_middleware = middleware_config_default, rt_headers = header_mutations_default,
      rt_max_concurrent_requests = None\<rparr>"

definition sample_config :: "route_config list \<Rightarrow> gateway_config" where
  "sample_config routes =
     \<lparr>gc_listener = \<lparr>ls_bind = ''0.0.0.0:8080'', ls_tls = None,
        ls_max_body_bytes = default_max_body_bytes, ls_keepalive = default_keepalive_secs,
        ls_max_concurrent_requests = default_max_concurrent_requests,
        ls_concurrency_acquire_timeout_ms = default_concurrency_acquire_timeout_ms\<rparr>,
      gc_upstreams = [(''backend'', sample_upstream)],
      gc_routes = routes,
      gc_rate_limiting = \<lparr>rlc_redis_url = ''redis://localhost'', rlc_policies = []\<rparr>,
      gc_cache = \<lparr>cc_redis_url = ''redis://localhost'', cc_l1_capacity = default_l1_cache_capacity\<rparr>,
      gc_auth = \<lparr>au_jwt = \<lparr>jc_jwks_url = ''https://example.com/jwks.json'', jc_audience = [''stateform''],
          jc_issuers = [''https://example.com''], jc_jwks_cache_ttl = default_jwks_cache_ttl\<rparr>,
        au_api_keys = \<lparr>ak_redis_key_prefix = ''stateform:apikey:'', ak_redis_url = ''redis://localhost''\<rparr>,
        au_mtls = \<lparr>mt_client_ca_path = ''/certs/ca.pem'', mt_required = True\<rparr>\<rparr>,
      gc_observability = \<lparr>ob_metrics_bind = ''0.0.0.0:9090''\<rparr>,
      gc_control_plane = \<lparr>cp_grpc_address = ''http://localhost:50051'', cp_reconnect_interval = default_cp_reconnect\<rparr>\<rparr>"

lemma sample_config_sel [simp]:
  "gc_routes (sample_config rs) = rs"
  "gc_upstreams (sample_config rs) = [(''backend'', sample_upstream)]"
  "rlc_policies (gc_rate_limiting (sample_config rs)) = []"
  by (simp_all add: sample_config_def)

lemma sample_route_sel [simp]:
  "rt_id (sample_route i p m) = i"
  "rm_path (rt_match (sample_route i p m)) = p"
  "rm_method (rt_match (sample_route i p m)) = m"
  "rm_headers (rt_match (sample_route i p m)) = []"
  "rt_upstream (sample_route i p m) = ''backend''"
  "rt_middleware (sample_route i p m) = middleware_config_default"
  "rt_headers (sample_route i p m) = header_mutations_default"
  "rt_load_balancing (sample_route i p m) = None"
  "rt_max_concurrent_requests (sample_route i p m) = None"
  by (simp_all add: sample_route_def)

definition sample_root :: route_config where
  "sample_root = sample_route ''root'' (Prefix ''/'') None"

lemma sample_root_config_valid: "validate compile (sample_config [sample_root]) = Inr ()"
proof -
  have "str_trim ''root'' \<noteq> []" by code_simp
  then show ?thesis
    by (simp add: validate_Inr config_ok_def route_ok_def upstream_ok_def sample_root_def
        sample_upstream_def middleware_config_default_def)
qed

end
