(* ===== verification/Config_Props.thy ===== *)
theory Config_Props
  imports Examples
begin

text \<open>
  The verdict of validation. \<open>config_fault\<close> lists the faults a configuration can have, each with the message that names
  the culprit; validation accepts exactly the configurations without a fault and rejects the others with the message of
  a fault they have.
\<close>

inductive config_fault :: "(string \<Rightarrow> string + 're) \<Rightarrow> gateway_config \<Rightarrow> string \<Rightarrow> bool"
  for compile :: "string \<Rightarrow> string + 're" and cfg :: gateway_config where
  no_endpoint: "(n, u) \<in> set (gc_upstreams cfg) \<Longrightarrow> uc_endpoints u = [] \<Longrightarrow>
     config_fault compile cfg (''upstream '' @ quoted n @ '' must have at least one endpoint'')"
| zero_weight: "(n, u) \<in> set (gc_upstreams cfg) \<Longrightarrow> ep \<in> set (uc_endpoints u) \<Longrightarrow> ec_weight ep = 0 \<Longrightarrow>
     config_fault compile cfg (''upstream '' @ quoted n @ '' endpoint '' @ quoted (ec_address ep) @ '' has weight 0 '' @ em_dash @
       '' use '' @ quoted ''active: false'' @ '' to disable'')"
| no_hash_header: "(n, u) \<in> set (gc_upstreams cfg) \<Longrightarrow> uc_load_balancing u = ConsistentHashing h v \<Longrightarrow> str_trim h = [] \<Longrightarrow>
     config_fault compile cfg (''upstream '' @ quoted n @ '': consistent_hashing requires a non-empty '' @ quoted ''hash_header'')"
| no_route_id: "r \<in> set (gc_routes cfg) \<Longrightarrow> str_trim (rt_id r) = [] \<Longrightarrow>
     config_fault compile cfg (''every route must have a non-empty '' @ quoted ''id'')"
| unknown_upstream: "r \<in> set (gc_routes cfg) \<Longrightarrow> map_of (gc_upstreams cfg) (rt_upstream r) = None \<Longrightarrow>
     config_fault compile cfg (''route '' @ quoted (rt_id r) @ '' references unknown upstream '' @ quoted (rt_upstream r))"
| invalid_regex: "r \<in> set (gc_routes cfg) \<Longrightarrow> rm_path (rt_match r) = Regex p \<Longrightarrow> compile p = Inl e \<Longrightarrow>
     config_fault compile cfg (''route '' @ quoted (rt_id r) @ '' has invalid path regex '' @ quoted p @ '': '' @ e)"
| duplicate_id: "gc_routes cfg = rs @ r # ss \<Longrightarrow> rt_id r \<in> set (map rt_id rs) \<Longrightarrow>
     config_fault compile cfg (''duplicate route id '' @ quoted (rt_id r) @ '' '' @ em_dash @ '' each route must have a unique id'')"
| unknown_policy: "r \<in> set (gc_routes cfg) \<Longrightarrow> mw_rate_limit (rt_middleware r) = Some rl \<Longrightarrow>
     map_of (rlc_policies (gc_rate_limiting cfg)) (rl_policy rl) = None \<Longrightarrow>
     config_fault compile cfg (''route '' @ quoted (rt_id r) @ '' references unknown rate-limit policy '' @ quoted (rl_policy rl))"

section \<open>A rejection has a fault\<close>

lemmas fault_intros = config_fault.intros [simplified]

lemma check_upstream_fault:
  assumes "check_upstream (n, u) = Inl e" and "(n, u) \<in> set (gc_upstreams cfg)"
  shows "\<exists>msg. e = Validation msg \<and> config_fault compile cfg msg"
proof (cases "try_for (check_endpoint n) (uc_endpoints u)")
  case (Inl e')
  from try_for_Inl [OF this] obtain ep where ep: "ep \<in> set (uc_endpoints u)" "check_endpoint n ep = Inl e'" by blast
  then have "e' = e" using Inl assms(1) by (auto simp: check_upstream_def split: if_splits)
  with ep zero_weight [OF assms(2) ep(1)] show ?thesis by (auto simp: check_endpoint_def split: if_splits)
next
  case (Inr x)
  with assms show ?thesis
    by (auto simp: check_upstream_def split: if_splits load_balancing_config.splits intro: fault_intros)
qed

lemma check_route_fault:
  assumes "check_route compile cfg r = Inl e" and "r \<in> set (gc_routes cfg)"
  shows "\<exists>msg. e = Validation msg \<and> config_fault compile cfg msg"
  using assms
  by (auto simp: check_route_def split: if_splits path_match.splits sum.splits
      intro: fault_intros)

lemma check_unique_ids_fault:
  assumes "check_unique_ids (rt_id ` set rs) ss = Inl e" and "gc_routes cfg = rs @ ss"
  shows "\<exists>msg. e = Validation msg \<and> config_fault compile cfg msg"
  using assms
proof (induction ss arbitrary: rs)
  case (Cons r ss)
  show ?case
  proof (cases "rt_id r \<in> rt_id ` set rs")
    case True
    with Cons.prems duplicate_id [of cfg rs r ss] show ?thesis by auto
  next
    case False
    with Cons.prems Cons.IH [of "rs @ [r]"] show ?thesis by simp
  qed
qed simp

lemma check_rate_limit_ref_fault:
  assumes "check_rate_limit_ref cfg r = Inl e" and "r \<in> set (gc_routes cfg)"
  shows "\<exists>msg. e = Validation msg \<and> config_fault compile cfg msg"
  using assms by (auto simp: check_rate_limit_ref_def split: if_splits option.splits intro: fault_intros)

lemma validate_fault:
  assumes "validate compile cfg = Inl e"
  shows "\<exists>msg. e = Validation msg \<and> config_fault compile cfg msg"
proof -
  consider "validate_upstreams cfg = Inl e" | "try_for (check_route compile cfg) (gc_routes cfg) = Inl e"
    | "check_unique_ids {} (gc_routes cfg) = Inl e" | "validate_rate_limit_refs cfg = Inl e"
    using assms by (auto simp: validate_def validate_routes_def try_bind_Inl)
  then show ?thesis
  proof cases
    case 1
    then show ?thesis using try_for_Inl check_upstream_fault unfolding validate_upstreams_def by (metis surj_pair)
  next
    case 2
    then show ?thesis using try_for_Inl check_route_fault by metis
  next
    case 3
    with check_unique_ids_fault [of "[]" "gc_routes cfg" e cfg compile] show ?thesis by simp
  next
    case 4
    then show ?thesis using try_for_Inl check_rate_limit_ref_fault unfolding validate_rate_limit_refs_def by metis
  qed
qed

lemma fault_not_ok:
  assumes "config_fault compile cfg msg"
  shows "\<not> config_ok compile cfg"
  using assms
proof cases
  case (no_endpoint n u)
  then show ?thesis by (force simp: config_ok_def upstream_ok_def)
next
  case (zero_weight n u ep)
  then show ?thesis by (force simp: config_ok_def upstream_ok_def)
next
  case (no_hash_header n u h v)
  then show ?thesis by (force simp: config_ok_def upstream_ok_def)
next
  case (no_route_id r)
  then show ?thesis by (auto simp: config_ok_def route_ok_def)
next
  case (unknown_upstream r)
  then show ?thesis by (auto simp: config_ok_def route_ok_def map_of_eq_None_iff)
next
  case (invalid_regex r p e)
  then show ?thesis by (force simp: config_ok_def route_ok_def)
next
  case (duplicate_id rs r ss)
  then show ?thesis by (auto simp: config_ok_def)
next
  case (unknown_policy r rl)
  then show ?thesis by (force simp: config_ok_def route_ok_def map_of_eq_None_iff)
qed

section \<open>Properties\<close>

text \<open>C19: The verdict of validation is right and says why. A configuration is accepted exactly when it has none of the eight
  faults (an upstream without endpoints, an endpoint of weight zero, consistent hashing without a header, a route without an
  identifier, with an unknown upstream, an invalid regex or an unknown rate-limit policy, an identifier used twice); a
  rejected one has the very fault its message describes, with the name of the culprit.\<close>

theorem validate_verdict:
  "case validate compile cfg of
     Inr _ \<Rightarrow> \<forall>msg. \<not> config_fault compile cfg msg
   | Inl e \<Rightarrow> \<exists>msg. e = Validation msg \<and> config_fault compile cfg msg"
proof (cases "validate compile cfg")
  case (Inl e)
  with validate_fault show ?thesis by auto
next
  case (Inr x)
  then have "config_ok compile cfg" using validate_Inr [of compile cfg] by simp
  with Inr fault_not_ok show ?thesis by auto
qed

end
