(* ===== verification/Libs.thy ===== *)
theory Libs
  imports Prelude
begin

text \<open>
  The third-party crates the gateway calls and whose code is not part of the repository, as records
  of operations that the component definitions take as an argument: \<open>http\<close> (header maps, header
  values, URIs), \<open>regex\<close> and the connecting of \<open>redis\<close>. What a theorem relies on is stated as a predicate over these operations
  (\<open>header_laws\<close>), each conjunct a sentence of the crate's documentation.
  The last section gives concrete operations that satisfy the laws, for the closed examples.
\<close>

section \<open>http\<close>

record ('hm, 'hv, 'u) http_lib =
  hm_new :: 'hm
  hm_get :: "'hm \<Rightarrow> string \<Rightarrow> 'hv option"
  hm_contains_key :: "'hm \<Rightarrow> string \<Rightarrow> bool"
  hm_insert :: "'hm \<Rightarrow> string \<Rightarrow> 'hv \<Rightarrow> 'hm"
  hm_append :: "'hm \<Rightarrow> string \<Rightarrow> 'hv \<Rightarrow> 'hm"
  hm_remove :: "'hm \<Rightarrow> string \<Rightarrow> 'hm"
  hm_iter :: "'hm \<Rightarrow> (string \<times> 'hv) list"
  hv_to_str :: "'hv \<Rightarrow> string option"
  hv_from_str :: "string \<Rightarrow> 'hv option"
  hn_from_bytes :: "string \<Rightarrow> string option"
  uri_path :: "'u \<Rightarrow> string"
  uri_query :: "'u \<Rightarrow> string option"
  uri_path_and_query :: "'u \<Rightarrow> string option"
  uri_parse :: "string \<Rightarrow> 'u option"

text \<open>The pattern \<open>headers.get(name).and_then(|v| v.to_str().ok())\<close>.\<close>

definition header_str :: "('hm, 'hv, 'u) http_lib \<Rightarrow> 'hm \<Rightarrow> string \<Rightarrow> string option" where
  "header_str L h name = Option.bind (hm_get L h name) (hv_to_str L)"

definition visible_ascii :: "string \<Rightarrow> bool" where
  "visible_ascii s \<longleftrightarrow> list_all (\<lambda>c. 32 \<le> (of_char c :: nat) \<and> (of_char c :: nat) < 127) s"

text \<open>The headers of a \<open>Response::builder()\<close> chain: each \<open>header\<close> call appends, and a value that does not
  parse makes the final \<open>unwrap\<close> panic.\<close>

fun builder_headers :: "('hm, 'hv, 'u) http_lib \<Rightarrow> 'hm \<Rightarrow> (string \<times> string) list \<Rightarrow> 'hm rust" where
  "builder_headers L h [] = Ret h"
| "builder_headers L h ((name, value) # rest) =
     (case hv_from_str L value of
        None \<Rightarrow> Panic
      | Some v \<Rightarrow> builder_headers L (hm_append L h name v) rest)"

text \<open>The loops that insert configured or computed headers: pairs that do not parse are skipped.\<close>

definition insert_parsed :: "('hm, 'hv, 'u) http_lib \<Rightarrow> 'hm \<Rightarrow> string \<times> string \<Rightarrow> 'hm" where
  "insert_parsed L h kv =
     (case (hn_from_bytes L (fst kv), hv_from_str L (snd kv)) of
        (Some name, Some val) \<Rightarrow> hm_insert L h name val
      | _ \<Rightarrow> h)"

text \<open>
  \<open>HeaderMap\<close>: names compare case-insensitively; \<open>get\<close> returns the first value of a name;
  \<open>insert\<close> replaces all values of a name; \<open>append\<close> adds a value after the existing ones;
  \<open>remove\<close> removes all values; the iterator yields the values of a name in order. A parsed
  name is the same name, a parsed value reads back, and every string of visible ASCII characters is a value.
\<close>

definition header_laws :: "('hm, 'hv, 'u) http_lib \<Rightarrow> bool" where
  "header_laws L \<longleftrightarrow>
     (\<forall>n. hm_get L (hm_new L) n = None) \<and>
     (\<forall>h n. hm_contains_key L h n \<longleftrightarrow> hm_get L h n \<noteq> None) \<and>
     (\<forall>h n v m. hm_get L (hm_insert L h n v) m = (if eq_ignore_ascii_case n m then Some v else hm_get L h m)) \<and>
     (\<forall>h n v m. hm_get L (hm_append L h n v) m =
        (if eq_ignore_ascii_case n m \<and> hm_get L h m = None then Some v else hm_get L h m)) \<and>
     (\<forall>h n m. hm_get L (hm_remove L h n) m = (if eq_ignore_ascii_case n m then None else hm_get L h m)) \<and>
     (\<forall>h n. hm_get L h n = map_option snd (List.find (\<lambda>(k, v). eq_ignore_ascii_case k n) (hm_iter L h))) \<and>
     (\<forall>b n. hn_from_bytes L b = Some n \<longrightarrow> eq_ignore_ascii_case b n) \<and>
     (\<forall>s v. hv_from_str L s = Some v \<longrightarrow> hv_to_str L v = Some s) \<and>
     (\<forall>s. visible_ascii s \<longrightarrow> hv_from_str L s \<noteq> None)"

lemma header_laws_rules:
  assumes "header_laws L"
  shows "hm_get L (hm_new L) n = None"
    and "hm_contains_key L h n \<longleftrightarrow> hm_get L h n \<noteq> None"
    and "hm_get L (hm_insert L h n v) m = (if eq_ignore_ascii_case n m then Some v else hm_get L h m)"
    and "hm_get L (hm_append L h n v) m =
        (if eq_ignore_ascii_case n m \<and> hm_get L h m = None then Some v else hm_get L h m)"
    and "hm_get L (hm_remove L h n) m = (if eq_ignore_ascii_case n m then None else hm_get L h m)"
    and "hm_get L h n = map_option snd (List.find (\<lambda>(k, v). eq_ignore_ascii_case k n) (hm_iter L h))"
    and "hn_from_bytes L b = Some k \<Longrightarrow> eq_ignore_ascii_case b k"
    and "hv_from_str L s = Some w \<Longrightarrow> hv_to_str L w = Some s"
    and "visible_ascii s \<Longrightarrow> hv_from_str L s \<noteq> None"
proof -
  note laws = assms [unfolded header_laws_def]
  note c0 = laws [THEN conjunct1, rule_format]
  note c1 = laws [THEN conjunct2, THEN conjunct1, rule_format]
  note c2 = laws [THEN conjunct2, THEN conjunct2, THEN conjunct1, rule_format]
  note c3 = laws [THEN conjunct2, THEN conjunct2, THEN conjunct2, THEN conjunct1, rule_format]
  note c4 = laws [THEN conjunct2, THEN conjunct2, THEN conjunct2, THEN conjunct2, THEN conjunct1, rule_format]
  note c5 = laws [THEN conjunct2, THEN conjunct2, THEN conjunct2, THEN conjunct2, THEN conjunct2, THEN conjunct1, rule_format]
  note c6 = laws [THEN conjunct2, THEN conjunct2, THEN conjunct2, THEN conjunct2, THEN conjunct2, THEN conjunct2, THEN conjunct1, rule_format]
  note c7 = laws [THEN conjunct2, THEN conjunct2, THEN conjunct2, THEN conjunct2, THEN conjunct2, THEN conjunct2, THEN conjunct2, THEN conjunct1, rule_format]
  note c8 = laws [THEN conjunct2, THEN conjunct2, THEN conjunct2, THEN conjunct2, THEN conjunct2, THEN conjunct2, THEN conjunct2, THEN conjunct2, rule_format]
  show "hm_get L (hm_new L) n = None" by (rule c0)
  show "hm_contains_key L h n \<longleftrightarrow> hm_get L h n \<noteq> None" by (rule c1)
  show "hm_get L (hm_insert L h n v) m = (if eq_ignore_ascii_case n m then Some v else hm_get L h m)" by (rule c2)
  show "hm_get L (hm_append L h n v) m =
      (if eq_ignore_ascii_case n m \<and> hm_get L h m = None then Some v else hm_get L h m)" by (rule c3)
  show "hm_get L (hm_remove L h n) m = (if eq_ignore_ascii_case n m then None else hm_get L h m)" by (rule c4)
  show "hm_get L h n = map_option snd (List.find (\<lambda>(k, v). eq_ignore_ascii_case k n) (hm_iter L h))" by (rule c5)
  show "hn_from_bytes L b = Some k \<Longrightarrow> eq_ignore_ascii_case b k" by (rule c6)
  show "hv_from_str L s = Some w \<Longrightarrow> hv_to_str L w = Some s" by (rule c7)
  show "visible_ascii s \<Longrightarrow> hv_from_str L s \<noteq> None" by (rule c8)
qed

section \<open>regex\<close>

record ('re, 'cap) regex_lib =
  re_new :: "string \<Rightarrow> string + 're"
  re_is_match :: "'re \<Rightarrow> string \<Rightarrow> bool"
  re_captures :: "'re \<Rightarrow> string \<Rightarrow> 'cap option"
  re_capture_names :: "'re \<Rightarrow> string option list"
  cap_name :: "'cap \<Rightarrow> string \<Rightarrow> string option"

section \<open>redis\<close>

text \<open>The client opens a URL and its connection manager connects; the outcome of connecting may differ between the places
  that connect, which are therefore named.\<close>

datatype conn_site = ApiKeyConn | PolicyConn string | CacheConn

record ('cl, 'm) redis_client =
  rcl_open :: "string \<Rightarrow> string + 'cl"
  rcl_manager :: "conn_site \<Rightarrow> 'cl \<Rightarrow> string + 'm"

definition redis_connect :: "('cl, 'm) redis_client \<Rightarrow> conn_site \<Rightarrow> (string \<Rightarrow> 'e) \<Rightarrow> string \<Rightarrow> 'e + 'm" where
  "redis_connect RC site err url =
     try_bind (map_err err (rcl_open RC url)) (\<lambda>client. map_err err (rcl_manager RC site client))"

definition redis_reachable :: "('cl, 'm) redis_client \<Rightarrow> bool" where
  "redis_reachable RC \<longleftrightarrow> (\<forall>url. \<exists>client. rcl_open RC url = Inr client \<and> (\<forall>site. \<exists>m. rcl_manager RC site client = Inr m))"

lemma redis_connect_reachable: "redis_reachable RC \<Longrightarrow> \<exists>m. redis_connect RC site err url = Inr m"
  unfolding redis_reachable_def redis_connect_def try_bind_Inr map_err_Inr by blast

lemma redis_connect_cases:
  obtains (connected) m where "redis_connect RC site err url = Inr m"
  | (failed) m where "redis_connect RC site err url = Inl (err m)"
  by (cases "rcl_open RC url"; auto simp: redis_connect_def map_err_def)
    (metis sum.exhaust map_sum.simps id_apply)

section \<open>Concrete operations for the closed examples\<close>

text \<open>A header map as the list of its entries under lower-case names, header values as ASCII
  strings, URIs as their path-and-query text; regexes as literal strings that match their own text.\<close>

type_synonym alist_http = "((string \<times> string) list, string, string) http_lib"

definition al_get :: "(string \<times> string) list \<Rightarrow> string \<Rightarrow> string option" where
  "al_get h n = map_option snd (List.find (\<lambda>(k, v). eq_ignore_ascii_case k n) h)"

definition al_remove :: "(string \<times> string) list \<Rightarrow> string \<Rightarrow> (string \<times> string) list" where
  "al_remove h n = filter (\<lambda>(k, v). \<not> eq_ignore_ascii_case k n) h"

definition alist_http :: alist_http where
  "alist_http =
     \<lparr>hm_new = [],
      hm_get = al_get,
      hm_contains_key = (\<lambda>h n. al_get h n \<noteq> None),
      hm_insert = (\<lambda>h n v. al_remove h n @ [(to_ascii_lowercase n, v)]),
      hm_append = (\<lambda>h n v. h @ [(to_ascii_lowercase n, v)]),
      hm_remove = al_remove,
      hm_iter = (\<lambda>h. h),
      hv_to_str = Some,
      hv_from_str = Some,
      hn_from_bytes = (\<lambda>b. Some (to_ascii_lowercase b)),
      uri_path = takeWhile (\<lambda>c. c \<noteq> CHR ''?''),
      uri_query = (\<lambda>u. case dropWhile (\<lambda>c. c \<noteq> CHR ''?'') u of [] \<Rightarrow> None | _ # q \<Rightarrow> Some q),
      uri_path_and_query = Some,
      uri_parse = Some\<rparr>"

lemma al_get_remove: "al_get (al_remove h n) m = (if eq_ignore_ascii_case n m then None else al_get h m)"
  unfolding al_get_def al_remove_def
  by (induction h) (auto simp: eq_ignore_ascii_case_def)

lemma al_get_append: "al_get (h @ [(k, v)]) m =
  (case al_get h m of Some w \<Rightarrow> Some w | None \<Rightarrow> if eq_ignore_ascii_case k m then Some v else None)"
  by (auto simp: al_get_def find_append split: option.splits)

lemma al_get_Nil: "al_get [] m = None"
  by (simp add: al_get_def)

lemma eq_ignore_ascii_case_lower [simp]:
  "eq_ignore_ascii_case (to_ascii_lowercase n) m = eq_ignore_ascii_case n m"
  "eq_ignore_ascii_case n (to_ascii_lowercase m) = eq_ignore_ascii_case n m"
  by (simp_all add: eq_ignore_ascii_case_def)

lemma alist_http_laws: "header_laws alist_http"
  by (auto simp: header_laws_def alist_http_def al_get_Nil al_get_remove al_get_append
      simp flip: al_get_def split: option.splits)

definition literal_regex :: "(string, string) regex_lib" where
  "literal_regex =
     \<lparr>re_new = Inr,
      re_is_match = (\<lambda>r s. str_contains s r),
      re_captures = (\<lambda>r s. if str_contains s r then Some r else None),
      re_capture_names = (\<lambda>r. [None]),
      cap_name = (\<lambda>c n. None)\<rparr>"

end
