(* ===== verification/Trie.thy ===== *)
theory Trie
  imports Prelude "HOL-Library.Multiset"
begin

text \<open>
  The path trie of \<open>gateway-router/src/trie.rs\<close>. A node is its edge label, the routes that end at it
  and its children; a child is found by \<open>position\<close> on insertion and by binary search on lookup, which
  is correct because insertion re-sorts the children. \<open>trie_inv\<close> is that invariant.

  The abstraction is \<open>routes_at\<close>: the routes stored under a list of path segments. The locale
  \<open>route_index\<close> is the contract the router relies on (what is stored where after an insertion, what a
  prefix walk and an exact lookup return); its lemmas describe an index filled from a list of
  declarations, and it is interpreted on the trie at the end.
\<close>

section \<open>Nodes and operations\<close>

datatype 'r trie_node =
  TrieNode (segment: string) (node_routes: "'r list") (children: "'r trie_node list")

definition trie_default :: "'r trie_node" where
  "trie_default = TrieNode [] [] []"

definition trie_new :: "string \<Rightarrow> 'r trie_node" where
  "trie_new seg = TrieNode seg [] []"

definition split_first_segment :: "string \<Rightarrow> string \<times> string" where
  "split_first_segment path0 =
     (let path = trim_start_matches (CHR ''/'') path0
      in case position (\<lambda>c. c = CHR ''/'') path of
           Some idx \<Rightarrow> (take idx path, drop (idx + 1) path)
         | None \<Rightarrow> (path, []))"

lemma split_first_segment_shorter [termination_simp]:
  assumes "path \<noteq> []" and "(h, t) = split_first_segment path"
  shows "length t < length path"
proof -
  let ?p = "trim_start_matches (CHR ''/'') path"
  have len: "length ?p \<le> length path" by (simp add: trim_start_matches_def length_dropWhile_le)
  show ?thesis
  proof (cases "position (\<lambda>c. c = CHR ''/'') ?p")
    case None
    with assms show ?thesis by (simp add: split_first_segment_def Let_def)
  next
    case (Some i)
    from position_Some [OF this] have "i < length ?p" by simp
    with Some assms len show ?thesis by (simp add: split_first_segment_def Let_def)
  qed
qed

function insert_prefix :: "'r trie_node \<Rightarrow> string \<Rightarrow> 'r \<Rightarrow> 'r trie_node" where
  "insert_prefix (TrieNode seg rs cs) path route =
     (if path = [] then TrieNode seg (rs @ [route]) cs
      else (let (head, tail) = split_first_segment path
            in case position (\<lambda>c. segment c = head) cs of
                 Some idx \<Rightarrow> TrieNode seg rs (cs[idx := insert_prefix (cs ! idx) tail route])
               | None \<Rightarrow> TrieNode seg rs
                   (sort_key segment (cs @ [insert_prefix (trie_new head) tail route]))))"
  by pat_completeness auto
termination
  by (relation "measure (\<lambda>(t, path, r). length path)") (auto simp: termination_simp)

function collect_prefix_matches :: "'r trie_node \<Rightarrow> string \<Rightarrow> 'r list \<Rightarrow> 'r list" where
  "collect_prefix_matches (TrieNode seg rs cs) path candidates =
     (if path = [] then candidates @ rs
      else (let (head, tail) = split_first_segment path
            in case binary_search_by segment cs head of
                 Some idx \<Rightarrow> collect_prefix_matches (cs ! idx) tail (candidates @ rs)
               | None \<Rightarrow> candidates @ rs))"
  by pat_completeness auto
termination
  by (relation "measure (\<lambda>(t, path, r). length path)") (auto simp: termination_simp)

function find_exact :: "'r trie_node \<Rightarrow> string \<Rightarrow> 'r option" where
  "find_exact (TrieNode seg rs cs) path =
     (if path = [] then (case rs of [] \<Rightarrow> None | r # _ \<Rightarrow> Some r)
      else (let (head, tail) = split_first_segment path
            in case binary_search_by segment cs head of
                 Some idx \<Rightarrow> find_exact (cs ! idx) tail
               | None \<Rightarrow> None))"
  by pat_completeness auto
termination
  by (relation "measure (\<lambda>(t, path). length path)") (auto simp: termination_simp)

declare insert_prefix.simps [simp del] collect_prefix_matches.simps [simp del]
  find_exact.simps [simp del]

section \<open>Invariant and abstraction\<close>

fun trie_inv :: "'r trie_node \<Rightarrow> bool" where
  "trie_inv (TrieNode seg rs cs) \<longleftrightarrow>
     sorted (map segment cs) \<and> distinct (map segment cs) \<and> (\<forall>c \<in> set cs. trie_inv c)"

text \<open>The segments the trie operations walk along, one per call.\<close>

function segments :: "string \<Rightarrow> string list" where
  "segments path =
     (if path = [] then [] else (let (head, tail) = split_first_segment path in head # segments tail))"
  by pat_completeness auto
termination
  by (relation "measure length") (auto simp: termination_simp)

declare segments.simps [simp del]

fun routes_at :: "'r trie_node \<Rightarrow> string list \<Rightarrow> 'r list" where
  "routes_at t [] = node_routes t"
| "routes_at t (s # ss) =
     (case List.find (\<lambda>c. segment c = s) (children t) of None \<Rightarrow> [] | Some c \<Rightarrow> routes_at c ss)"

lemma segments_Nil [simp]: "segments [] = []"
  by (simp add: segments.simps)

lemma segments_step:
  "path \<noteq> [] \<Longrightarrow> split_first_segment path = (h, t) \<Longrightarrow> segments path = h # segments t"
  by (simp add: segments.simps [of path])

lemma trie_inv_children:
  "trie_inv t \<Longrightarrow> sorted (map segment (children t))"
  "trie_inv t \<Longrightarrow> distinct (map segment (children t))"
  "trie_inv t \<Longrightarrow> c \<in> set (children t) \<Longrightarrow> trie_inv c"
  by (cases t; simp)+

lemma trie_inv_new [simp]: "trie_inv (trie_new h)"
  by (simp add: trie_new_def)

lemma segment_new [simp]: "segment (trie_new h) = h"
  by (simp add: trie_new_def)

lemma routes_at_new [simp]: "routes_at (trie_new h) ss = []"
  by (cases ss) (simp_all add: trie_new_def)

lemma segment_insert_prefix [simp]: "segment (insert_prefix t path r) = segment t"
  by (cases t) (simp add: insert_prefix.simps split: prod.split option.split)

subsection \<open>Finding a child\<close>

lemma find_position:
  "List.find P xs = (case position P xs of None \<Rightarrow> None | Some i \<Rightarrow> Some (xs ! i))"
  by (induction xs) (auto split: option.splits)

lemma find_by_key_perm:
  assumes "distinct (map f xs)" and "set ys = set xs"
  shows "List.find (\<lambda>x. f x = k) ys = List.find (\<lambda>x. f x = k) xs"
proof (cases "List.find (\<lambda>x. f x = k) xs")
  case None
  then show ?thesis using assms(2) by (metis find_None_iff)
next
  case (Some x)
  have inj: "inj_on f (set xs)" using assms(1) by (simp add: distinct_map)
  from Some have x: "x \<in> set xs" "f x = k" by (auto simp: find_Some_iff)
  show ?thesis
  proof (cases "List.find (\<lambda>x. f x = k) ys")
    case None
    with x assms(2) show ?thesis by (auto simp: find_None_iff)
  next
    case (Some y)
    then have "y \<in> set xs" "f y = k" using assms(2) by (auto simp: find_Some_iff)
    with x inj have "y = x" by (auto dest: inj_onD)
    with Some \<open>List.find (\<lambda>x. f x = k) xs = Some x\<close> show ?thesis by simp
  qed
qed

lemma distinct_map_sort_key: "distinct (map f (sort_key g xs)) \<longleftrightarrow> distinct (map f xs)"
  by (metis mset_eq_imp_distinct_iff mset_map mset_sort)

lemma map_list_update_same: "i < length xs \<Longrightarrow> f y = f (xs ! i) \<Longrightarrow> map f (xs[i := y]) = map f xs"
  by (metis list_update_id map_update)

lemma find_list_update:
  assumes "i < length xs" "distinct (map f xs)" "f y = f (xs ! i)"
  shows "List.find (\<lambda>x. f x = k) (xs[i := y]) =
    (if k = f (xs ! i) then Some y else List.find (\<lambda>x. f x = k) xs)"
  using assms
proof (induction xs arbitrary: i)
  case (Cons x xs)
  show ?case
  proof (cases i)
    case 0
    with Cons.prems show ?thesis by auto
  next
    case (Suc j)
    with Cons.prems have "f (xs ! j) \<in> f ` set xs" by auto
    with Cons.prems Suc have "f x \<noteq> f (xs ! j)" by auto
    with Cons.IH [of j] Cons.prems Suc show ?thesis by auto
  qed
qed simp

section \<open>Insertion\<close>

lemma trie_inv_insert_prefix [gw_inv]: "trie_inv t \<Longrightarrow> trie_inv (insert_prefix t path r)"
proof (induction t path r rule: insert_prefix.induct)
  case (1 seg rs cs path r)
  show ?case
  proof (cases "path = []")
    case True
    with "1.prems" show ?thesis by (simp add: insert_prefix.simps)
  next
    case False
    obtain h tl where ht: "split_first_segment path = (h, tl)" by fastforce
    show ?thesis
    proof (cases "position (\<lambda>c. segment c = h) cs")
      case None
      have new: "trie_inv (insert_prefix (trie_new h) tl r)"
        using "1.IH"(1) [OF False ht [symmetric] refl] None by simp
      have "h \<notin> segment ` set cs" using None by (auto simp: position_None)
      then have "distinct (map segment (cs @ [insert_prefix (trie_new h) tl r]))"
        using "1.prems" by simp
      moreover have "insert_prefix (TrieNode seg rs cs) path r =
          TrieNode seg rs (sort_key segment (cs @ [insert_prefix (trie_new h) tl r]))"
        using None False ht by (simp add: insert_prefix.simps [of seg rs cs])
      ultimately show ?thesis using new "1.prems" by (auto simp: distinct_map_sort_key)
    next
      case (Some i)
      from position_Some [OF this] have i: "i < length cs" "segment (cs ! i) = h" by auto
      have "trie_inv (insert_prefix (cs ! i) tl r)"
        using "1.IH"(2) [OF False ht [symmetric] refl Some] "1.prems" i by simp
      then have "\<forall>c \<in> set (cs[i := insert_prefix (cs ! i) tl r]). trie_inv c"
        using "1.prems" set_update_subset_insert [of cs i] by fastforce
      moreover have "map segment (cs[i := insert_prefix (cs ! i) tl r]) = map segment cs"
        using i by (simp add: map_list_update_same)
      ultimately show ?thesis using "1.prems" Some False ht by (simp add: insert_prefix.simps [of seg rs cs])
    qed
  qed
qed

lemma find_inserted_child:
  assumes "distinct (map segment (cs @ [n]))"
  shows "List.find (\<lambda>c. segment c = s) (sort_key segment (cs @ [n])) =
    (if s = segment n then Some n else List.find (\<lambda>c. segment c = s) cs)"
proof -
  have "List.find (\<lambda>c. segment c = s) (sort_key segment (cs @ [n])) = List.find (\<lambda>c. segment c = s) (cs @ [n])"
    by (rule find_by_key_perm [OF assms]) simp
  moreover have "s = segment n \<Longrightarrow> List.find (\<lambda>c. segment c = s) cs = None"
    using assms by (auto simp: find_None_iff) (metis imageI)
  ultimately show ?thesis by (auto simp: find_append split: option.split)
qed

theorem routes_at_insert_prefix:
  "trie_inv t \<Longrightarrow> routes_at (insert_prefix t path r) ss =
     (if ss = segments path then routes_at t ss @ [r] else routes_at t ss)"
proof (induction t path r arbitrary: ss rule: insert_prefix.induct)
  case (1 seg rs cs path r)
  show ?case
  proof (cases "path = [] \<or> ss = []")
    case True
    then show ?thesis
      using segments_step by (cases ss; cases "split_first_segment path")
        (auto simp: insert_prefix.simps split: option.split)
  next
    case False
    then obtain s ss' where ss: "ss = s # ss'" and path: "path \<noteq> []" by (cases ss) auto
    obtain h tl where ht: "split_first_segment path = (h, tl)" by fastforce
    have segs: "segments path = h # segments tl" by (rule segments_step [OF path ht])
    show ?thesis
    proof (cases "position (\<lambda>c. segment c = h) cs")
      case None
      let ?n = "insert_prefix (trie_new h) tl r"
      have IH: "routes_at ?n ss' = (if ss' = segments tl then [r] else [])"
        using "1.IH"(1) [OF path ht [symmetric] refl None, of ss'] by simp
      have h: "h \<notin> segment ` set cs" using None by (auto simp: position_None)
      then have "s = h \<Longrightarrow> List.find (\<lambda>c. segment c = s) cs = None" by (auto simp: find_None_iff)
      with find_inserted_child [of cs ?n s] h "1.prems" None path ht ss segs IH show ?thesis
        by (auto simp: insert_prefix.simps [of seg rs cs])
    next
      case (Some i)
      from position_Some [OF this] have i: "i < length cs" "segment (cs ! i) = h" by auto
      have IH: "routes_at (insert_prefix (cs ! i) tl r) ss' =
          (if ss' = segments tl then routes_at (cs ! i) ss' @ [r] else routes_at (cs ! i) ss')"
        using "1.IH"(2) [OF path ht [symmetric] refl Some, of ss'] "1.prems" i by simp
      have f: "List.find (\<lambda>c. segment c = s) (cs[i := insert_prefix (cs ! i) tl r]) =
          (if s = h then Some (insert_prefix (cs ! i) tl r) else List.find (\<lambda>c. segment c = s) cs)"
        using find_list_update [of i cs segment "insert_prefix (cs ! i) tl r" s] "1.prems" i by simp
      have "List.find (\<lambda>c. segment c = h) cs = Some (cs ! i)" using Some by (simp add: find_position)
      with f IH Some path ht ss segs show ?thesis by (auto simp: insert_prefix.simps [of seg rs cs])
    qed
  qed
qed

section \<open>Lookup\<close>

lemma child_search:
  assumes "trie_inv (TrieNode seg rs cs)"
  shows "binary_search_by segment cs h = position (\<lambda>c. segment c = h) cs"
  using assms by (intro binary_search_by_position) simp_all

lemma collect_prefix_matches_at:
  "trie_inv t \<Longrightarrow> collect_prefix_matches t path acc =
     acc @ concat (map (routes_at t) (prefixes (segments path)))"
proof (induction t path acc rule: collect_prefix_matches.induct)
  case (1 seg rs cs path acc)
  show ?case
  proof (cases "path = []")
    case True
    then show ?thesis by (simp add: collect_prefix_matches.simps)
  next
    case False
    obtain h tl where ht: "split_first_segment path = (h, tl)" by fastforce
    have segs: "segments path = h # segments tl" by (rule segments_step [OF False ht])
    note bs = child_search [OF "1.prems", of h]
    show ?thesis
    proof (cases "position (\<lambda>c. segment c = h) cs")
      case None
      then have "List.find (\<lambda>c. segment c = h) cs = None" by (simp add: find_position)
      with None False ht segs bs show ?thesis
        by (simp add: collect_prefix_matches.simps comp_def)
    next
      case (Some i)
      from position_Some [OF this] have i: "i < length cs" by simp
      have "List.find (\<lambda>c. segment c = h) cs = Some (cs ! i)"
        using Some by (simp add: find_position)
      with "1.IH" [OF False ht [symmetric] refl] bs Some i "1.prems" False ht segs show ?thesis
        by (simp add: collect_prefix_matches.simps comp_def)
    qed
  qed
qed

lemma find_exact_at:
  "trie_inv t \<Longrightarrow> find_exact t path =
     (case routes_at t (segments path) of [] \<Rightarrow> None | r # _ \<Rightarrow> Some r)"
proof (induction t path rule: find_exact.induct)
  case (1 seg rs cs path)
  show ?case
  proof (cases "path = []")
    case True
    then show ?thesis by (simp add: find_exact.simps)
  next
    case False
    obtain h tl where ht: "split_first_segment path = (h, tl)" by fastforce
    have segs: "segments path = h # segments tl" by (rule segments_step [OF False ht])
    note bs = child_search [OF "1.prems", of h]
    show ?thesis
    proof (cases "position (\<lambda>c. segment c = h) cs")
      case None
      then have "List.find (\<lambda>c. segment c = h) cs = None" by (simp add: find_position)
      with None False ht segs bs show ?thesis by (simp add: find_exact.simps)
    next
      case (Some i)
      from position_Some [OF this] have i: "i < length cs" by simp
      have "List.find (\<lambda>c. segment c = h) cs = Some (cs ! i)"
        using Some by (simp add: find_position)
      with "1.IH" [OF False ht [symmetric] refl] bs Some i "1.prems" False ht segs show ?thesis
        by (simp add: find_exact.simps)
    qed
  qed
qed

section \<open>The interface to the router\<close>

locale route_index =
  fixes empty :: "'i"
    and insert :: "'i \<Rightarrow> string \<Rightarrow> 'r \<Rightarrow> 'i"
    and collect :: "'i \<Rightarrow> string \<Rightarrow> 'r list \<Rightarrow> 'r list"
    and exact :: "'i \<Rightarrow> string \<Rightarrow> 'r option"
    and stored :: "'i \<Rightarrow> string list \<Rightarrow> 'r list"
    and key :: "string \<Rightarrow> string list"
    and inv :: "'i \<Rightarrow> bool"
  assumes inv_empty: "inv empty"
    and stored_empty: "stored empty k = []"
    and inv_insert: "inv i \<Longrightarrow> inv (insert i p r)"
    and stored_insert: "inv i \<Longrightarrow>
      stored (insert i p r) k = (if k = key p then stored i k @ [r] else stored i k)"
    and collect_stored: "inv i \<Longrightarrow> collect i p acc = acc @ concat (map (stored i) (prefixes (key p)))"
    and exact_stored: "inv i \<Longrightarrow>
      exact i p = (case stored i (key p) of [] \<Rightarrow> None | r # _ \<Rightarrow> Some r)"
begin

lemma inv_foldl: "inv i \<Longrightarrow> inv (foldl (\<lambda>i (p, r). insert i p r) i prs)"
  by (induction prs arbitrary: i) (auto simp: inv_insert)

lemma stored_foldl:
  "inv i \<Longrightarrow> stored (foldl (\<lambda>i (p, r). insert i p r) i prs) k =
     stored i k @ map snd (filter (\<lambda>(p, r). key p = k) prs)"
proof (induction prs arbitrary: i)
  case (Cons a prs)
  obtain p r where a: "a = (p, r)" by fastforce
  have "inv (insert i p r)" by (rule inv_insert [OF Cons.prems])
  with Cons a show ?case by (auto simp: stored_insert)
qed simp

text \<open>An index built from declarations holds, under each key, the routes declared with that key in
  declaration order; a prefix walk visits the prefixes of the key from the shortest.\<close>

lemma stored_built:
  "stored (foldl (\<lambda>i (p, r). insert i p r) empty prs) k = map snd (filter (\<lambda>(p, r). key p = k) prs)"
  by (simp add: stored_foldl inv_empty stored_empty)

lemma collect_built:
  "collect (foldl (\<lambda>i (p, r). insert i p r) empty prs) p acc =
     acc @ concat (map (\<lambda>k. map snd (filter (\<lambda>(q, r). key q = k) prs)) (prefixes (key p)))"
proof -
  have "stored (foldl (\<lambda>i (p, r). insert i p r) empty prs) =
      (\<lambda>k. map snd (filter (\<lambda>(q, r). key q = k) prs))"
    by (rule ext) (rule stored_built)
  then show ?thesis by (simp only: collect_stored [OF inv_foldl [OF inv_empty]])
qed

lemma exact_built:
  "exact (foldl (\<lambda>i (p, r). insert i p r) empty prs) p =
     map_option snd (List.find (\<lambda>(q, r). key q = key p) prs)"
  by (simp add: exact_stored inv_foldl inv_empty stored_built find_eq_hd_filter split: list.split)

end

interpretation trie_ix: route_index trie_default insert_prefix collect_prefix_matches find_exact
  routes_at segments trie_inv
proof unfold_locales
  show "routes_at trie_default k = []" for k :: "string list"
    by (cases k) (simp_all add: trie_default_def)
qed (simp_all add: trie_default_def trie_inv_insert_prefix routes_at_insert_prefix
    collect_prefix_matches_at find_exact_at)

end
