(* ===== verification/Router.thy ===== *)
theory Router
  imports Config Libs Trie
begin

text \<open>
  The crate \<open>gateway-router\<close> above the trie: the method and header predicates (\<open>predicate.rs\<close>),
  path normalisation, building a router from a configuration and matching a request against it
  (\<open>router.rs\<close>, \<open>matched.rs\<close>), and the hot-swappable handle.

  \<open>reference_match\<close> is the specification of matching over the declared routes alone, without tries:
  the first exact route of the path if its predicates hold, else the longest prefix route whose
  predicates hold, else the first regex route. \<open>match_request_built\<close> shows that the router built from a
  configuration computes it; the other lemmas read soundness, priority and completeness off it.
\<close>

section \<open>Predicates\<close>

definition method_matches :: "string option \<Rightarrow> string \<Rightarrow> bool" where
  "method_matches route_method req_method =
     (case route_method of None \<Rightarrow> True | Some m \<Rightarrow> eq_ignore_ascii_case m req_method)"

definition regex_metacharacters :: string where
  "regex_metacharacters = ''.*+?()[]{}^$|'' @ [CHR 0x5C]"

definition is_plain_string :: "string \<Rightarrow> bool" where
  "is_plain_string s \<longleftrightarrow> \<not> list_ex (\<lambda>c. c \<in> set regex_metacharacters) s"

definition value_matches :: "('re, 'cap) regex_lib \<Rightarrow> string \<Rightarrow> string \<Rightarrow> bool" where
  "value_matches RE value pattern =
     (if is_plain_string pattern then str_contains value pattern
      else (case re_new RE pattern of Inl _ \<Rightarrow> False | Inr re \<Rightarrow> re_is_match RE re value))"

fun headers_match ::
  "('hm, 'hv, 'u) http_lib \<Rightarrow> ('re, 'cap) regex_lib \<Rightarrow> string hash_map \<Rightarrow> 'hm \<Rightarrow> bool" where
  "headers_match L RE [] req_headers = True"
| "headers_match L RE ((name, pattern) # rest) req_headers =
     (case hm_get L req_headers name of
        None \<Rightarrow> False
      | Some value \<Rightarrow>
          (case hv_to_str L value of
             None \<Rightarrow> False
           | Some value_str \<Rightarrow>
               (if \<not> value_matches RE value_str pattern then False
                else headers_match L RE rest req_headers)))"

definition matches_predicates ::
  "('hm, 'hv, 'u) http_lib \<Rightarrow> ('re, 'cap) regex_lib \<Rightarrow> string option \<Rightarrow> string hash_map \<Rightarrow> string \<Rightarrow> 'hm \<Rightarrow> bool" where
  "matches_predicates L RE route_method route_headers req_method req_headers =
     (if \<not> method_matches route_method req_method then False
      else if \<not> headers_match L RE route_headers req_headers then False
      else True)"

section \<open>Path normalisation\<close>

fun normalise_loop :: "bool \<Rightarrow> string \<Rightarrow> string" where
  "normalise_loop last_was_slash [] = []"
| "normalise_loop last_was_slash (ch # rest) =
     (if ch = CHR ''/'' then
        (if \<not> last_was_slash then ch # normalise_loop True rest else normalise_loop True rest)
      else char_lower ch # normalise_loop False rest)"

definition normalise_path :: "string \<Rightarrow> string" where
  "normalise_path path = normalise_loop False (trim_start_matches (CHR ''/'') path)"

section \<open>Router\<close>

datatype router_error =
    NoMatch string
  | InvalidRegex string string
  | RouterConfig string

record matched_route =
  mr_route :: route_config
  mr_path_params :: "(string \<times> string) list"

definition matched_new :: "route_config \<Rightarrow> matched_route" where
  "matched_new route = \<lparr>mr_route = route, mr_path_params = []\<rparr>"

definition matched_with_params :: "route_config \<Rightarrow> (string \<times> string) list \<Rightarrow> matched_route" where
  "matched_with_params route params = \<lparr>mr_route = route, mr_path_params = params\<rparr>"

definition mr_upstream :: "matched_route \<Rightarrow> string" where
  "mr_upstream m = rt_upstream (mr_route m)"

definition mr_route_id :: "matched_route \<Rightarrow> string" where
  "mr_route_id m = rt_id (mr_route m)"

record 're compiled_route =
  cr_route :: route_config
  cr_regex :: "'re option"

record 're router =
  exact_trie :: "route_config trie_node"
  prefix_trie :: "route_config trie_node"
  regex_routes :: "'re compiled_route list"

fun build_loop :: "('re, 'cap) regex_lib \<Rightarrow> 're router \<Rightarrow> route_config list \<Rightarrow> router_error + 're router" where
  "build_loop RE rt [] = Inr rt"
| "build_loop RE rt (route # rest) =
     (case rm_path (rt_match route) of
        Exact value \<Rightarrow>
          build_loop RE (rt\<lparr>exact_trie := insert_prefix (exact_trie rt) (normalise_path value) route\<rparr>) rest
      | Prefix value \<Rightarrow>
          build_loop RE (rt\<lparr>prefix_trie := insert_prefix (prefix_trie rt) (normalise_path value) route\<rparr>) rest
      | Regex pattern \<Rightarrow>
          (case re_new RE pattern of
             Inl e \<Rightarrow> Inl (InvalidRegex pattern e)
           | Inr regex \<Rightarrow>
               build_loop RE (rt\<lparr>regex_routes := regex_routes rt @ [\<lparr>cr_route = route, cr_regex = Some regex\<rparr>]\<rparr>) rest))"

definition router_build :: "('re, 'cap) regex_lib \<Rightarrow> gateway_config \<Rightarrow> router_error + 're router" where
  "router_build RE cfg =
     build_loop RE \<lparr>exact_trie = trie_default, prefix_trie = trie_default, regex_routes = []\<rparr> (gc_routes cfg)"

definition route_predicates ::
  "('hm, 'hv, 'u) http_lib \<Rightarrow> ('re, 'cap) regex_lib \<Rightarrow> string \<Rightarrow> 'hm \<Rightarrow> route_config \<Rightarrow> bool" where
  "route_predicates L RE req_method req_headers route =
     matches_predicates L RE (rm_method (rt_match route)) (rm_headers (rt_match route)) req_method req_headers"

text \<open>The named groups of a match, in the order of \<open>capture_names\<close>.\<close>

definition capture_params :: "('re, 'cap) regex_lib \<Rightarrow> 're \<Rightarrow> 'cap \<Rightarrow> (string \<times> string) list" where
  "capture_params RE re caps =
     List.map_filter (\<lambda>name. map_option (\<lambda>m. (name, m)) (cap_name RE caps name))
       (List.map_filter id (re_capture_names RE re))"

fun regex_stage ::
  "('hm, 'hv, 'u) http_lib \<Rightarrow> ('re, 'cap) regex_lib \<Rightarrow> string \<Rightarrow> string \<Rightarrow> 'hm \<Rightarrow>
   're compiled_route list \<Rightarrow> matched_route option" where
  "regex_stage L RE path req_method req_headers [] = None"
| "regex_stage L RE path req_method req_headers (compiled # rest) =
     (case cr_regex compiled of
        None \<Rightarrow> regex_stage L RE path req_method req_headers rest
      | Some re \<Rightarrow>
          (case re_captures RE re path of
             None \<Rightarrow> regex_stage L RE path req_method req_headers rest
           | Some caps \<Rightarrow>
               (if \<not> route_predicates L RE req_method req_headers (cr_route compiled)
                then regex_stage L RE path req_method req_headers rest
                else Some (matched_with_params (cr_route compiled) (capture_params RE re caps)))))"

definition match_request ::
  "('hm, 'hv, 'u) http_lib \<Rightarrow> ('re, 'cap) regex_lib \<Rightarrow> 're router \<Rightarrow> string \<Rightarrow> string \<Rightarrow> 'hm \<Rightarrow>
   router_error + matched_route" where
  "match_request L RE rt path req_method req_headers =
     (let normalised = normalise_path path;
          stage1 = (case find_exact (exact_trie rt) normalised of
                      None \<Rightarrow> None
                    | Some route \<Rightarrow> (if route_predicates L RE req_method req_headers route then Some route else None))
      in case stage1 of
           Some route \<Rightarrow> Inr (matched_new route)
         | None \<Rightarrow>
             (let prefix_candidates = rev (collect_prefix_matches (prefix_trie rt) normalised [])
              in case List.find (route_predicates L RE req_method req_headers) prefix_candidates of
                   Some route \<Rightarrow> Inr (matched_new route)
                 | None \<Rightarrow>
                     (case regex_stage L RE path req_method req_headers (regex_routes rt) of
                        Some m \<Rightarrow> Inr m
                      | None \<Rightarrow> Inl (NoMatch path))))"

text \<open>\<open>RouterHandle\<close>: the cell holding the active router; a failed rebuild leaves it unchanged.\<close>

record 're router_handle =
  rh_inner :: "'re router"

definition router_handle_new :: "('re, 'cap) regex_lib \<Rightarrow> gateway_config \<Rightarrow> router_error + 're router_handle" where
  "router_handle_new RE cfg = map_sum id (\<lambda>r. \<lparr>rh_inner = r\<rparr>) (router_build RE cfg)"

definition router_current :: "'re router_handle \<Rightarrow> 're router" where
  "router_current h = rh_inner h"

definition router_rebuild ::
  "('re, 'cap) regex_lib \<Rightarrow> 're router_handle \<Rightarrow> gateway_config \<Rightarrow> (router_error + unit) \<times> 're router_handle" where
  "router_rebuild RE h cfg =
     (case router_build RE cfg of
        Inl e \<Rightarrow> (Inl e, h)
      | Inr router \<Rightarrow> (Inr (), h\<lparr>rh_inner := router\<rparr>))"

section \<open>Specification\<close>

text \<open>The key of a path: its normalised segments.\<close>

definition path_key :: "string \<Rightarrow> string list" where
  "path_key path = segments (normalise_path path)"

fun exact_key :: "path_match \<Rightarrow> string list option" where
  "exact_key (Exact v) = Some (path_key v)"
| "exact_key _ = None"

fun prefix_key :: "path_match \<Rightarrow> string list option" where
  "prefix_key (Prefix v) = Some (path_key v)"
| "prefix_key _ = None"

fun regex_captures :: "('re, 'cap) regex_lib \<Rightarrow> path_match \<Rightarrow> string \<Rightarrow> ('re \<times> 'cap) option" where
  "regex_captures RE (Regex p) path =
     (case re_new RE p of Inl _ \<Rightarrow> None | Inr re \<Rightarrow> map_option (Pair re) (re_captures RE re path))"
| "regex_captures RE _ path = None"

abbreviation rpath :: "route_config \<Rightarrow> path_match" where
  "rpath r \<equiv> rm_path (rt_match r)"

definition prefix_order :: "route_config list \<Rightarrow> string list \<Rightarrow> route_config list" where
  "prefix_order routes key =
     rev (concat (map (\<lambda>k. filter (\<lambda>r. prefix_key (rpath r) = Some k) routes) (prefixes key)))"

text \<open>The parameters of a regex match: the groups that have a name and took part in the match, with what they matched.\<close>

definition named_captures :: "('re, 'cap) regex_lib \<Rightarrow> 're \<Rightarrow> 'cap \<Rightarrow> (string \<times> string) list" where
  "named_captures RE re caps =
     [(n, v). Some n \<leftarrow> re_capture_names RE re, Some v \<leftarrow> [cap_name RE caps n]]"

definition reference_match ::
  "('hm, 'hv, 'u) http_lib \<Rightarrow> ('re, 'cap) regex_lib \<Rightarrow> route_config list \<Rightarrow> string \<Rightarrow> string \<Rightarrow> 'hm \<Rightarrow>
   router_error + matched_route" where
  "reference_match L RE routes path req_method req_headers =
     (let ok = route_predicates L RE req_method req_headers; key = path_key path;
          exact = List.find (\<lambda>r. exact_key (rpath r) = Some key) routes
      in if exact \<noteq> None \<and> ok (the exact) then Inr \<lparr>mr_route = the exact, mr_path_params = []\<rparr>
         else case List.find ok (prefix_order routes key) of
           Some r \<Rightarrow> Inr \<lparr>mr_route = r, mr_path_params = []\<rparr>
         | None \<Rightarrow>
             (case List.find (\<lambda>r. regex_captures RE (rpath r) path \<noteq> None \<and> ok r) routes of
                None \<Rightarrow> Inl (NoMatch path)
              | Some r \<Rightarrow>
                  (case the (regex_captures RE (rpath r) path) of
                     (re, caps) \<Rightarrow> Inr \<lparr>mr_route = r, mr_path_params = named_captures RE re caps\<rparr>)))"

section \<open>Predicates as conditions\<close>

lemma headers_match_iff:
  "headers_match L RE hs h \<longleftrightarrow>
     (\<forall>(n, p) \<in> set hs. \<exists>v. header_str L h n = Some v \<and> value_matches RE v p)"
  by (induction L RE hs h rule: headers_match.induct)
    (auto simp: header_str_def split: option.splits if_splits)

lemma matches_predicates_iff:
  "matches_predicates L RE m hs rm rh \<longleftrightarrow> method_matches m rm \<and> headers_match L RE hs rh"
  by (simp add: matches_predicates_def)

section \<open>Normalisation\<close>

fun no_double_slash :: "bool \<Rightarrow> string \<Rightarrow> bool" where
  "no_double_slash b [] = True"
| "no_double_slash b (c # s) = (if c = CHR ''/'' then \<not> b \<and> no_double_slash True s else no_double_slash False s)"

definition nonempty_segments :: "string \<Rightarrow> string list" where
  "nonempty_segments s = filter (\<lambda>p. p \<noteq> []) (str_split (CHR ''/'') s)"

lemma normalise_loop_no_double: "no_double_slash b (normalise_loop b s)"
  by (induction b s rule: normalise_loop.induct) auto

lemma no_double_slash_True:
  "no_double_slash b s \<Longrightarrow> (s = [] \<or> hd s \<noteq> CHR ''/'') \<Longrightarrow> no_double_slash True s"
  by (cases s) auto

lemma hd_normalise_loop:
  "s \<noteq> [] \<Longrightarrow> hd s \<noteq> CHR ''/'' \<Longrightarrow> normalise_loop b s \<noteq> [] \<and> hd (normalise_loop b s) \<noteq> CHR ''/''"
  by (cases s) auto

lemma normalise_path_no_double: "no_double_slash True (normalise_path p)"
proof -
  let ?t = "trim_start_matches (CHR ''/'') p"
  have "?t = [] \<or> hd ?t \<noteq> CHR ''/''"
    using hd_dropWhile [of "\<lambda>c. c = CHR ''/''" p] by (auto simp: trim_start_matches_def)
  then have "normalise_path p = [] \<or> hd (normalise_path p) \<noteq> CHR ''/''"
    using hd_normalise_loop [of ?t False] by (cases "?t = []") (auto simp: normalise_path_def)
  then show ?thesis
    using normalise_loop_no_double [of False ?t] no_double_slash_True
    by (auto simp: normalise_path_def)
qed

text \<open>Splitting off the first segment of a string without a leading slash.\<close>

lemma split_first_segment_head:
  assumes "s = [] \<or> hd s \<noteq> CHR ''/''"
  shows "split_first_segment s = (takeWhile (\<lambda>c. c \<noteq> CHR ''/'') s, tl (dropWhile (\<lambda>c. c \<noteq> CHR ''/'') s))"
proof -
  have "trim_start_matches (CHR ''/'') s = s"
    using assms by (cases s) (auto simp: trim_start_matches_def)
  moreover have "(case position (\<lambda>c. c = CHR ''/'') s of
      Some idx \<Rightarrow> (take idx s, drop (idx + 1) s) | None \<Rightarrow> (s, [])) =
      (takeWhile (\<lambda>c. c \<noteq> CHR ''/'') s, tl (dropWhile (\<lambda>c. c \<noteq> CHR ''/'') s))"
    by (induction s) (auto split: option.splits)
  ultimately show ?thesis by (simp add: split_first_segment_def)
qed

lemma str_split_takeWhile:
  "str_split c s = takeWhile (\<lambda>x. x \<noteq> c) s #
     (case dropWhile (\<lambda>x. x \<noteq> c) s of [] \<Rightarrow> [] | _ # r \<Rightarrow> str_split c r)"
  by (induction s) (auto split: list.splits)

lemma no_double_slash_rest:
  "no_double_slash b s \<Longrightarrow> dropWhile (\<lambda>c. c \<noteq> CHR ''/'') s = x # r \<Longrightarrow> no_double_slash True r"
proof (induction s arbitrary: b)
  case (Cons c s)
  then show ?case by (cases "c = CHR ''/''") auto
qed simp

lemma segments_nonempty:
  "no_double_slash True s \<Longrightarrow> segments s = nonempty_segments s"
proof (induction s rule: length_induct)
  case (1 s)
  show ?case
  proof (cases "s = []")
    case True
    then show ?thesis by (simp add: nonempty_segments_def)
  next
    case False
    with "1.prems" have hd: "hd s \<noteq> CHR ''/''" by (cases s) auto
    let ?h = "takeWhile (\<lambda>c. c \<noteq> CHR ''/'') s" and ?d = "dropWhile (\<lambda>c. c \<noteq> CHR ''/'') s"
    have h: "?h \<noteq> []" using False hd by (cases s) auto
    have "segments s = ?h # segments (tl ?d)"
      by (rule segments_step [OF False split_first_segment_head]) (simp add: hd)
    also have "\<dots> = ?h # (case ?d of [] \<Rightarrow> [] | _ # r \<Rightarrow> nonempty_segments r)"
    proof (cases ?d)
      case Nil
      then show ?thesis by (simp only: Nil list.case list.sel segments_Nil)
    next
      case (Cons x r)
      have "length ?d \<le> length s" by (rule length_dropWhile_le)
      with Cons have "length r < length s" by simp
      with "1.IH" no_double_slash_rest [OF "1.prems" Cons] Cons show ?thesis by simp
    qed
    also have "\<dots> = nonempty_segments s"
      using h by (simp add: nonempty_segments_def str_split_takeWhile [of _ s]
          del: dropWhile_eq_Nil_conv split: list.split)
    finally show ?thesis .
  qed
qed

lemma nonempty_segments_slash [simp]:
  "nonempty_segments (CHR ''/'' # s) = nonempty_segments s"
  by (simp add: nonempty_segments_def)

lemma nonempty_segments_Cons:
  assumes "c \<noteq> CHR ''/''"
  shows "nonempty_segments (c # t) =
    (c # takeWhile (\<lambda>x. x \<noteq> CHR ''/'') t) #
    (case dropWhile (\<lambda>x. x \<noteq> CHR ''/'') t of [] \<Rightarrow> [] | _ # r \<Rightarrow> nonempty_segments r)"
proof -
  have "str_split (CHR ''/'') (c # t) = (c # takeWhile (\<lambda>x. x \<noteq> CHR ''/'') t) #
      (case dropWhile (\<lambda>x. x \<noteq> CHR ''/'') t of [] \<Rightarrow> [] | _ # r \<Rightarrow> str_split (CHR ''/'') r)"
    using assms by (subst str_split_takeWhile) simp
  then show ?thesis
    unfolding nonempty_segments_def by (simp del: dropWhile_eq_Nil_conv str_split.simps split: list.split)
qed

lemma takeWhile_normalise_loop:
  "takeWhile (\<lambda>x. x \<noteq> CHR ''/'') (normalise_loop False t) = takeWhile (\<lambda>x. x \<noteq> CHR ''/'') (to_ascii_lowercase t)"
  by (induction t) auto

lemma dropWhile_normalise_loop:
  "(dropWhile (\<lambda>x. x \<noteq> CHR ''/'') (normalise_loop False t) = [] \<and>
      dropWhile (\<lambda>x. x \<noteq> CHR ''/'') (to_ascii_lowercase t) = []) \<or>
    (\<exists>r. length r < length t \<and>
      dropWhile (\<lambda>x. x \<noteq> CHR ''/'') (normalise_loop False t) = CHR ''/'' # normalise_loop True r \<and>
      dropWhile (\<lambda>x. x \<noteq> CHR ''/'') (to_ascii_lowercase t) = CHR ''/'' # to_ascii_lowercase r)"
proof (induction t)
  case (Cons c t)
  show ?case
  proof (cases "c = CHR ''/''")
    case True
    then show ?thesis by (auto simp: char_lower_def is_ascii_upper_def)
  next
    case False
    with Cons show ?thesis by (auto intro: less_SucI)
  qed
qed simp

lemma nonempty_segments_normalise_loop:
  "nonempty_segments (normalise_loop b s) = nonempty_segments (to_ascii_lowercase s) \<and>
   (\<forall>c. c \<noteq> CHR ''/'' \<longrightarrow> nonempty_segments (c # normalise_loop False s) = nonempty_segments (c # to_ascii_lowercase s))"
proof (induction s arbitrary: b rule: length_induct)
  case (1 s)
  have two: "nonempty_segments (c # normalise_loop False s) = nonempty_segments (c # to_ascii_lowercase s)"
    if "c \<noteq> CHR ''/''" for c
    using dropWhile_normalise_loop [of s]
  proof (elim disjE exE conjE)
    fix r
    assume r: "length r < length s"
      and d: "dropWhile (\<lambda>x. x \<noteq> CHR ''/'') (normalise_loop False s) = CHR ''/'' # normalise_loop True r"
        "dropWhile (\<lambda>x. x \<noteq> CHR ''/'') (to_ascii_lowercase s) = CHR ''/'' # to_ascii_lowercase r"
    have "nonempty_segments (normalise_loop True r) = nonempty_segments (to_ascii_lowercase r)"
      using "1.IH" r by blast
    then show ?thesis by (simp only: nonempty_segments_Cons [OF that] takeWhile_normalise_loop d list.case)
  qed (simp only: nonempty_segments_Cons [OF that] takeWhile_normalise_loop list.case)
  have one: "nonempty_segments (normalise_loop b s) = nonempty_segments (to_ascii_lowercase s)"
  proof (cases s)
    case (Cons c t)
    then have IH: "nonempty_segments (normalise_loop True t) = nonempty_segments (to_ascii_lowercase t)"
      and IH2: "\<And>c. c \<noteq> CHR ''/'' \<Longrightarrow>
        nonempty_segments (c # normalise_loop False t) = nonempty_segments (c # to_ascii_lowercase t)"
      using "1.IH" by auto
    show ?thesis
    proof (cases "c = CHR ''/''")
      case True
      with Cons IH show ?thesis by (simp add: char_lower_def is_ascii_upper_def)
    next
      case False
      with Cons IH2 [of "char_lower c"] show ?thesis by simp
    qed
  qed simp
  from one two show ?case by blast
qed

lemma nonempty_segments_trim:
  "nonempty_segments (to_ascii_lowercase (trim_start_matches (CHR ''/'') s)) =
   nonempty_segments (to_ascii_lowercase s)"
  by (induction s) (auto simp: trim_start_matches_def char_lower_def is_ascii_upper_def)

lemma path_key_eq: "path_key p = nonempty_segments (to_ascii_lowercase p)"
  by (simp add: path_key_def segments_nonempty normalise_path_no_double)
    (simp add: normalise_path_def nonempty_segments_normalise_loop nonempty_segments_trim)

section \<open>The built router\<close>

definition exact_entries :: "route_config list \<Rightarrow> (string \<times> route_config) list" where
  "exact_entries routes =
     List.map_filter (\<lambda>r. case rpath r of Exact v \<Rightarrow> Some (normalise_path v, r) | _ \<Rightarrow> None) routes"

definition prefix_entries :: "route_config list \<Rightarrow> (string \<times> route_config) list" where
  "prefix_entries routes =
     List.map_filter (\<lambda>r. case rpath r of Prefix v \<Rightarrow> Some (normalise_path v, r) | _ \<Rightarrow> None) routes"

definition compiled_routes :: "('re, 'cap) regex_lib \<Rightarrow> route_config list \<Rightarrow> 're compiled_route list" where
  "compiled_routes RE routes =
     List.map_filter (\<lambda>r. case rpath r of
        Regex p \<Rightarrow> (case re_new RE p of Inr re \<Rightarrow> Some \<lparr>cr_route = r, cr_regex = Some re\<rparr> | _ \<Rightarrow> None)
      | _ \<Rightarrow> None) routes"

definition regexes_ok :: "('re, 'cap) regex_lib \<Rightarrow> route_config list \<Rightarrow> bool" where
  "regexes_ok RE routes \<longleftrightarrow>
     (\<forall>r \<in> set routes. case rpath r of Regex p \<Rightarrow> \<not> isl (re_new RE p) | _ \<Rightarrow> True)"

abbreviation insert_all :: "'r trie_node \<Rightarrow> (string \<times> 'r) list \<Rightarrow> 'r trie_node" where
  "insert_all t prs \<equiv> foldl (\<lambda>i (p, r). insert_prefix i p r) t prs"

lemma map_filter_Cons:
  "List.map_filter f (x # xs) = (case f x of None \<Rightarrow> List.map_filter f xs | Some y \<Rightarrow> y # List.map_filter f xs)"
  by (simp add: List.map_filter_def split: option.split)

lemma map_filter_Nil [simp]: "List.map_filter f [] = []"
  by (simp add: List.map_filter_def)

lemmas entry_defs = exact_entries_def prefix_entries_def compiled_routes_def map_filter_Cons

lemma build_loop_ok:
  "regexes_ok RE routes \<Longrightarrow> build_loop RE rt routes =
     Inr (rt\<lparr>exact_trie := insert_all (exact_trie rt) (exact_entries routes),
             prefix_trie := insert_all (prefix_trie rt) (prefix_entries routes),
             regex_routes := regex_routes rt @ compiled_routes RE routes\<rparr>)"
proof (induction routes arbitrary: rt)
  case Nil
  then show ?case by (simp add: entry_defs)
next
  case (Cons r routes)
  then have "regexes_ok RE routes" by (simp add: regexes_ok_def)
  note IH = Cons.IH [OF this]
  show ?case
  proof (cases "rpath r")
    case (Regex p)
    with Cons.prems obtain re where "re_new RE p = Inr re"
      by (cases "re_new RE p") (auto simp: regexes_ok_def)
    with Regex show ?thesis by (simp add: IH entry_defs)
  qed (simp_all add: IH entry_defs)
qed

lemma build_loop_err:
  "\<not> regexes_ok RE routes \<Longrightarrow> \<exists>p e. build_loop RE rt routes = Inl (InvalidRegex p e)"
proof (induction routes arbitrary: rt)
  case (Cons r routes)
  show ?case
  proof (cases "rpath r")
    case (Regex p)
    with Cons show ?thesis by (cases "re_new RE p") (auto simp: regexes_ok_def)
  qed (use Cons in \<open>auto simp: regexes_ok_def\<close>)
qed (simp add: regexes_ok_def)

lemma router_build_Inr_iff: "(\<exists>rt. router_build RE cfg = Inr rt) \<longleftrightarrow> regexes_ok RE (gc_routes cfg)"
  unfolding router_build_def using build_loop_ok build_loop_err by (metis Inr_not_Inl)

lemma router_build_Inr:
  assumes "router_build RE cfg = Inr rt"
  shows "exact_trie rt = insert_all trie_default (exact_entries (gc_routes cfg))"
    and "prefix_trie rt = insert_all trie_default (prefix_entries (gc_routes cfg))"
    and "regex_routes rt = compiled_routes RE (gc_routes cfg)"
proof -
  have "regexes_ok RE (gc_routes cfg)" using assms router_build_Inr_iff by blast
  then show "exact_trie rt = insert_all trie_default (exact_entries (gc_routes cfg))"
    and "prefix_trie rt = insert_all trie_default (prefix_entries (gc_routes cfg))"
    and "regex_routes rt = compiled_routes RE (gc_routes cfg)"
    using assms by (auto simp: router_build_def build_loop_ok)
qed

lemma exact_entries_filter:
  "map snd (filter (\<lambda>(q, r). segments q = k) (exact_entries routes)) =
   filter (\<lambda>r. exact_key (rpath r) = Some k) routes"
  by (induction routes) (auto simp: entry_defs path_key_def split: path_match.splits)

lemma prefix_entries_filter:
  "map snd (filter (\<lambda>(q, r). segments q = k) (prefix_entries routes)) =
   filter (\<lambda>r. prefix_key (rpath r) = Some k) routes"
  by (induction routes) (auto simp: entry_defs path_key_def split: path_match.splits)

lemma find_exact_built:
  "find_exact (insert_all trie_default (exact_entries routes)) (normalise_path path) =
   List.find (\<lambda>r. exact_key (rpath r) = Some (path_key path)) routes"
proof -
  let ?k = "path_key path"
  have "find_exact (insert_all trie_default (exact_entries routes)) (normalise_path path) =
      (case routes_at (insert_all trie_default (exact_entries routes)) ?k of [] \<Rightarrow> None | r # _ \<Rightarrow> Some r)"
    by (simp add: trie_ix.exact_stored trie_ix.inv_foldl trie_ix.inv_empty path_key_def)
  then show ?thesis
    by (simp add: trie_ix.stored_built exact_entries_filter find_eq_hd_filter)
qed

lemma collect_prefix_built:
  "rev (collect_prefix_matches (insert_all trie_default (prefix_entries routes)) (normalise_path path) []) =
   prefix_order routes (path_key path)"
  by (simp add: trie_ix.collect_built prefix_entries_filter prefix_order_def path_key_def)

lemma capture_params_named: "capture_params RE re caps = named_captures RE re caps"
proof -
  have "List.map_filter (\<lambda>name. map_option (\<lambda>m. (name, m)) (cap_name RE caps name)) (List.map_filter id ns) =
      [(n, v). Some n \<leftarrow> ns, Some v \<leftarrow> [cap_name RE caps n]]" for ns
    by (induction ns) (auto simp: map_filter_Cons split: option.split)
  then show ?thesis by (simp add: capture_params_def named_captures_def)
qed

lemma regex_stage_built:
  "regex_stage L RE path m h (compiled_routes RE routes) =
   map_option (\<lambda>r. case the (regex_captures RE (rpath r) path) of
       (re, caps) \<Rightarrow> matched_with_params r (capture_params RE re caps))
     (List.find (\<lambda>r. regex_captures RE (rpath r) path \<noteq> None \<and> route_predicates L RE m h r) routes)"
proof (induction routes)
  case Nil
  then show ?case by (simp add: compiled_routes_def)
next
  case (Cons r routes)
  show ?case
  proof (cases "rpath r")
    case (Regex p)
    show ?thesis
    proof (cases "re_new RE p")
      case (Inr re)
      with Cons Regex show ?thesis
        by (cases "re_captures RE re path") (simp_all add: compiled_routes_def map_filter_Cons)
    qed (use Cons Regex in \<open>simp add: compiled_routes_def map_filter_Cons\<close>)
  qed (use Cons in \<open>simp_all add: compiled_routes_def map_filter_Cons\<close>)
qed

lemma match_request_built:
  assumes "router_build RE cfg = Inr rt"
  shows "match_request L RE rt path m h = reference_match L RE (gc_routes cfg) path m h"
proof -
  note b = router_build_Inr [OF assms]
  show ?thesis
    unfolding match_request_def reference_match_def Let_def b
      find_exact_built collect_prefix_built regex_stage_built
    by (auto simp: matched_new_def matched_with_params_def capture_params_named split: option.splits prod.splits)
qed

end
