(* ===== verification/Health.thy ===== *)
theory Health
  imports Config
begin

text \<open>
  Endpoint health (\<open>gateway-core/src/upstream.rs\<close>, the first half): the three health states as they are
  stored in an \<open>AtomicU8\<close>, the runtime state of an endpoint and the two operations a health check
  calls, \<open>mark_failure\<close> and \<open>mark_success\<close>, with their thresholds, wrapping counters and the cooldown
  against flapping. The clock reading of a call is its argument \<open>now\<close>.

  A health-check task probes one endpoint at a time, so a history of an endpoint is a list of probes.
  The lemmas describe all histories: which transitions there are, how far apart they lie, and which
  runs of outcomes precede them.
\<close>

section \<open>States\<close>

datatype health = Unhealthy | Healthy | Degraded

fun health_as_u8 :: "health \<Rightarrow> u8" where
  "health_as_u8 Unhealthy = 0"
| "health_as_u8 Healthy = 1"
| "health_as_u8 Degraded = 2"

definition health_from_u8 :: "u8 \<Rightarrow> health" where
  "health_from_u8 v = (if v = 1 then Healthy else if v = 2 then Degraded else Unhealthy)"

fun as_gauge_value :: "health \<Rightarrow> f64" where
  "as_gauge_value Healthy = 1"
| "as_gauge_value Degraded = 1 / 2"
| "as_gauge_value Unhealthy = 0"

definition FLAP_COOLDOWN_MS :: u64 where
  "FLAP_COOLDOWN_MS = 10000"

record endpoint_state =
  es_address :: string
  es_weight :: u32
  es_health :: u8
  es_consecutive_failures :: u32
  es_consecutive_successes :: u32
  es_last_state_change_ms :: u64
  es_active_conns :: u64
  es_ewma_latency :: u64

definition endpoint_new :: "string \<Rightarrow> u32 \<Rightarrow> endpoint_state" where
  "endpoint_new address weight =
     \<lparr>es_address = address, es_weight = weight, es_health = health_as_u8 Healthy,
      es_consecutive_failures = 0, es_consecutive_successes = 0, es_last_state_change_ms = 0,
      es_active_conns = 0, es_ewma_latency = 0\<rparr>"

definition health_state :: "endpoint_state \<Rightarrow> health" where
  "health_state e = health_from_u8 (es_health e)"

definition is_available :: "endpoint_state \<Rightarrow> bool" where
  "is_available e \<longleftrightarrow> health_state e \<noteq> Unhealthy"

definition transition_to :: "health \<Rightarrow> u64 \<Rightarrow> endpoint_state \<Rightarrow> endpoint_state" where
  "transition_to new_state timestamp_ms e =
     e\<lparr>es_health := health_as_u8 new_state, es_last_state_change_ms := timestamp_ms\<rparr>"

text \<open>The clock: milliseconds since the Unix epoch, truncated to 64 bits; before the epoch zero.\<close>

definition now_ms :: "duration option \<Rightarrow> u64" where
  "now_ms since_epoch = word_of_nat (as_millis (case since_epoch of None \<Rightarrow> 0 | Some d \<Rightarrow> d))"

section \<open>Marking\<close>

definition mark_failure :: "health_check_config \<Rightarrow> u64 \<Rightarrow> endpoint_state \<Rightarrow> health \<times> endpoint_state" where
  "mark_failure cfg now e0 =
     (let failures = es_consecutive_failures e0 + 1;
          e = e0\<lparr>es_consecutive_failures := failures, es_consecutive_successes := 0\<rparr>;
          current = health_state e;
          in_cooldown = saturating_sub now (es_last_state_change_ms e) < FLAP_COOLDOWN_MS
      in if in_cooldown then (current, e)
         else (let new_state =
                     (if hc_unhealthy_threshold cfg \<le> failures then Unhealthy
                      else if current = Healthy then Degraded
                      else current)
               in (new_state, if new_state \<noteq> current then transition_to new_state now e else e)))"

definition mark_success :: "health_check_config \<Rightarrow> u64 \<Rightarrow> endpoint_state \<Rightarrow> health \<times> endpoint_state" where
  "mark_success cfg now e0 =
     (let successes = es_consecutive_successes e0 + 1;
          e = e0\<lparr>es_consecutive_successes := successes, es_consecutive_failures := 0\<rparr>;
          current = health_state e;
          in_cooldown = saturating_sub now (es_last_state_change_ms e) < FLAP_COOLDOWN_MS
      in if in_cooldown then (current, e)
         else (let new_state =
                     (if current = Unhealthy \<and> 1 \<le> successes then Degraded
                      else if hc_healthy_threshold cfg \<le> successes \<and> current \<noteq> Healthy then Healthy
                      else current)
               in (new_state, if new_state \<noteq> current then transition_to new_state now e else e)))"

text \<open>A probe is the clock reading of the mark and whether the check succeeded; \<open>mark\<close> and \<open>probes\<close> run
  one and several.\<close>

type_synonym probe = "u64 \<times> bool"

definition mark :: "health_check_config \<Rightarrow> probe \<Rightarrow> endpoint_state \<Rightarrow> endpoint_state" where
  "mark cfg p e = snd ((if snd p then mark_success else mark_failure) cfg (fst p) e)"

fun probes :: "health_check_config \<Rightarrow> probe list \<Rightarrow> endpoint_state \<Rightarrow> endpoint_state" where
  "probes cfg [] e = e"
| "probes cfg (p # ps) e = probes cfg ps (mark cfg p e)"

section \<open>The transition relation\<close>

text \<open>The transitions the code can make, with the clock and the state before and after, and the
  counters that license them.\<close>

inductive health_step :: "health_check_config \<Rightarrow> probe \<Rightarrow> endpoint_state \<Rightarrow> health \<Rightarrow> bool"
  for cfg :: health_check_config where
  cooldown: "unat now < unat (es_last_state_change_ms e) + unat FLAP_COOLDOWN_MS \<Longrightarrow>
     health_step cfg (now, ok) e (health_state e)"
| remove: "unat (es_last_state_change_ms e) + unat FLAP_COOLDOWN_MS \<le> unat now \<Longrightarrow>
     hc_unhealthy_threshold cfg \<le> es_consecutive_failures e + 1 \<Longrightarrow>
     health_step cfg (now, False) e Unhealthy"
| degrade: "unat (es_last_state_change_ms e) + unat FLAP_COOLDOWN_MS \<le> unat now \<Longrightarrow>
     es_consecutive_failures e + 1 < hc_unhealthy_threshold cfg \<Longrightarrow>
     health_state e = Healthy \<Longrightarrow> health_step cfg (now, False) e Degraded"
| keep_down: "unat (es_last_state_change_ms e) + unat FLAP_COOLDOWN_MS \<le> unat now \<Longrightarrow>
     es_consecutive_failures e + 1 < hc_unhealthy_threshold cfg \<Longrightarrow>
     health_state e \<noteq> Healthy \<Longrightarrow> health_step cfg (now, False) e (health_state e)"
| readmit: "unat (es_last_state_change_ms e) + unat FLAP_COOLDOWN_MS \<le> unat now \<Longrightarrow>
     health_state e = Unhealthy \<Longrightarrow> es_consecutive_successes e + 1 \<noteq> 0 \<Longrightarrow>
     health_step cfg (now, True) e Degraded"
| heal: "unat (es_last_state_change_ms e) + unat FLAP_COOLDOWN_MS \<le> unat now \<Longrightarrow>
     health_state e \<noteq> Unhealthy \<or> es_consecutive_successes e + 1 = 0 \<Longrightarrow>
     hc_healthy_threshold cfg \<le> es_consecutive_successes e + 1 \<Longrightarrow>
     health_step cfg (now, True) e Healthy"
| keep_up: "unat (es_last_state_change_ms e) + unat FLAP_COOLDOWN_MS \<le> unat now \<Longrightarrow>
     health_state e \<noteq> Unhealthy \<or> es_consecutive_successes e + 1 = 0 \<Longrightarrow>
     es_consecutive_successes e + 1 < hc_healthy_threshold cfg \<Longrightarrow>
     health_step cfg (now, True) e (health_state e)"

inductive_cases health_step_failE: "health_step cfg (now, False) e h"
inductive_cases health_step_okE: "health_step cfg (now, True) e h"
inductive_cases health_stepE: "health_step cfg p e h"

lemma health_from_as_u8 [simp]: "health_from_u8 (health_as_u8 h) = h"
  by (cases h) (simp_all add: health_from_u8_def)

lemma health_state_new [simp]: "health_state (endpoint_new a w) = Healthy"
  by (simp add: health_state_def endpoint_new_def del: health_as_u8.simps)

lemma health_state_simps [simp]:
  "health_state (e\<lparr>es_consecutive_failures := a\<rparr>) = health_state e"
  "health_state (e\<lparr>es_consecutive_successes := a\<rparr>) = health_state e"
  "health_state (e\<lparr>es_active_conns := c\<rparr>) = health_state e"
  "health_state (e\<lparr>es_ewma_latency := c\<rparr>) = health_state e"
  "health_state (transition_to h t e) = h"
  by (simp_all add: health_state_def transition_to_def)

lemma transition_to_simps [simp]:
  "es_consecutive_failures (transition_to h t e) = es_consecutive_failures e"
  "es_consecutive_successes (transition_to h t e) = es_consecutive_successes e"
  "es_last_state_change_ms (transition_to h t e) = t"
  "es_address (transition_to h t e) = es_address e"
  "es_weight (transition_to h t e) = es_weight e"
  "es_active_conns (transition_to h t e) = es_active_conns e"
  "es_ewma_latency (transition_to h t e) = es_ewma_latency e"
  by (simp_all add: transition_to_def)

lemma in_cooldown_iff:
  "saturating_sub now prev < FLAP_COOLDOWN_MS \<longleftrightarrow> unat now < unat prev + unat FLAP_COOLDOWN_MS"
proof -
  have "unat FLAP_COOLDOWN_MS = 10000" by (simp add: FLAP_COOLDOWN_MS_def)
  then show ?thesis unfolding word_less_nat_alt unat_saturating_sub by linarith
qed

text \<open>Everything a mark does: the counters, the step it makes and the time it records.\<close>

lemma mark_failure_counters [simp]:
  "es_consecutive_failures (snd (mark_failure cfg now e)) = es_consecutive_failures e + 1"
  "es_consecutive_successes (snd (mark_failure cfg now e)) = 0"
  by (simp_all add: mark_failure_def Let_def)

lemma mark_success_counters [simp]:
  "es_consecutive_successes (snd (mark_success cfg now e)) = es_consecutive_successes e + 1"
  "es_consecutive_failures (snd (mark_success cfg now e)) = 0"
  by (simp_all add: mark_success_def Let_def)

lemma mark_failure_health [simp]:
  "health_state (snd (mark_failure cfg now e)) = fst (mark_failure cfg now e)"
  by (simp add: mark_failure_def Let_def)

lemma mark_success_health [simp]:
  "health_state (snd (mark_success cfg now e)) = fst (mark_success cfg now e)"
  by (simp add: mark_success_def Let_def)

lemma mark_failure_last:
  "es_last_state_change_ms (snd (mark_failure cfg now e)) =
     (if fst (mark_failure cfg now e) = health_state e then es_last_state_change_ms e else now)"
  by (simp add: mark_failure_def Let_def)

lemma mark_success_last:
  "es_last_state_change_ms (snd (mark_success cfg now e)) =
     (if fst (mark_success cfg now e) = health_state e then es_last_state_change_ms e else now)"
  by (simp add: mark_success_def Let_def)

lemma mark_failure_static:
  "es_address (snd (mark_failure cfg now e)) = es_address e"
  "es_weight (snd (mark_failure cfg now e)) = es_weight e"
  "es_active_conns (snd (mark_failure cfg now e)) = es_active_conns e"
  "es_ewma_latency (snd (mark_failure cfg now e)) = es_ewma_latency e"
  by (simp_all add: mark_failure_def Let_def)

lemma mark_success_static:
  "es_address (snd (mark_success cfg now e)) = es_address e"
  "es_weight (snd (mark_success cfg now e)) = es_weight e"
  "es_active_conns (snd (mark_success cfg now e)) = es_active_conns e"
  "es_ewma_latency (snd (mark_success cfg now e)) = es_ewma_latency e"
  by (simp_all add: mark_success_def Let_def)

lemma mark_static [simp]:
  "es_address (mark cfg p e) = es_address e" "es_weight (mark cfg p e) = es_weight e"
  "es_active_conns (mark cfg p e) = es_active_conns e" "es_ewma_latency (mark cfg p e) = es_ewma_latency e"
  by (simp_all add: mark_def mark_failure_static mark_success_static)

lemma one_le_word: "1 \<le> (w :: 'a::len word) \<longleftrightarrow> w \<noteq> 0"
  by (simp add: word_le_nat_alt unat_eq_zero Suc_le_eq flip: unat_gt_0)

lemma mark_failure_step: "health_step cfg (now, False) e (fst (mark_failure cfg now e))"
proof (cases "saturating_sub now (es_last_state_change_ms e) < FLAP_COOLDOWN_MS")
  case True
  then show ?thesis
    using cooldown [of now e cfg False] by (simp add: mark_failure_def in_cooldown_iff)
next
  case False
  with remove [of e now cfg] degrade [of e now cfg] keep_down [of e now cfg] show ?thesis
    by (auto simp: mark_failure_def Let_def in_cooldown_iff not_less not_le)
qed

lemma mark_success_step: "health_step cfg (now, True) e (fst (mark_success cfg now e))"
proof (cases "saturating_sub now (es_last_state_change_ms e) < FLAP_COOLDOWN_MS")
  case True
  then show ?thesis
    using cooldown [of now e cfg True] by (simp add: mark_success_def in_cooldown_iff)
next
  case False
  then have late: "unat (es_last_state_change_ms e) + unat FLAP_COOLDOWN_MS \<le> unat now"
    by (simp add: in_cooldown_iff)
  show ?thesis
  proof (cases "hc_healthy_threshold cfg \<le> es_consecutive_successes e + 1")
    case True
    then show ?thesis
      using readmit [OF late, of cfg] heal [OF late, of cfg] \<open>\<not> saturating_sub now _ < _\<close>
      by (auto simp: mark_success_def Let_def one_le_word)
  next
    case short: False
    then have "es_consecutive_successes e + 1 < hc_healthy_threshold cfg" by simp
    then show ?thesis
      using readmit [OF late, of cfg] keep_up [OF late, of cfg] short \<open>\<not> saturating_sub now _ < _\<close>
      by (simp add: mark_success_def Let_def one_le_word)
  qed
qed

lemma mark_step: "health_step cfg p e (health_state (mark cfg p e))"
  by (cases p) (simp add: mark_def mark_failure_step mark_success_step)

lemma mark_last:
  "es_last_state_change_ms (mark cfg p e) =
     (if health_state (mark cfg p e) = health_state e then es_last_state_change_ms e else fst p)"
  by (simp add: mark_def mark_failure_last mark_success_last)

text \<open>A change of state happens only outside the cooldown.\<close>

lemma mark_change_time:
  assumes "health_state (mark cfg p e) \<noteq> health_state e"
  shows "unat (es_last_state_change_ms e) + 10000 \<le> unat (fst p)"
  using mark_step [of cfg p e] assms
  by (auto simp: FLAP_COOLDOWN_MS_def elim!: health_stepE)

section \<open>Histories\<close>

text \<open>The length of the run of probes with outcome \<open>b\<close> that ends a history, and the times at which the
  state changed.\<close>

definition trailing :: "bool \<Rightarrow> probe list \<Rightarrow> nat" where
  "trailing b ps = length (takeWhile (\<lambda>p. snd p = b) (rev ps))"

fun change_times :: "health_check_config \<Rightarrow> probe list \<Rightarrow> endpoint_state \<Rightarrow> nat list" where
  "change_times cfg [] e = []"
| "change_times cfg (p # ps) e =
     (if health_state (mark cfg p e) \<noteq> health_state e then [unat (fst p)] else [])
       @ change_times cfg ps (mark cfg p e)"

lemma probes_append: "probes cfg (ps @ qs) e = probes cfg qs (probes cfg ps e)"
  by (induction ps arbitrary: e) auto

lemma trailing_snoc: "trailing b (ps @ [p]) = (if snd p = b then Suc (trailing b ps) else 0)"
  by (simp add: trailing_def)

lemma unat_plus_one_le: "unat (w + 1 :: 'a::len word) \<le> Suc (unat w)"
  by (simp add: unat_word_ariths(1) order_trans [OF mod_less_eq_dividend])

text \<open>The counters never exceed the runs they count, also when they wrap around.\<close>

lemma counters_le_trailing:
  "unat (es_consecutive_failures (probes cfg ps (endpoint_new a w))) \<le> trailing False ps"
  "unat (es_consecutive_successes (probes cfg ps (endpoint_new a w))) \<le> trailing True ps"
proof (induction ps rule: rev_induct)
  case (snoc p ps)
  let ?e = "probes cfg ps (endpoint_new a w)"
  { case 1
    show ?case using snoc(1) unat_plus_one_le [of "es_consecutive_failures ?e"]
      by (simp add: probes_append mark_def trailing_snoc)
  next
    case 2
    show ?case using snoc(2) unat_plus_one_le [of "es_consecutive_successes ?e"]
      by (simp add: probes_append mark_def trailing_snoc) }
qed (simp_all add: endpoint_new_def)

lemma change_times_spaced:
  "sorted_wrt (\<lambda>a b. a + 10000 \<le> b) (change_times cfg ps e) \<and>
   (\<forall>t \<in> set (change_times cfg ps e). unat (es_last_state_change_ms e) + 10000 \<le> t)"
proof (induction ps arbitrary: e)
  case (Cons p ps)
  show ?case
  proof (cases "health_state (mark cfg p e) = health_state e")
    case True
    then show ?thesis using Cons [of "mark cfg p e"] by (simp add: mark_last)
  next
    case False
    from mark_change_time [OF this] have "unat (es_last_state_change_ms e) + 10000 \<le> unat (fst p)" .
    then show ?thesis using False Cons [of "mark cfg p e"] by (fastforce simp: mark_last)
  qed
qed simp

lemma mark_removes:
  assumes "health_state (mark cfg p e) = Unhealthy" "health_state e \<noteq> Unhealthy"
  shows "\<not> snd p \<and> hc_unhealthy_threshold cfg \<le> es_consecutive_failures e + 1"
  using mark_step [of cfg p e] assms by (auto elim!: health_stepE)

lemma mark_heals:
  assumes "health_state (mark cfg p e) = Healthy" "health_state e \<noteq> Healthy"
  shows "snd p \<and> hc_healthy_threshold cfg \<le> es_consecutive_successes e + 1 \<and>
    (health_state e = Degraded \<or> hc_healthy_threshold cfg = 0)"
  using mark_step [of cfg p e] assms
  by (cases "health_state e") (auto elim!: health_stepE)

lemma threshold_le_trailing:
  assumes "thr \<le> c + 1" "unat (c :: u32) \<le> n"
  shows "unat thr \<le> Suc n"
  using assms unat_plus_one_le [of c] by (simp add: word_le_nat_alt)

subsection \<open>Runs of failures\<close>

lemma mark_failure_down:
  assumes "\<not> snd p" "hc_unhealthy_threshold cfg \<le> es_consecutive_failures e + 1"
    and "health_state e = Unhealthy \<or> unat (es_last_state_change_ms e) + 10000 \<le> unat (fst p)"
  shows "health_state (mark cfg p e) = Unhealthy"
  using mark_step [of cfg p e] assms
  by (cases p) (auto simp: FLAP_COOLDOWN_MS_def elim!: health_step_failE)

lemma failures_counted:
  assumes "\<forall>p \<in> set ps. \<not> snd p" "unat (es_consecutive_failures e) + length ps < 2 ^ 32"
  shows "unat (es_consecutive_failures (probes cfg ps e)) = unat (es_consecutive_failures e) + length ps"
  using assms
proof (induction ps arbitrary: e)
  case (Cons p ps)
  have "unat (es_consecutive_failures e + 1) = unat (es_consecutive_failures e) + 1"
    using Cons.prems(2) by (simp add: unat_word_ariths)
  then have "unat (es_consecutive_failures (mark cfg p e)) = unat (es_consecutive_failures e) + 1"
    using Cons.prems(1) by (simp add: mark_def)
  with Cons show ?case by simp
qed simp

text \<open>While the run goes on after the threshold, an endpoint that is not yet removed has not changed
  state since.\<close>

lemma failing_after_threshold:
  assumes "\<forall>p \<in> set ps. \<not> snd p"
    and "unat (hc_unhealthy_threshold cfg) \<le> unat (es_consecutive_failures e)"
    and "unat (es_consecutive_failures e) + length ps < 2 ^ 32"
  shows "health_state (probes cfg ps e) = Unhealthy \<or>
    es_last_state_change_ms (probes cfg ps e) = es_last_state_change_ms e"
  using assms
proof (induction ps rule: rev_induct)
  case (snoc p ps)
  let ?e = "probes cfg ps e"
  have "unat (es_consecutive_failures ?e + 1) = unat (es_consecutive_failures ?e) + 1"
    using failures_counted [of ps e cfg] snoc.prems by (simp add: unat_word_ariths)
  then have thr: "hc_unhealthy_threshold cfg \<le> es_consecutive_failures ?e + 1"
    using failures_counted [of ps e cfg] snoc.prems by (simp add: word_le_nat_alt)
  show ?case
  proof (cases "health_state (mark cfg p ?e) = health_state ?e")
    case True
    with snoc show ?thesis by (auto simp: probes_append mark_last)
  next
    case False
    with mark_change_time [OF False] mark_failure_down [OF _ thr, of p] snoc.prems
    show ?thesis by (simp add: probes_append)
  qed
qed simp

section \<open>Properties\<close>

definition ex_health_check :: health_check_config where
  "ex_health_check =
     \<lparr>hc_path = ''/health'', hc_interval = default_health_interval, hc_timeout = default_health_timeout,
      hc_healthy_threshold = 2, hc_unhealthy_threshold = 3\<rparr>"

definition ex_failures :: "probe list" where
  "ex_failures = [(20000, False), (30000, False), (40000, False)]"

lemmas health_eval = ex_health_check_def ex_failures_def mark_def mark_failure_def mark_success_def
  endpoint_new_def health_state_def transition_to_def saturating_sub_def FLAP_COOLDOWN_MS_def
  health_from_u8_def trailing_def word_le_nat_alt

text \<open>C3: Anti-flapping. In every history of probes of an endpoint any two changes of its health state are
  at least ten seconds apart on the recorded clock, whatever the thresholds, the outcomes and the clock
  readings, also when the clock is set back.\<close>

theorem health_changes_spaced:
  "sorted_wrt (\<lambda>t t'. t + 10000 \<le> t') (change_times cfg ps e)"
  by (simp add: change_times_spaced)

text \<open>C29: No transition without its threshold. After any history of a new endpoint, a probe that takes it
  out of rotation is a failure that ends a run of at least \<open>unhealthy_threshold\<close> consecutive failures, and
  a probe that makes it healthy again is a success that ends a run of at least \<open>healthy_threshold\<close>
  consecutive successes; with a non-zero threshold it was degraded before, never unhealthy. The 32-bit
  counters may wrap around.\<close>

theorem health_transitions_justified:
  assumes "e = probes cfg ps (endpoint_new a w)"
  shows "(health_state e \<noteq> Unhealthy \<and> health_state (mark cfg p e) = Unhealthy \<longrightarrow>
      \<not> snd p \<and> unat (hc_unhealthy_threshold cfg) \<le> trailing False (ps @ [p])) \<and>
    (health_state e \<noteq> Healthy \<and> health_state (mark cfg p e) = Healthy \<longrightarrow>
      snd p \<and> unat (hc_healthy_threshold cfg) \<le> trailing True (ps @ [p]) \<and>
      (hc_healthy_threshold cfg \<noteq> 0 \<longrightarrow> health_state e = Degraded))"
  using mark_removes [of cfg p e] mark_heals [of cfg p e]
    threshold_le_trailing [OF _ counters_le_trailing(1) [of cfg ps a w]]
    threshold_le_trailing [OF _ counters_le_trailing(2) [of cfg ps a w]]
  by (auto simp: assms trailing_snoc)

theorem health_transitions_justified_witness:
  "health_state (mark ex_health_check (40000, False) (probes ex_health_check (butlast ex_failures) (endpoint_new [] 1)))
     = Unhealthy \<and>
   unat (hc_unhealthy_threshold ex_health_check) \<le> trailing False (butlast ex_failures @ [(40000, False)])"
proof -
  have "health_state (mark ex_health_check (40000, False) (probes ex_health_check (butlast ex_failures) (endpoint_new [] 1)))
      = Unhealthy" by (simp add: health_eval)
  moreover have "health_state (probes ex_health_check (butlast ex_failures) (endpoint_new [] 1)) \<noteq> Unhealthy"
    by (simp add: health_eval)
  ultimately show ?thesis
    using health_transitions_justified [OF refl, of ex_health_check "butlast ex_failures" "[]" 1 "(40000, False)"]
    by simp
qed

text \<open>C30: A failing endpoint leaves rotation. Once a run of failures has reached \<open>unhealthy_threshold\<close>, a
  further failure at least ten seconds after the last state change recorded by then leaves the endpoint
  unhealthy, whatever failed probes lie between (the run is shorter than the range of the counter).\<close>

theorem failing_endpoint_removed:
  assumes "\<forall>p \<in> set (run @ later). \<not> snd p"
    and "unat (hc_unhealthy_threshold cfg) \<le> length run"
    and "unat (es_consecutive_failures e) + length (run @ later) + 1 < 2 ^ 32"
    and "unat (es_last_state_change_ms (probes cfg run e)) + 10000 \<le> unat now"
  shows "health_state (probes cfg (run @ later @ [(now, False)]) e) = Unhealthy"
proof -
  let ?m = "probes cfg run e" and ?l = "probes cfg (run @ later) e"
  have m: "unat (es_consecutive_failures ?m) = unat (es_consecutive_failures e) + length run"
    and l: "unat (es_consecutive_failures ?l) = unat (es_consecutive_failures e) + length (run @ later)"
    using assms by (intro failures_counted; simp)+
  then have "unat (es_consecutive_failures ?l + 1) = unat (es_consecutive_failures ?l) + 1"
    using assms(3) by (simp add: unat_word_ariths)
  with l assms(2) have thr: "hc_unhealthy_threshold cfg \<le> es_consecutive_failures ?l + 1"
    by (simp add: word_le_nat_alt)
  have "health_state ?l = Unhealthy \<or> es_last_state_change_ms ?l = es_last_state_change_ms ?m"
    using failing_after_threshold [of later cfg ?m] m assms(1-3) by (simp add: probes_append)
  with assms(4) have "health_state (mark cfg (now, False) ?l) = Unhealthy"
    by (intro mark_failure_down [OF _ thr]) auto
  then show ?thesis by (simp add: probes_append)
qed

theorem failing_endpoint_removed_witness:
  "health_state (probes ex_health_check (ex_failures @ [(45000, False)] @ [(50000, False)]) (endpoint_new [] 1))
     = Unhealthy"
  by (rule failing_endpoint_removed) (simp_all add: health_eval)

end
