(* ===== verification/Balance.thy ===== *)
theory Balance
  imports Health
begin

text \<open>
  Load balancing (\<open>select_endpoint\<close> of \<open>gateway-core/src/upstream.rs\<close>). An endpoint of a pool is named by
  its index; the list of available endpoints carries the indices along. The round-robin counter is
  returned updated; a remainder by zero is \<open>Panic\<close>.

  The locale \<open>selector\<close> is what the pool relies on: an algorithm that returns, returns one of the
  endpoints it was given. It is interpreted on the three algorithms of the code, and the lemmas of the
  locale give the contract of \<open>select_endpoint\<close>. The lemmas below it describe each algorithm on its own:
  the round robin is exactly proportional to the effective weights, least connections returns a minimum,
  and consistent hashing is a function of the key and the available endpoints.
\<close>

section \<open>Selection\<close>

type_synonym candidate = "nat \<times> endpoint_state"

definition effective_weight :: "endpoint_state \<Rightarrow> u32" where
  "effective_weight e =
     (case health_state e of
        Healthy \<Rightarrow> es_weight e
      | Degraded \<Rightarrow> max (es_weight e div 2) 1
      | Unhealthy \<Rightarrow> 0)"

fun wrr_scan :: "u32 \<Rightarrow> u32 \<Rightarrow> candidate list \<Rightarrow> candidate option" where
  "wrr_scan pos acc [] = None"
| "wrr_scan pos acc (ep # rest) =
     (let acc' = acc + effective_weight (snd ep)
      in if pos < acc' then Some ep else wrr_scan pos acc' rest)"

fun first_of :: "'a list \<Rightarrow> 'a option" where
  "first_of [] = None"
| "first_of (x # xs) = Some x"

definition wrr_pick :: "candidate list \<Rightarrow> usize \<Rightarrow> (candidate option \<times> usize) rust" where
  "wrr_pick available counter =
     (let total_weight = sum_list (map (\<lambda>ep. effective_weight (snd ep)) available)
      in if total_weight = 0 then Ret (first_of available, counter)
         else (let pos = (ucast counter :: u32) mod total_weight
               in Ret (case wrr_scan pos 0 available of
                         Some ep \<Rightarrow> Some ep
                       | None \<Rightarrow> first_of available, counter + 1)))"

definition lc_score :: "endpoint_state \<Rightarrow> u64" where
  "lc_score e =
     (let conns = es_active_conns e;
          latency = es_ewma_latency e;
          penalty = (if health_state e = Degraded then 2 else 1);
          base = (if latency = 0 then conns else saturating_mul conns latency)
      in saturating_mul base penalty)"

definition lc_pick :: "candidate list \<Rightarrow> usize \<Rightarrow> (candidate option \<times> usize) rust" where
  "lc_pick available counter = Ret (min_by_key (\<lambda>ep. lc_score (snd ep)) available, counter)"

definition fnv1a_64 :: "bytes \<Rightarrow> u64" where
  "fnv1a_64 data =
     foldl (\<lambda>hash b. xor hash (ucast b) * 1099511628211) 14695981039346656037 data"

text \<open>\<open>str::as_bytes\<close>.\<close>

definition as_bytes :: "string \<Rightarrow> bytes" where
  "as_bytes s = map (\<lambda>c. word_of_nat (of_char c)) s"

definition ch_pick :: "string option \<Rightarrow> usize \<Rightarrow> candidate list \<Rightarrow> usize \<Rightarrow> (candidate option \<times> usize) rust" where
  "ch_pick hash_key virtual_nodes available counter =
     (let key = (case hash_key of None \<Rightarrow> ''default'' | Some k \<Rightarrow> k);
          hash = fnv1a_64 (as_bytes key);
          len = word_of_nat (length available);
          ring_size = len * virtual_nodes
      in if ring_size = 0 then Panic
         else (let idx = hash mod ring_size div virtual_nodes;
                   i = unat (idx mod len)
               in Ret (if i < length available then Some (available ! i) else None, counter)))"

definition available_endpoints :: "endpoint_state list \<Rightarrow> candidate list" where
  "available_endpoints endpoints = filter (\<lambda>ep. is_available (snd ep)) (enumerate 0 endpoints)"

text \<open>The frame all three algorithms share: no available endpoint gives \<open>None\<close>.\<close>

definition select_with ::
  "(candidate list \<Rightarrow> usize \<Rightarrow> (candidate option \<times> usize) rust) \<Rightarrow> endpoint_state list \<Rightarrow> usize \<Rightarrow>
   (nat option \<times> usize) rust" where
  "select_with pick endpoints counter =
     (let available = available_endpoints endpoints
      in if available = [] then Ret (None, counter)
         else rust_bind (pick available counter) (\<lambda>(r, c). Ret (map_option fst r, c)))"

definition select_endpoint ::
  "endpoint_state list \<Rightarrow> load_balancing_config \<Rightarrow> string option \<Rightarrow> usize \<Rightarrow> (nat option \<times> usize) rust" where
  "select_endpoint endpoints algorithm hash_key counter =
     select_with
       (case algorithm of
          WeightedRoundRobin \<Rightarrow> wrr_pick
        | LeastConnections _ \<Rightarrow> lc_pick
        | ConsistentHashing _ virtual_nodes \<Rightarrow> ch_pick hash_key virtual_nodes) endpoints counter"

section \<open>The selection contract\<close>

lemma available_endpoints_iff:
  "(i, e) \<in> set (available_endpoints es) \<longleftrightarrow> i < length es \<and> e = es ! i \<and> is_available e"
  by (auto simp: available_endpoints_def in_set_enumerate_eq)

lemma available_endpoints_Nil:
  "available_endpoints es = [] \<longleftrightarrow> (\<forall>e \<in> set es. \<not> is_available e)"
proof -
  have "available_endpoints es = [] \<longleftrightarrow> (\<forall>i < length es. \<not> is_available (es ! i))"
    using available_endpoints_iff [of _ _ es] by (metis list.set_intros(1) neq_Nil_conv surj_pair empty_iff empty_set)
  then show ?thesis by (simp add: all_set_conv_all_nth)
qed

lemma length_available_endpoints: "length (available_endpoints es) \<le> length es"
  by (simp add: available_endpoints_def order_trans [OF length_filter_le])

locale selector =
  fixes pick :: "candidate list \<Rightarrow> usize \<Rightarrow> (candidate option \<times> usize) rust"
  assumes pick_in: "xs \<noteq> [] \<Longrightarrow> length xs < 2 ^ 64 \<Longrightarrow> pick xs c = Ret (r, c') \<Longrightarrow> \<exists>p \<in> set xs. r = Some p"
begin

lemma select_available:
  assumes "select_with pick es c = Ret (Some i, c')" and "length es < 2 ^ 64"
  shows "i < length es \<and> is_available (es ! i)"
proof -
  let ?av = "available_endpoints es"
  have ne: "?av \<noteq> []" using assms(1) by (auto simp: select_with_def Let_def)
  obtain r where r: "pick ?av c = Ret (r, c')" "map_option fst r = Some i"
    using assms(1) ne by (cases "pick ?av c") (auto simp: select_with_def Let_def)
  have "length ?av < 2 ^ 64" using length_available_endpoints [of es] assms(2) by linarith
  from pick_in [OF ne this r(1)] r(2) obtain e where "(i, e) \<in> set ?av" by auto
  then show ?thesis by (auto simp: available_endpoints_iff)
qed

lemma select_none:
  assumes "select_with pick es c = Ret (None, c')" and "length es < 2 ^ 64"
  shows "\<forall>e \<in> set es. \<not> is_available e"
proof (rule ccontr)
  let ?av = "available_endpoints es"
  assume "\<not> ?thesis"
  then have ne: "?av \<noteq> []" by (simp add: available_endpoints_Nil)
  then obtain r where r: "pick ?av c = Ret (r, c')" "map_option fst r = None"
    using assms(1) by (cases "pick ?av c") (auto simp: select_with_def Let_def)
  have "length ?av < 2 ^ 64" using length_available_endpoints [of es] assms(2) by linarith
  from pick_in [OF ne this r(1)] r(2) show False by auto
qed

lemma select_contract:
  assumes "length es < 2 ^ 64" and "select_with pick es c = Ret (r, c')"
  shows "case r of Some i \<Rightarrow> i < length es \<and> is_available (es ! i)
    | None \<Rightarrow> (\<forall>e \<in> set es. \<not> is_available e)"
  using select_available [OF _ assms(1)] select_none [OF _ assms(1)] assms(2) by (cases r) auto

end

subsection \<open>The algorithms keep the contract\<close>

lemma first_of_in: "xs \<noteq> [] \<Longrightarrow> \<exists>p \<in> set xs. first_of xs = Some p"
  by (cases xs) auto

lemma wrr_scan_in: "wrr_scan pos acc xs = Some p \<Longrightarrow> p \<in> set xs"
  by (induction pos acc xs rule: wrr_scan.induct) (auto simp: Let_def split: if_splits)

lemma wrr_scan_cases: "wrr_scan pos acc xs = None \<or> (\<exists>p \<in> set xs. wrr_scan pos acc xs = Some p)"
  using wrr_scan_in by (cases "wrr_scan pos acc xs") auto

interpretation wrr: selector wrr_pick
proof
  fix xs c r c'
  assume "(xs :: candidate list) \<noteq> []" and "wrr_pick xs c = Ret (r, c')"
  then show "\<exists>p \<in> set xs. r = Some p"
    using first_of_in [of xs] wrr_scan_cases [of "ucast c mod (\<Sum>ep\<leftarrow>xs. effective_weight (snd ep))" 0 xs]
    by (auto simp: wrr_pick_def Let_def split: if_splits)
qed

interpretation lc: selector lc_pick
proof
  fix xs c r c'
  assume "(xs :: candidate list) \<noteq> []" and "lc_pick xs c = Ret (r, c')"
  then show "\<exists>p \<in> set xs. r = Some p"
    using min_by_key_Some [of "\<lambda>ep. lc_score (snd ep)" xs]
    by (cases r) (auto simp: lc_pick_def)
qed

lemma unat_mod_less_length:
  assumes "xs \<noteq> []" "length xs < 2 ^ 64"
  shows "unat ((w :: usize) mod word_of_nat (length xs)) < length xs"
  using assms by (simp add: unat_mod unat_word_of_nat)

interpretation ch: selector "ch_pick key v" for key v
proof
  fix xs c r c'
  assume "(xs :: candidate list) \<noteq> []" "length xs < 2 ^ 64" "ch_pick key v xs c = Ret (r, c')"
  then show "\<exists>p \<in> set xs. r = Some p"
    by (auto simp: ch_pick_def Let_def unat_mod_less_length split: if_splits)
qed

section \<open>Weighted round robin\<close>

text \<open>The index of the slot a position falls into when consecutive slots have the given widths.\<close>

fun slot :: "nat list \<Rightarrow> nat \<Rightarrow> nat" where
  "slot [] p = 0"
| "slot (w # ws) p = (if p < w then 0 else Suc (slot ws (p - w)))"

abbreviation weights :: "candidate list \<Rightarrow> nat list" where
  "weights xs \<equiv> map (\<lambda>ep. unat (effective_weight (snd ep))) xs"

lemma slot_less: "p < sum_list ws \<Longrightarrow> slot ws p < length ws"
  by (induction ws p rule: slot.induct) auto

lemma filter_upt_shift: "length (filter P [w..<w + s]) = length (filter (\<lambda>p. P (w + p)) [0..<s])"
  by (induction s) auto

text \<open>A slot is hit by as many positions as it is wide.\<close>

lemma slot_count:
  "i < length ws \<Longrightarrow> length (filter (\<lambda>p. slot ws p = i) [0..<sum_list ws]) = ws ! i"
proof (induction ws arbitrary: i)
  case (Cons w ws)
  let ?s = "sum_list ws"
  have split: "[0..<w + ?s] = [0..<w] @ [w..<w + ?s]" by (metis add_0 upt_add_eq_append le_add1 zero_le)
  have low: "filter (\<lambda>p. slot (w # ws) p = i) [0..<w] = (if i = 0 then [0..<w] else [])"
    by (auto simp: filter_id_conv filter_empty_conv)
  have "length (filter (\<lambda>p. slot (w # ws) p = i) [w..<w + ?s]) =
      (if i = 0 then 0 else ws ! (i - 1))"
    using Cons by (cases i) (simp_all add: filter_upt_shift)
  then show ?case using low Cons.prems by (cases i) (simp_all add: split)
qed simp

text \<open>Any window of consecutive numbers has every residue once.\<close>

lemma residues_window:
  "length (filter (\<lambda>k. P (k mod t)) [c..<c + t]) = length (filter P [0..<t])"
proof (induction c)
  case 0
  have "filter (\<lambda>k. P (k mod t)) [0..<t] = filter P [0..<t]" by (rule filter_cong) auto
  then show ?case by simp
next
  case (Suc c)
  show ?case
  proof (cases "t = 0")
    case False
    then have first: "[c..<c + t] = c # [Suc c..<c + t]"
      and final: "[Suc c..<Suc c + t] = [Suc c..<c + t] @ [c + t]"
      by (simp_all add: upt_conv_Cons)
    from Suc show ?thesis unfolding first final by (cases "P (c mod t)") simp_all
  qed simp
qed

lemma wrr_scan_slot:
  assumes "unat acc + sum_list (weights xs) < 2 ^ 32" and "unat acc \<le> unat pos"
    and "unat pos < unat acc + sum_list (weights xs)"
  shows "wrr_scan pos acc xs = Some (xs ! slot (weights xs) (unat pos - unat acc))"
  using assms
proof (induction pos acc xs rule: wrr_scan.induct)
  case (2 pos acc ep rest)
  let ?w = "effective_weight (snd ep)"
  have acc: "unat (acc + ?w) = unat acc + unat ?w"
    using "2.prems"(1) by (simp add: unat_word_ariths)
  show ?case
  proof (cases "pos < acc + ?w")
    case True
    then have "unat pos - unat acc < unat ?w"
      using "2.prems"(2) by (simp add: word_less_nat_alt acc)
    with True show ?thesis by (simp add: Let_def)
  next
    case False
    then have "unat acc + unat ?w \<le> unat pos" by (simp add: word_less_nat_alt acc not_less)
    moreover from this have "\<not> unat pos - unat acc < unat ?w" by linarith
    moreover have "unat pos - unat acc - unat ?w = unat pos - unat (acc + ?w)" by (simp add: acc)
    ultimately show ?thesis using "2.IH" [OF refl] False "2.prems" by (simp add: Let_def acc)
  qed
qed simp

lemma wrr_pick_slot:
  assumes "0 < sum_list (weights xs)" and "sum_list (weights xs) < 2 ^ 32"
  shows "wrr_pick xs c = Ret (Some (xs ! slot (weights xs) (unat c mod 2 ^ 32 mod sum_list (weights xs))), c + 1)"
proof -
  let ?t = "\<Sum>ep\<leftarrow>xs. effective_weight (snd ep)"
  have t: "unat ?t = sum_list (weights xs)"
    using unat_sum_list [of "map (\<lambda>ep. effective_weight (snd ep)) xs"] assms(2) by (simp add: comp_def)
  with assms(1) have "?t \<noteq> 0" by (metis less_irrefl unat_0)
  have pos: "unat ((ucast c :: u32) mod ?t) = unat c mod 2 ^ 32 mod sum_list (weights xs)"
    by (simp add: unat_mod t unsigned_ucast_eq take_bit_eq_mod)
  have "wrr_scan ((ucast c :: u32) mod ?t) 0 xs =
      Some (xs ! slot (weights xs) (unat c mod 2 ^ 32 mod sum_list (weights xs)))"
    using assms by (subst wrr_scan_slot) (simp_all add: pos)
  with \<open>?t \<noteq> 0\<close> show ?thesis by (simp add: wrr_pick_def Let_def)
qed

section \<open>Sequences of selections\<close>

fun select_seq ::
  "nat \<Rightarrow> endpoint_state list \<Rightarrow> load_balancing_config \<Rightarrow> string option \<Rightarrow> usize \<Rightarrow> (nat option list \<times> usize) rust" where
  "select_seq 0 es lb key c = Ret ([], c)"
| "select_seq (Suc n) es lb key c =
     rust_bind (select_endpoint es lb key c) (\<lambda>(r, c').
       rust_bind (select_seq n es lb key c') (\<lambda>(rs, c''). Ret (r # rs, c'')))"

lemma select_seq_wrr:
  assumes "0 < sum_list (weights (available_endpoints es))"
    and "sum_list (weights (available_endpoints es)) < 2 ^ 32"
    and "unat c mod 2 ^ 32 + n \<le> 2 ^ 32"
  shows "select_seq n es WeightedRoundRobin key c =
    Ret (map (\<lambda>k. Some (fst (available_endpoints es ! slot (weights (available_endpoints es))
        (k mod sum_list (weights (available_endpoints es)))))) [unat c mod 2 ^ 32..<unat c mod 2 ^ 32 + n],
      c + word_of_nat n)"
  using assms(3)
proof (induction n arbitrary: c)
  case (Suc n)
  let ?av = "available_endpoints es"
  have sel: "select_endpoint es WeightedRoundRobin key c =
      Ret (Some (fst (?av ! slot (weights ?av) (unat c mod 2 ^ 32 mod sum_list (weights ?av)))), c + 1)"
    using assms(1) wrr_pick_slot [OF assms(1,2), of c]
    by (auto simp: select_endpoint_def select_with_def Let_def)
  show ?case
  proof (cases "n = 0")
    case True
    with sel show ?thesis by simp
  next
    case False
    have "(unat c + 1) mod 2 ^ 32 = unat c mod 2 ^ 32 + 1"
      using Suc.prems False by (simp add: mod_Suc)
    moreover have "unat (c + 1) mod 2 ^ 32 = (unat c + 1) mod 2 ^ 32"
      by (simp add: unat_word_ariths mod_mod_cancel)
    ultimately have c1: "unat (c + 1) mod 2 ^ 32 = unat c mod 2 ^ 32 + 1" by simp
    with Suc.prems have "unat (c + 1) mod 2 ^ 32 + n \<le> 2 ^ 32" by simp
    from Suc.IH [OF this, unfolded c1] show ?thesis
      by (simp add: sel upt_conv_Cons add.assoc del: upt_Suc)
  qed
qed simp

lemma count_list_map_Some_fst:
  assumes "distinct (map fst xs)" "\<forall>p \<in> set ps. f p < length xs" "j < length xs"
  shows "count_list (map (\<lambda>p. Some (fst (xs ! f p))) ps) (Some (fst (xs ! j))) = length (filter (\<lambda>p. f p = j) ps)"
  using assms(2)
proof (induction ps)
  case (Cons p ps)
  have "fst (xs ! f p) = fst (xs ! j) \<longleftrightarrow> f p = j"
    using nth_eq_iff_index_eq [OF assms(1), of "f p" j] Cons.prems assms(3) by simp
  with Cons show ?case by simp
qed simp

lemma distinct_available: "distinct (map fst (available_endpoints es))"
proof -
  have "distinct (map fst (enumerate 0 es))" by simp
  then show ?thesis unfolding available_endpoints_def by (rule distinct_map_filter)
qed

text \<open>The total effective weight of a pool, and the share of one endpoint.\<close>

definition total_weight :: "endpoint_state list \<Rightarrow> nat" where
  "total_weight es = sum_list (weights (available_endpoints es))"

lemma sum_list_filter_zero:
  "(\<And>x. x \<in> set xs \<Longrightarrow> \<not> P x \<Longrightarrow> f x = (0 :: nat)) \<Longrightarrow> sum_list (map f (filter P xs)) = sum_list (map f xs)"
  by (induction xs) auto

lemma effective_weight_unavailable: "\<not> is_available e \<Longrightarrow> effective_weight e = 0"
  by (simp add: is_available_def effective_weight_def)

lemma total_weight_eq: "total_weight es = sum_list (map (\<lambda>e. unat (effective_weight e)) es)"
proof -
  have "total_weight es = sum_list (map (\<lambda>ep. unat (effective_weight (snd ep))) (enumerate 0 es))"
    unfolding total_weight_def available_endpoints_def
    by (rule sum_list_filter_zero) (simp add: effective_weight_unavailable)
  also have "map (\<lambda>ep. unat (effective_weight (snd ep))) (enumerate 0 es) =
      map (\<lambda>e. unat (effective_weight e)) (map snd (enumerate 0 es))" by (simp only: map_map comp_def)
  finally show ?thesis by simp
qed

lemma wrr_window_count:
  assumes "0 < total_weight es" "total_weight es < 2 ^ 32"
    and "unat c mod 2 ^ 32 + total_weight es \<le> 2 ^ 32" and "i < length es"
  shows "\<exists>rs c'. select_seq (total_weight es) es WeightedRoundRobin key c = Ret (rs, c') \<and>
    count_list rs (Some i) = unat (effective_weight (es ! i))"
proof -
  let ?av = "available_endpoints es" and ?t = "total_weight es" and ?c = "unat c mod 2 ^ 32"
  let ?f = "\<lambda>k. slot (weights ?av) (k mod ?t)"
  let ?rs = "map (\<lambda>k. Some (fst (?av ! ?f k))) [?c..<?c + ?t]"
  have run: "select_seq ?t es WeightedRoundRobin key c = Ret (?rs, c + word_of_nat ?t)"
    using select_seq_wrr [of es c ?t key] assms(1-3) by (simp add: total_weight_def)
  have slots: "\<forall>k \<in> set [?c..<?c + ?t]. ?f k < length ?av"
    using slot_less [of _ "weights ?av"] assms(1) by (simp add: total_weight_def)
  have "count_list ?rs (Some i) = unat (effective_weight (es ! i))"
  proof (cases "is_available (es ! i)")
    case True
    then have "(i, es ! i) \<in> set ?av" using assms(4) by (simp add: available_endpoints_iff)
    then obtain j where j: "j < length ?av" "?av ! j = (i, es ! i)" by (auto simp: in_set_conv_nth)
    have "count_list ?rs (Some i) = length (filter (\<lambda>k. ?f k = j) [?c..<?c + ?t])"
      using count_list_map_Some_fst [OF distinct_available slots j(1)] j(2) by simp
    also have "\<dots> = length (filter (\<lambda>p. slot (weights ?av) p = j) [0..<?t])"
      by (rule residues_window [of "\<lambda>p. slot (weights ?av) p = j"])
    also have "\<dots> = unat (effective_weight (es ! i))"
      using slot_count [of j "weights ?av"] j by (simp add: total_weight_def)
    finally show ?thesis .
  next
    case False
    have "Some i \<notin> set ?rs"
    proof
      assume "Some i \<in> set ?rs"
      then obtain k where "k \<in> set [?c..<?c + ?t]" "i = fst (?av ! ?f k)" by auto
      with slots have "(i, snd (?av ! ?f k)) \<in> set ?av" by (metis nth_mem prod.collapse)
      with False show False by (auto simp: available_endpoints_iff)
    qed
    then show ?thesis using False by (simp add: effective_weight_unavailable count_list_0_iff)
  qed
  with run show ?thesis by blast
qed

section \<open>Least connections and hashing\<close>

text \<open>The score as a number: connections times latency (times one while no latency is known), doubled for a degraded endpoint,
  and never more than the largest \<open>u64\<close>.\<close>

definition load_score :: "endpoint_state \<Rightarrow> nat" where
  "load_score e =
     min ((if health_state e = Degraded then 2 else 1) *
          (unat (es_active_conns e) * (if es_ewma_latency e = 0 then 1 else unat (es_ewma_latency e)))) (2 ^ 64 - 1)"

lemma lc_score_load: "unat (lc_score e) = load_score e"
proof -
  let ?c = "es_active_conns e" and ?l = "es_ewma_latency e"
  have "unat ?c \<le> 2 ^ 64 - 1" using unat_lt_exp [of ?c] by simp
  then have base: "unat (if ?l = 0 then ?c else saturating_mul ?c ?l) =
      min (unat ?c * (if ?l = 0 then 1 else unat ?l)) (2 ^ 64 - 1)"
    by (auto simp: unat_saturating_mul min_def)
  have "min (min x m * 2) m = min (2 * x) m" for x m :: nat by (auto simp: min_def)
  with base show ?thesis unfolding lc_score_def load_score_def Let_def
    by (cases "health_state e = Degraded") (simp_all only: unat_saturating_mul if_True if_False, simp_all)
qed

lemma lc_score_le_iff: "lc_score e \<le> lc_score e' \<longleftrightarrow> load_score e \<le> load_score e'"
  "lc_score e < lc_score e' \<longleftrightarrow> load_score e < load_score e'"
  by (simp_all add: word_le_nat_alt word_less_nat_alt lc_score_load)

lemma min_by_key_first:
  "min_by_key f xs = Some m \<Longrightarrow> \<exists>ys zs. xs = ys @ m # zs \<and> (\<forall>y \<in> set ys. f m < f y)"
proof (induction xs arbitrary: m)
  case (Cons x xs)
  show ?case
  proof (cases "min_by_key f xs")
    case None
    with Cons.prems show ?thesis by (intro exI [of _ "[]"] exI [of _ xs]) simp
  next
    case (Some y)
    from Cons.IH [OF this] obtain ys zs where xs: "xs = ys @ y # zs" "\<forall>z \<in> set ys. f y < f z" by blast
    show ?thesis
    proof (cases "f y < f x")
      case True
      with Cons.prems Some have "m = y" by simp
      with xs True show ?thesis by (intro exI [of _ "x # ys"] exI [of _ zs]) simp
    next
      case False
      with Cons.prems Some show ?thesis by (intro exI [of _ "[]"] exI [of _ xs]) simp
    qed
  qed
qed simp

lemma available_endpoints_sorted: "sorted_wrt (\<lambda>p q. fst p < fst q) (available_endpoints es)"
  unfolding available_endpoints_def
  by (intro sorted_wrt_filter) (simp add: enumerate_eq_zip sorted_wrt_iff_nth_less)

lemma select_lc_min:
  assumes "select_endpoint es (LeastConnections a) key c = Ret (Some i, c')"
  shows "c' = c \<and> i < length es \<and> is_available (es ! i) \<and>
    (\<forall>j < length es. is_available (es ! j) \<longrightarrow>
       load_score (es ! i) \<le> load_score (es ! j) \<and> (j < i \<longrightarrow> load_score (es ! i) < load_score (es ! j)))"
proof -
  let ?av = "available_endpoints es"
  from assms obtain e where m: "min_by_key (\<lambda>ep. lc_score (snd ep)) ?av = Some (i, e)" and c: "c' = c"
    by (auto simp: select_endpoint_def select_with_def lc_pick_def Let_def split: if_splits)
  obtain ys zs where av: "?av = ys @ (i, e) # zs" and ys: "\<forall>p \<in> set ys. lc_score e < lc_score (snd p)"
    using min_by_key_first [OF m] by auto
  have i: "i < length es" "e = es ! i" "is_available e" using av available_endpoints_iff [of i e es] by auto
  have "load_score (es ! i) \<le> load_score (es ! j) \<and> (j < i \<longrightarrow> load_score (es ! i) < load_score (es ! j))"
    if j: "j < length es" "is_available (es ! j)" for j
  proof -
    have mem: "(j, es ! j) \<in> set ?av" using j by (simp add: available_endpoints_iff)
    have "load_score e \<le> load_score (es ! j)" using min_by_key_Some [OF m] mem by (fastforce simp: lc_score_le_iff)
    moreover have "(j, es ! j) \<in> set ys" if "j < i"
      using mem that available_endpoints_sorted [of es] unfolding av by (auto simp: sorted_wrt_append)
    ultimately show ?thesis using ys i(2) by (fastforce simp: lc_score_le_iff)
  qed
  with i c show ?thesis by auto
qed

lemma ch_ring_nonzero:
  assumes "xs \<noteq> []" "length xs * unat v < 2 ^ 64" "v \<noteq> 0"
  shows "unat (word_of_nat (length xs) * v :: usize) = length xs * unat v"
    and "word_of_nat (length xs) * v \<noteq> (0 :: usize)"
proof -
  have "unat v \<ge> 1" using assms(3) by (simp add: Suc_le_eq unat_gt_0)
  then have "length xs \<le> length xs * unat v" by simp
  with assms(2) have "length xs < 2 ^ 64" by linarith
  then show eq: "unat (word_of_nat (length xs) * v :: usize) = length xs * unat v"
    using assms(2) by (simp add: unat_word_ariths unat_word_of_nat)
  have "length xs * unat v \<noteq> 0" using assms(1) \<open>unat v \<ge> 1\<close> by simp
  with eq show "word_of_nat (length xs) * v \<noteq> (0 :: usize)" by (metis unat_0)
qed

lemma ch_pick_block:
  assumes "xs \<noteq> []" "length xs * unat v < 2 ^ 64" "v \<noteq> 0"
  shows "ch_pick key v xs c =
    Ret (Some (xs ! (unat (fnv1a_64 (as_bytes (case key of None \<Rightarrow> ''default'' | Some k \<Rightarrow> k)))
        mod (length xs * unat v) div unat v)), c)"
proof -
  let ?h = "fnv1a_64 (as_bytes (case key of None \<Rightarrow> ''default'' | Some k \<Rightarrow> k))"
  let ?i = "unat ?h mod (length xs * unat v) div unat v"
  note ring = ch_ring_nonzero [OF assms]
  have "unat v > 0" using assms(3) by (simp add: unat_gt_0)
  then have i: "?i < length xs"
    using assms(1) by (simp add: div_less_iff_less_mult)
  have "length xs < 2 ^ 64" using assms(2) \<open>unat v > 0\<close>
    by (metis le_less_trans mult.right_neutral mult_le_mono2 Suc_leI One_nat_def)
  then have "unat (?h mod (word_of_nat (length xs) * v) div v mod word_of_nat (length xs)) = ?i"
    using i by (simp add: unat_mod unat_div ring(1) unat_word_of_nat)
  with ring(2) i show ?thesis by (simp add: ch_pick_def Let_def)
qed

section \<open>Properties\<close>

definition ex_endpoints :: "endpoint_state list" where
  "ex_endpoints =
     [endpoint_new ''a'' 5,
      (endpoint_new ''b'' 4)\<lparr>es_health := health_as_u8 Degraded\<rparr>,
      (endpoint_new ''c'' 7)\<lparr>es_health := health_as_u8 Unhealthy\<rparr>]"

lemma ex_endpoints_available:
  "map is_available ex_endpoints = [True, True, False]"
  "map effective_weight ex_endpoints = [5, 2, 0]"
  "map lc_score ex_endpoints = [0, 0, 0]"
  by (simp_all add: ex_endpoints_def is_available_def effective_weight_def lc_score_def health_state_def
      endpoint_new_def health_from_u8_def saturating_mul_def max_def word_le_nat_alt unat_div)

lemma length_available_filter: "length (available_endpoints es) = length (filter is_available es)"
proof -
  have "filter is_available (map snd (enumerate 0 es)) =
      map snd (filter (is_available \<circ> snd) (enumerate 0 es))" by (rule filter_map)
  then have "length (filter is_available es) = length (filter (is_available \<circ> snd) (enumerate 0 es))"
    by simp
  then show ?thesis by (simp add: available_endpoints_def comp_def)
qed

lemma select_endpoint_sound:
  assumes "length es < 2 ^ 64" and "select_endpoint es lb key c = Ret (r, c')"
  shows "case r of Some i \<Rightarrow> i < length es \<and> is_available (es ! i)
    | None \<Rightarrow> (\<forall>e \<in> set es. \<not> is_available e)"
proof (cases lb)
  case WeightedRoundRobin
  with assms show ?thesis by (intro wrr.select_contract) (simp_all add: select_endpoint_def)
next
  case (LeastConnections a)
  with assms show ?thesis by (intro lc.select_contract) (simp_all add: select_endpoint_def)
next
  case (ConsistentHashing h v)
  with assms show ?thesis
    by (intro ch.select_contract [of es key v c r c']) (simp_all add: select_endpoint_def)
qed

text \<open>C32: Traffic only goes to endpoints in rotation. Whatever the algorithm, a selected endpoint is one of
  the pool that is not unhealthy, and no endpoint is selected only when all are unhealthy.\<close>

theorem select_endpoint_contract:
  assumes "length es < 2 ^ 64" and "select_endpoint es lb key c = Ret (r, c')"
  shows "case r of Some i \<Rightarrow> i < length es \<and> is_available (es ! i)
    | None \<Rightarrow> (\<forall>e \<in> set es. \<not> is_available e)"
  using assms by (rule select_endpoint_sound)

theorem select_endpoint_contract_witness:
  "\<exists>i c'. select_endpoint ex_endpoints (LeastConnections 0) None 0 = Ret (Some i, c') \<and>
     i < length ex_endpoints \<and> is_available (ex_endpoints ! i)"
proof -
  have "available_endpoints ex_endpoints \<noteq> []"
    using ex_endpoints_available(1) length_available_filter [of ex_endpoints]
    by (auto simp: ex_endpoints_def)
  then obtain i c' where sel: "select_endpoint ex_endpoints (LeastConnections 0) None 0 = Ret (Some i, c')"
    by (cases "min_by_key (\<lambda>ep. lc_score (snd ep)) (available_endpoints ex_endpoints)")
      (auto simp: select_endpoint_def select_with_def lc_pick_def Let_def)
  have "length ex_endpoints < 2 ^ 64" by (simp add: ex_endpoints_def)
  from select_endpoint_contract [OF this sel] sel show ?thesis by auto
qed

text \<open>Selection panics exactly when the algorithm is consistent hashing, some endpoint is in rotation
  and the product of the number of endpoints in rotation and \<open>virtual_nodes\<close> is zero modulo \<open>2\<^sup>6\<^sup>4\<close>: in
  particular always when \<open>virtual_nodes\<close> is configured as 0, which validation accepts.\<close>

theorem select_endpoint_panics:
  "select_endpoint es lb key c = Panic \<longleftrightarrow>
     (\<exists>h v. lb = ConsistentHashing h v \<and> filter is_available es \<noteq> [] \<and>
        word_of_nat (length (filter is_available es)) * v = 0)"
  by (cases lb)
    (auto simp: select_endpoint_def select_with_def wrr_pick_def lc_pick_def ch_pick_def Let_def
      simp flip: length_available_filter length_greater_0_conv)

text \<open>C4: Weighted round robin is exactly fair. While the endpoints' health does not change, any window of
  as many consecutive selections as the total effective weight picks every endpoint exactly as often as
  its effective weight: its configured weight when healthy, half of it (at least one) when degraded, never
  when unhealthy. (The total fits 32 bits and the 32-bit view of the counter does not wrap in the window.)\<close>

theorem wrr_exactly_fair:
  assumes "t = sum_list (map (\<lambda>e. unat (effective_weight e)) es)" and "0 < t" and "t < 2 ^ 32"
    and "unat c mod 2 ^ 32 + t \<le> 2 ^ 32" and "i < length es"
  shows "\<exists>rs c'. select_seq t es WeightedRoundRobin key c = Ret (rs, c') \<and>
    count_list rs (Some i) = unat (effective_weight (es ! i))"
  using wrr_window_count [of es c i key] assms by (simp add: total_weight_eq)

theorem wrr_exactly_fair_witness:
  "\<exists>rs c'. select_seq 7 ex_endpoints WeightedRoundRobin None 3 = Ret (rs, c') \<and>
    count_list rs (Some 1) = 2"
proof -
  have w: "map (\<lambda>e. unat (effective_weight e)) ex_endpoints = [5, 2, 0]"
    using arg_cong [OF ex_endpoints_available(2), of "map unat"] by (simp add: comp_def)
  have "unat (effective_weight (ex_endpoints ! 1)) = 2"
    using arg_cong [OF w, of "\<lambda>xs. xs ! 1"] by (simp add: ex_endpoints_def)
  moreover have "1 < length ex_endpoints" by (simp add: ex_endpoints_def)
  ultimately show ?thesis using wrr_exactly_fair [of 7 ex_endpoints 3 1 None] by (simp add: w)
qed

text \<open>C33: Least connections picks the first endpoint in rotation whose score is minimal among the endpoints in rotation; the
  score is the number of connections times the average latency in milliseconds (times one while none is known), doubled for
  a degraded endpoint, up to the largest \<open>u64\<close>. It always picks one if there is one, and leaves the round-robin
  counter alone. Among equal scores the one listed first wins, degraded or not: an idle endpoint has score zero, doubled or not,
  so an idle degraded endpoint listed first is picked before idle healthy ones, although the code's comment says that
  degraded endpoints are chosen last among equals.\<close>

theorem least_connections_minimal:
  assumes "\<exists>e \<in> set es. is_available e"
  shows "\<exists>i. select_endpoint es (LeastConnections a) key c = Ret (Some i, c) \<and> i < length es \<and> is_available (es ! i) \<and>
    (\<forall>j < length es. is_available (es ! j) \<longrightarrow>
       load_score (es ! i) \<le> load_score (es ! j) \<and> (j < i \<longrightarrow> load_score (es ! i) < load_score (es ! j)))"
proof -
  have "available_endpoints es \<noteq> []" using assms by (simp add: available_endpoints_Nil)
  then obtain i where "select_endpoint es (LeastConnections a) key c = Ret (Some i, c)"
    by (cases "min_by_key (\<lambda>ep. lc_score (snd ep)) (available_endpoints es)")
      (auto simp: select_endpoint_def select_with_def lc_pick_def Let_def)
  with select_lc_min [OF this] show ?thesis by blast
qed

theorem least_connections_minimal_witness:
  "\<exists>i. select_endpoint ex_endpoints (LeastConnections 0) None 9 = Ret (Some i, 9) \<and>
     load_score (ex_endpoints ! i) \<le> load_score (ex_endpoints ! 0)"
proof -
  have av: "is_available (ex_endpoints ! 0)" and len: "0 < length ex_endpoints"
    using ex_endpoints_available(1) by (simp_all add: ex_endpoints_def)
  then have "\<exists>e \<in> set ex_endpoints. is_available e" by force
  from least_connections_minimal [OF this, of 0 None 9] av len show ?thesis by blast
qed

text \<open>Consistent hashing is stateless: the endpoint is a function of the key and the endpoints in
  rotation alone (block number \<open>hash mod (n * v) div v\<close> of the FNV-1a hash), and the counter is unchanged.\<close>

theorem consistent_hashing_block:
  assumes "filter is_available es \<noteq> []" and "length (filter is_available es) * unat v < 2 ^ 64" and "v \<noteq> 0"
  shows "select_endpoint es (ConsistentHashing h v) (Some k) c =
    Ret (Some (fst (available_endpoints es ! (unat (fnv1a_64 (as_bytes k))
      mod (length (filter is_available es) * unat v) div unat v))), c)"
proof -
  have "available_endpoints es \<noteq> []" using assms(1) length_available_filter [of es] by auto
  with ch_pick_block [OF this, of v "Some k" c] assms(2,3) show ?thesis
    by (simp add: select_endpoint_def select_with_def Let_def length_available_filter)
qed

theorem consistent_hashing_block_witness:
  "\<exists>i. select_endpoint ex_endpoints (ConsistentHashing ''x-user'' 150) (Some ''d'') 7 = Ret (Some i, 7)"
proof -
  have f: "filter is_available ex_endpoints = take 2 ex_endpoints"
    using ex_endpoints_available(1) by (simp add: ex_endpoints_def)
  then show ?thesis
    using consistent_hashing_block [of ex_endpoints 150 "''x-user''" "''d''" 7]
    by (simp add: ex_endpoints_def)
qed

text \<open>The hashing is not consistent: with the default 150 virtual nodes, taking the third of three
  endpoints out of rotation moves the key \<open>d\<close> from the first endpoint to the second, although the first
  one stays in rotation.\<close>

theorem consistent_hashing_moves_keys:
  "let e = endpoint_new ''10.0.0.1:80'' 1; down = e\<lparr>es_health := health_as_u8 Unhealthy\<rparr>
   in select_endpoint [e, e, e] (ConsistentHashing ''x-user'' default_vnodes) (Some ''d'') 0 = Ret (Some 0, 0) \<and>
      select_endpoint [e, e, down] (ConsistentHashing ''x-user'' default_vnodes) (Some ''d'') 0 = Ret (Some 1, 0)"
  by (simp add: select_endpoint_def select_with_def ch_pick_def available_endpoints_def is_available_def
      health_state_def health_from_u8_def endpoint_new_def default_vnodes_def fnv1a_64_def as_bytes_def)

end
