(* ===== verification/Upstream.thy ===== *)
theory Upstream
  imports Balance Libs Examples "HOL-Library.Multiset"
begin

text \<open>
  Upstream pools (\<open>gateway-core/src/upstream.rs\<close>, the second half, with \<open>error.rs\<close> and \<open>health.rs\<close>): sending a
  request to a selected endpoint with retries, back-off and jitter, the latency average, the registry of
  pools and the health-check tasks.

  The hyper client is the argument \<open>client\<close>: it maps a request and the number of the attempt to what the
  attempt yields under the request timeout. The clock's sub-second nanoseconds before each back-off are
  the argument \<open>nanos\<close>, the elapsed time of a call is an argument, and what other tasks do to the pool
  while a call waits is a function on pools. The sleeps and the requests sent are part of the result.

  HTTP messages are records of the fields the gateway reads or changes.
\<close>

section \<open>Messages and errors\<close>

datatype http_version = Http09 | Http10 | Http11 | Http2 | Http3

record ('hm, 'u) http_request =
  rq_method :: string
  rq_uri :: 'u
  rq_version :: http_version
  rq_headers :: 'hm
  rq_body :: bytes

record 'hm http_response =
  rs_status :: u16
  rs_headers :: 'hm
  rs_body :: bytes

datatype core_error =
    CoreIo string
  | CoreTls string
  | UpstreamError string string
  | UpstreamTimeout u64
  | NoHealthyEndpoints string
  | BindError string string
  | HyperError string
  | HttpError string
  | CoreMetrics string
  | CoreConfig config_error
  | DrainTimeout
  | BodyTooLarge usize
  | ConcurrencyLimitExceeded string

text \<open>What one attempt yields: the timeout, an error of the client, or a response whose body is then
  collected, which may fail too.\<close>

datatype 'hm attempt =
    Elapsed
  | ClientError string
  | Received u16 'hm "string + bytes"

type_synonym ('hm, 'u) http_client = "('hm, 'u) http_request \<Rightarrow> nat \<Rightarrow> 'hm attempt"

section \<open>Requests\<close>

definition rewrite_uri :: "('hm, 'hv, 'u) http_lib \<Rightarrow> string \<Rightarrow> 'u \<Rightarrow> 'u rust" where
  "rewrite_uri L upstream_addr original =
     (let path_query = (case uri_path_and_query L original of None \<Rightarrow> ''/'' | Some pq \<Rightarrow> pq)
      in case uri_parse L (''http://'' @ upstream_addr @ path_query) of
           Some u \<Rightarrow> Ret u
         | None \<Rightarrow> (case uri_parse L (''http://'' @ upstream_addr @ ''/'') of
                     Some u \<Rightarrow> Ret u
                   | None \<Rightarrow> Panic))"

definition clone_request :: "('hm, 'hv, 'u) http_lib \<Rightarrow> ('hm, 'u) http_request \<Rightarrow> ('hm, 'u) http_request" where
  "clone_request L req =
     \<lparr>rq_method = rq_method req, rq_uri = rq_uri req, rq_version = rq_version req,
      rq_headers = foldl (\<lambda>h (k, v). hm_append L h k v) (hm_new L) (hm_iter L (rq_headers req)),
      rq_body = rq_body req\<rparr>"

section \<open>Latency\<close>

definition update_ewma :: "u64 \<Rightarrow> u64 \<Rightarrow> u64" where
  "update_ewma old new_sample_ms =
     (if old = 0 then new_sample_ms else (2 * new_sample_ms + (10 - 2) * old) div 10)"

section \<open>Retries\<close>

definition retry_sleep_ms :: "duration \<Rightarrow> nat \<Rightarrow> u64 \<Rightarrow> u64" where
  "retry_sleep_ms base_backoff attempt nanos =
     (let base_ms = word_of_nat (as_millis base_backoff) * 2 ^ attempt;
          quarter = max (base_ms div 4) 1;
          jitter = nanos mod (quarter * 2) - quarter
      in saturating_add base_ms jitter)"

record upstream_pool =
  up_name :: string
  up_config :: upstream_config
  up_endpoints :: "endpoint_state list"
  up_rr_counter :: usize

definition pool_new :: "string \<Rightarrow> upstream_config \<Rightarrow> upstream_pool" where
  "pool_new name config =
     \<lparr>up_name = name, up_config = config,
      up_endpoints = map (\<lambda>e. endpoint_new (ec_address e) (ec_weight e)) (filter ec_active (uc_endpoints config)),
      up_rr_counter = 0\<rparr>"

text \<open>The loop of \<open>send_with_retry\<close> from attempt number \<open>attempt\<close>: the result, the requests sent and the
  sleeps.\<close>

function retry_loop ::
  "('hm, 'u) http_client \<Rightarrow> (nat \<Rightarrow> u64) \<Rightarrow> string \<Rightarrow> string \<Rightarrow> duration \<Rightarrow> u16 list \<Rightarrow> duration \<Rightarrow>
   ('hm, 'u) http_request \<Rightarrow> nat \<Rightarrow> nat \<Rightarrow>
   (core_error + 'hm http_response) \<times> ('hm, 'u) http_request list \<times> u64 list" where
  "retry_loop client nanos name address timeout retry_statuses base_backoff attempt_req max_attempts attempt =
     (if attempt < max_attempts then
        (case client attempt_req attempt of
           Elapsed \<Rightarrow> (Inl (UpstreamTimeout (as_secs timeout)), [attempt_req], [])
         | ClientError e \<Rightarrow> (Inl (UpstreamError address e), [attempt_req], [])
         | Received status headers body \<Rightarrow>
             (if status \<in> set retry_statuses \<and> attempt + 1 < max_attempts then
                (let (r, sent, sleeps) =
                       retry_loop client nanos name address timeout retry_statuses base_backoff attempt_req
                         max_attempts (attempt + 1)
                 in (r, attempt_req # sent, retry_sleep_ms base_backoff attempt (nanos attempt) # sleeps))
              else
                (case body of
                   Inl e \<Rightarrow> (Inl (UpstreamError address e), [attempt_req], [])
                 | Inr body_bytes \<Rightarrow>
                     (Inr \<lparr>rs_status = status, rs_headers = headers, rs_body = body_bytes\<rparr>, [attempt_req], []))))
      else (Inl (NoHealthyEndpoints name), [], []))"
  by pat_completeness auto
termination
  by (relation "measure (\<lambda>(client, nanos, name, address, timeout, sts, base, rq, m, a). m - a)") auto

declare retry_loop.simps [simp del]

definition send_with_retry ::
  "('hm, 'hv, 'u) http_lib \<Rightarrow> ('hm, 'u) http_client \<Rightarrow> (nat \<Rightarrow> u64) \<Rightarrow> upstream_pool \<Rightarrow>
   ('hm, 'u) http_request \<Rightarrow> string \<Rightarrow> retry_config option \<Rightarrow>
   (core_error + 'hm http_response) \<times> ('hm, 'u) http_request list \<times> u64 list" where
  "send_with_retry L client nanos pool req address retry =
     (let max_attempts = (case retry of None \<Rightarrow> 1 | Some r \<Rightarrow> rc_max_attempts r);
          retry_statuses = (case retry of None \<Rightarrow> [] | Some r \<Rightarrow> rc_on_statuses r);
          base_backoff = (case retry of None \<Rightarrow> from_millis 50 | Some r \<Rightarrow> rc_base_backoff r);
          timeout = to_request (uc_timeouts (up_config pool))
      in retry_loop client nanos (up_name pool) address timeout retry_statuses base_backoff
           (clone_request L req) (unat max_attempts) 0)"

section \<open>Sending\<close>

text \<open>\<open>send\<close> selects an endpoint and counts the connection, waits for \<open>send_with_retry\<close> while other tasks
  may change the pool (\<open>others\<close>), then uncounts it and folds the elapsed time into the average. The two
  halves are operations of their own, since calls interleave. The result lists the requests that were put on the wire,
  one per attempt. The code rewrites the URI just before it counts the
  connection; a rewrite that fails panics, which ends the process, so the order of the two does not matter.\<close>

definition conns_add :: "u64 \<Rightarrow> endpoint_state \<Rightarrow> endpoint_state" where
  "conns_add n e = e\<lparr>es_active_conns := es_active_conns e + n\<rparr>"

definition update_endpoint :: "nat \<Rightarrow> (endpoint_state \<Rightarrow> endpoint_state) \<Rightarrow> upstream_pool \<Rightarrow> upstream_pool" where
  "update_endpoint i f pool = pool\<lparr>up_endpoints := (up_endpoints pool)[i := f (up_endpoints pool ! i)]\<rparr>"

definition send_begin :: "upstream_pool \<Rightarrow> string option \<Rightarrow> ((core_error + nat) \<times> upstream_pool) rust" where
  "send_begin pool hash_key =
     rust_bind (select_endpoint (up_endpoints pool) (uc_load_balancing (up_config pool)) hash_key (up_rr_counter pool))
       (\<lambda>(r, counter).
          (let pool = pool\<lparr>up_rr_counter := counter\<rparr>
           in case r of
                None \<Rightarrow> Ret (Inl (NoHealthyEndpoints (up_name pool)), pool)
              | Some i \<Rightarrow> Ret (Inr i, update_endpoint i (conns_add 1) pool)))"

definition send_end :: "nat \<Rightarrow> duration \<Rightarrow> upstream_pool \<Rightarrow> upstream_pool" where
  "send_end i elapsed pool =
     update_endpoint i (\<lambda>e. let e = conns_add (- 1) e
        in e\<lparr>es_ewma_latency := update_ewma (es_ewma_latency e) (word_of_nat (as_millis elapsed))\<rparr>) pool"

definition send ::
  "('hm, 'hv, 'u) http_lib \<Rightarrow> ('hm, 'u) http_client \<Rightarrow> (nat \<Rightarrow> u64) \<Rightarrow> duration \<Rightarrow>
   (upstream_pool \<Rightarrow> upstream_pool) \<Rightarrow> upstream_pool \<Rightarrow> ('hm, 'u) http_request \<Rightarrow> string option \<Rightarrow>
   ((core_error + ('hm http_response \<times> duration)) \<times> ('hm, 'u) http_request list \<times> upstream_pool) rust" where
  "send L client nanos elapsed others pool req hash_key =
     rust_bind (send_begin pool hash_key) (\<lambda>(r, pool1).
       case r of
         Inl e \<Rightarrow> Ret (Inl e, [], pool1)
       | Inr i \<Rightarrow>
           (let address = es_address (up_endpoints pool1 ! i)
            in rust_bind (rewrite_uri L address (rq_uri req)) (\<lambda>uri.
                 let (result, attempts, _) = send_with_retry L client nanos pool1 (req\<lparr>rq_uri := uri\<rparr>) address
                                        (uc_retry (up_config pool1))
                 in Ret (map_sum id (\<lambda>r. (r, elapsed)) result, attempts, send_end i elapsed (others pool1)))))"

section \<open>Registry\<close>

record upstream_registry =
  ur_pools :: "upstream_pool hash_map"

definition registry_build :: "gateway_config \<Rightarrow> upstream_registry" where
  "registry_build cfg = \<lparr>ur_pools = map (\<lambda>(name, upstream_cfg). (name, pool_new name upstream_cfg)) (gc_upstreams cfg)\<rparr>"

definition registry_get :: "upstream_registry \<Rightarrow> string \<Rightarrow> upstream_pool option" where
  "registry_get reg name = map_of (ur_pools reg) name"

definition registry_iter :: "upstream_registry \<Rightarrow> (string \<times> upstream_pool) list" where
  "registry_iter reg = ur_pools reg"

section \<open>Health-check tasks\<close>

text \<open>One task per endpoint of a pool with a health check: the pool's name, the endpoint's index and the
  settings.\<close>

definition pool_tasks :: "string \<times> upstream_pool \<Rightarrow> (string \<times> nat \<times> health_check_config) list" where
  "pool_tasks = (\<lambda>(upstream_name, pool).
     case uc_health_check (up_config pool) of
       None \<Rightarrow> []
     | Some hc_cfg \<Rightarrow> map (\<lambda>i. (upstream_name, i, hc_cfg)) [0..<length (up_endpoints pool)])"

definition spawn_health_checks :: "upstream_registry \<Rightarrow> (string \<times> nat \<times> health_check_config) list" where
  "spawn_health_checks reg = concat (map pool_tasks (registry_iter reg))"

text \<open>One round of the loop: the outcome of building and sending the probe, the clock at the mark; the
  result is the gauge value that is recorded, if any.\<close>

datatype probe_result =
    ProbeNotBuilt string
  | ProbeStatus u16
  | ProbeError string
  | ProbeTimedOut

definition status_is_success :: "u16 \<Rightarrow> bool" where
  "status_is_success s \<longleftrightarrow> 200 \<le> s \<and> s < 300"

definition health_check_round ::
  "health_check_config \<Rightarrow> u64 \<Rightarrow> probe_result \<Rightarrow> endpoint_state \<Rightarrow> f64 option \<times> endpoint_state" where
  "health_check_round cfg now result e =
     (case result of
        ProbeNotBuilt _ \<Rightarrow> (None, e)
      | ProbeStatus status \<Rightarrow>
          (let (new_state, e') = (if status_is_success status then mark_success cfg now e else mark_failure cfg now e)
           in (Some (as_gauge_value new_state), e'))
      | ProbeError _ \<Rightarrow> (let (new_state, e') = mark_failure cfg now e in (Some (as_gauge_value new_state), e'))
      | ProbeTimedOut \<Rightarrow> (let (new_state, e') = mark_failure cfg now e in (Some (as_gauge_value new_state), e')))"

definition health_check_url :: "health_check_config \<Rightarrow> endpoint_state \<Rightarrow> string" where
  "health_check_url cfg e = ''http://'' @ es_address e @ hc_path cfg"

section \<open>Retries: reference behaviour\<close>

text \<open>The attempts that make the loop go on, the number of the attempt it ends with, and what that attempt
  gives.\<close>

fun retryable :: "u16 list \<Rightarrow> 'hm attempt \<Rightarrow> bool" where
  "retryable sts (Received st hs b) = (st \<in> set sts)"
| "retryable sts _ = False"

definition final_attempt :: "(nat \<Rightarrow> 'hm attempt) \<Rightarrow> u16 list \<Rightarrow> nat \<Rightarrow> nat" where
  "final_attempt att sts m = length (takeWhile (\<lambda>k. retryable sts (att k)) [0..<m - 1])"

fun attempt_outcome :: "string \<Rightarrow> duration \<Rightarrow> 'hm attempt \<Rightarrow> core_error + 'hm http_response" where
  "attempt_outcome a t Elapsed = Inl (UpstreamTimeout (as_secs t))"
| "attempt_outcome a t (ClientError e) = Inl (UpstreamError a e)"
| "attempt_outcome a t (Received st hs (Inl e)) = Inl (UpstreamError a e)"
| "attempt_outcome a t (Received st hs (Inr b)) = Inr \<lparr>rs_status = st, rs_headers = hs, rs_body = b\<rparr>"

lemma retry_loop_stop:
  assumes "a < m" and "\<not> (retryable sts (client rq a) \<and> a + 1 < m)"
  shows "retry_loop client nanos nm ad t sts b rq m a = (attempt_outcome ad t (client rq a), [rq], [])"
  using assms by (subst retry_loop.simps) (auto split: attempt.splits sum.splits)

lemma retry_loop_again:
  assumes "retryable sts (client rq a)" and "a + 1 < m"
  shows "retry_loop client nanos nm ad t sts b rq m a =
    (case retry_loop client nanos nm ad t sts b rq m (Suc a) of
       (r, sent, sleeps) \<Rightarrow> (r, rq # sent, retry_sleep_ms b a (nanos a) # sleeps))"
  using assms by (subst retry_loop.simps) (auto split: attempt.splits)

lemma retry_loop_from:
  assumes "a < m" and "k = length (takeWhile (\<lambda>k. retryable sts (client rq k)) [a..<m - 1])"
  shows "retry_loop client nanos nm ad t sts b rq m a =
    (attempt_outcome ad t (client rq (a + k)), replicate (Suc k) rq,
     map (\<lambda>j. retry_sleep_ms b j (nanos j)) [a..<a + k])"
  using assms
proof (induction "m - a" arbitrary: a k)
  case (Suc d)
  show ?case
  proof (cases "retryable sts (client rq a) \<and> a + 1 < m")
    case True
    let ?k = "length (takeWhile (\<lambda>k. retryable sts (client rq k)) [Suc a..<m - 1])"
    have "a < m - 1" using True by linarith
    then have "[a..<m - 1] = a # [Suc a..<m - 1]" by (rule upt_conv_Cons)
    then have k: "k = Suc ?k" using True Suc.prems(2) by simp
    have "retry_loop client nanos nm ad t sts b rq m (Suc a) =
      (attempt_outcome ad t (client rq (Suc a + ?k)), replicate (Suc ?k) rq,
       map (\<lambda>j. retry_sleep_ms b j (nanos j)) [Suc a..<Suc a + ?k])"
      using Suc.hyps(1) [of "Suc a" ?k] Suc.hyps(2) True by simp
    then show ?thesis using True by (simp add: retry_loop_again k upt_conv_Cons del: upt_Suc)
  next
    case False
    then have "k = 0" using Suc.prems by (cases "a < m - 1") (auto simp: upt_conv_Cons)
    with False Suc.prems show ?thesis by (simp add: retry_loop_stop)
  qed
qed simp

section \<open>Back-off\<close>

lemma unat_quarter:
  fixes base :: u64
  defines "q \<equiv> max (unat base div 4) 1"
  shows "unat (max (base div 4) 1) = q" and "unat (max (base div 4) 1 * 2) = 2 * q" and "2 * q < 2 ^ 64"
proof -
  have max: "unat (max a c) = max (unat a) (unat c)" for a c :: u64
    by (simp add: max_def word_le_nat_alt)
  have "unat base < 2 ^ 64" using unat_lt_exp [of base] by simp
  then show lt: "2 * q < 2 ^ 64" by (simp add: q_def)
  show q: "unat (max (base div 4) 1) = q" by (simp add: q_def max unat_div)
  show "unat (max (base div 4) 1 * 2) = 2 * q" using lt by (simp add: unat_word_ariths q)
qed

lemma unat_sub_wrap:
  fixes a b :: "'a::len word"
  assumes "unat a < unat b"
  shows "unat (a - b) = 2 ^ LENGTH('a) - (unat b - unat a)"
  using assms by (simp add: unat_sub_if_size word_size)

lemma retry_sleep_value:
  fixes n :: u64 and base :: duration and a :: nat
  defines "b \<equiv> unat (word_of_nat (as_millis base) * 2 ^ a :: u64)"
  defines "q \<equiv> max (b div 4) 1"
  shows "unat (retry_sleep_ms base a n) =
    (if unat n mod (2 * q) < q then 2 ^ 64 - 1 else min (b + (unat n mod (2 * q) - q)) (2 ^ 64 - 1))"
proof -
  let ?b = "word_of_nat (as_millis base) * 2 ^ a :: u64"
  let ?q = "max (?b div 4) 1"
  let ?j = "n mod (?q * 2) - ?q"
  note quarter = unat_quarter [of ?b, folded b_def, folded q_def]
  have r: "unat (n mod (?q * 2)) = unat n mod (2 * q)" by (simp add: unat_mod quarter)
  have sleep: "unat (retry_sleep_ms base a n) = min (b + unat ?j) (2 ^ 64 - 1)"
    by (simp add: retry_sleep_ms_def Let_def unat_saturating_add b_def)
  show ?thesis
  proof (cases "unat n mod (2 * q) < q")
    case True
    then have j: "unat ?j = 2 ^ 64 - (q - unat n mod (2 * q))"
      by (subst unat_sub_wrap) (simp_all add: r quarter)
    have "2 ^ 64 - 1 \<le> b + unat ?j"
    proof (cases "b < 4")
      case True
      then have "q = 1" by (simp add: q_def)
      then show ?thesis by (simp add: j)
    next
      case False
      then have "q \<le> b" by (simp add: q_def)
      moreover have "q \<le> 2 ^ 64" using quarter(3) by simp
      ultimately show ?thesis unfolding j by linarith
    qed
    then show ?thesis using True by (simp add: sleep)
  next
    case False
    then have "unat ?j = unat n mod (2 * q) - q"
      by (subst unat_sub) (simp_all add: word_le_nat_alt r quarter)
    with False show ?thesis by (simp add: sleep)
  qed
qed

section \<open>Interleaved calls on a pool\<close>

text \<open>A pool with the calls that are waiting for their endpoint and the calls that were dropped while they
  waited (their future was cancelled, so the code after the await never ran). Every step is one of the
  operations above or a health mark.\<close>

record pool_system =
  ps_pool :: upstream_pool
  ps_inflight :: "nat multiset"
  ps_dropped :: "nat multiset"

inductive pool_step :: "pool_system \<Rightarrow> pool_system \<Rightarrow> bool" where
  call: "send_begin (ps_pool s) key = Ret (Inr i, pool') \<Longrightarrow>
     pool_step s (s\<lparr>ps_pool := pool', ps_inflight := add_mset i (ps_inflight s)\<rparr>)"
| reject: "send_begin (ps_pool s) key = Ret (Inl e, pool') \<Longrightarrow> pool_step s (s\<lparr>ps_pool := pool'\<rparr>)"
| complete: "i \<in># ps_inflight s \<Longrightarrow>
     pool_step s (s\<lparr>ps_pool := send_end i elapsed (ps_pool s), ps_inflight := ps_inflight s - {#i#}\<rparr>)"
| drop_call: "i \<in># ps_inflight s \<Longrightarrow>
     pool_step s (s\<lparr>ps_inflight := ps_inflight s - {#i#}, ps_dropped := add_mset i (ps_dropped s)\<rparr>)"
| probe: "i < length (up_endpoints (ps_pool s)) \<Longrightarrow>
     pool_step s (s\<lparr>ps_pool := update_endpoint i (mark cfg p) (ps_pool s)\<rparr>)"

definition pool_start :: "string \<Rightarrow> upstream_config \<Rightarrow> pool_system" where
  "pool_start name cfg = \<lparr>ps_pool = pool_new name cfg, ps_inflight = {#}, ps_dropped = {#}\<rparr>"

definition pool_inv :: "pool_system \<Rightarrow> pool_system \<Rightarrow> bool" where
  "pool_inv s0 s \<longleftrightarrow>
     length (up_endpoints (ps_pool s)) = length (up_endpoints (ps_pool s0)) \<and>
     (\<forall>i \<in># ps_inflight s. i < length (up_endpoints (ps_pool s))) \<and>
     (\<forall>i < length (up_endpoints (ps_pool s)).
        es_active_conns (up_endpoints (ps_pool s) ! i) =
          word_of_nat (count (ps_inflight s) i + count (ps_dropped s) i))"

lemma up_endpoints_update [simp]:
  "up_endpoints (update_endpoint i f pool) = (up_endpoints pool)[i := f (up_endpoints pool ! i)]"
  "up_name (update_endpoint i f pool) = up_name pool"
  "up_config (update_endpoint i f pool) = up_config pool"
  "up_rr_counter (update_endpoint i f pool) = up_rr_counter pool"
  by (simp_all add: update_endpoint_def)

lemma send_begin_Inr:
  assumes "send_begin pool key = Ret (Inr i, pool')" and "length (up_endpoints pool) < 2 ^ 64"
  shows "i < length (up_endpoints pool) \<and> is_available (up_endpoints pool ! i) \<and>
    up_endpoints pool' = (up_endpoints pool)[i := conns_add 1 (up_endpoints pool ! i)] \<and>
    up_config pool' = up_config pool \<and> up_name pool' = up_name pool"
proof -
  from assms(1) obtain c where
    sel: "select_endpoint (up_endpoints pool) (uc_load_balancing (up_config pool)) key (up_rr_counter pool)
       = Ret (Some i, c)"
    and pool': "pool' = update_endpoint i (conns_add 1) (pool\<lparr>up_rr_counter := c\<rparr>)"
    by (cases "select_endpoint (up_endpoints pool) (uc_load_balancing (up_config pool)) key (up_rr_counter pool)")
      (auto simp: send_begin_def Let_def split: prod.splits option.splits)
  from select_endpoint_sound [OF assms(2) sel] pool' show ?thesis by simp
qed

lemma send_begin_Inl:
  assumes "send_begin pool key = Ret (Inl e, pool')"
  shows "e = NoHealthyEndpoints (up_name pool) \<and> up_endpoints pool' = up_endpoints pool"
  using assms
  by (cases "select_endpoint (up_endpoints pool) (uc_load_balancing (up_config pool)) key (up_rr_counter pool)")
    (auto simp: send_begin_def Let_def split: prod.splits option.splits)

lemma send_end_length [simp]: "length (up_endpoints (send_end i el pool)) = length (up_endpoints pool)"
  by (simp add: send_end_def)

lemma conns_send_end:
  "j < length (up_endpoints pool) \<Longrightarrow> es_active_conns (up_endpoints (send_end i el pool) ! j) =
     (if j = i then es_active_conns (up_endpoints pool ! j) - 1 else es_active_conns (up_endpoints pool ! j))"
  by (simp add: send_end_def conns_add_def Let_def nth_list_update)

lemma conns_of_pool_new:
  "i < length (up_endpoints (pool_new n c)) \<Longrightarrow> es_active_conns (up_endpoints (pool_new n c) ! i) = 0"
  by (simp add: pool_new_def endpoint_new_def)

lemma pool_inv_start: "pool_inv (pool_start n c) (pool_start n c)"
  by (simp add: pool_inv_def pool_start_def conns_of_pool_new)

lemma word_of_nat_pred: "0 < n \<Longrightarrow> (word_of_nat n :: 'a::len word) - 1 = word_of_nat (n - 1)"
  by (cases n) simp_all

lemma pool_inv_step [gw_inv]:
  assumes "pool_step s t" and "pool_inv s0 s" and "length (up_endpoints (ps_pool s)) < 2 ^ 64"
  shows "pool_inv s0 t"
  using assms
proof (cases rule: pool_step.cases)
  case (call key i pool')
  from send_begin_Inr [OF call(2) assms(3)] assms(2) call(1) show ?thesis
    by (auto simp: pool_inv_def conns_add_def nth_list_update)
next
  case (reject key e pool')
  with send_begin_Inl [OF reject(2)] assms(2) show ?thesis by (auto simp: pool_inv_def)
next
  case (complete i elapsed)
  then have "0 < count (ps_inflight s) i" by (simp add: count_greater_zero_iff)
  then have "word_of_nat (count (ps_inflight s) i - Suc 0) = (word_of_nat (count (ps_inflight s) i) - 1 :: u64)"
    by (metis One_nat_def word_of_nat_pred)
  then show ?thesis using assms(2) complete
    by (auto simp: pool_inv_def conns_send_end dest: in_diffD)
next
  case (drop_call i)
  then have "count (ps_inflight t) j + count (ps_dropped t) j = count (ps_inflight s) j + count (ps_dropped s) j" for j
    by (cases "j = i") (auto simp flip: count_greater_zero_iff)
  moreover have "ps_pool t = ps_pool s" "\<forall>j \<in># ps_inflight t. j \<in># ps_inflight s"
    using drop_call by (auto dest: in_diffD)
  ultimately show ?thesis using assms(2) unfolding pool_inv_def by (simp, metis)
next
  case (probe i cfg p)
  with assms(2) show ?thesis by (auto simp: pool_inv_def nth_list_update)
qed

interpretation pool: invariant_system pool_step
  "\<lambda>s. length (up_endpoints (ps_pool s0)) < 2 ^ 64 \<and> pool_inv s0 s" for s0
proof unfold_locales
  fix s t
  assume step: "pool_step s t" and inv: "length (up_endpoints (ps_pool s0)) < 2 ^ 64 \<and> pool_inv s0 s"
  then have "length (up_endpoints (ps_pool s)) < 2 ^ 64" by (simp add: pool_inv_def)
  with step inv show "length (up_endpoints (ps_pool s0)) < 2 ^ 64 \<and> pool_inv s0 t" by (blast intro: pool_inv_step)
qed

section \<open>Health-check rounds and tasks\<close>

text \<open>A round is a mark with the outcome of the probe, or nothing when no request could be built.\<close>

fun probe_ok :: "probe_result \<Rightarrow> bool option" where
  "probe_ok (ProbeNotBuilt e) = None"
| "probe_ok (ProbeStatus s) = Some (status_is_success s)"
| "probe_ok (ProbeError e) = Some False"
| "probe_ok ProbeTimedOut = Some False"

lemma health_check_round_mark:
  "health_check_round cfg now r e =
     (case probe_ok r of
        None \<Rightarrow> (None, e)
      | Some ok \<Rightarrow> (Some (as_gauge_value (health_state (mark cfg (now, ok) e))), mark cfg (now, ok) e))"
  by (cases r) (auto simp: health_check_round_def mark_def split: prod.splits)

lemma registry_get_build:
  "registry_get (registry_build cfg) n = map_option (pool_new n) (map_of (gc_upstreams cfg) n)"
proof -
  have "map_of (map (\<lambda>(name, c). (name, pool_new name c)) us) n = map_option (pool_new n) (map_of us n)" for us
    by (induction us) auto
  then show ?thesis by (simp add: registry_get_def registry_build_def)
qed

lemma pool_tasks_iff:
  "(n', i, hc) \<in> set (pool_tasks (n, pool)) \<longleftrightarrow>
     n' = n \<and> uc_health_check (up_config pool) = Some hc \<and> i < length (up_endpoints pool)"
  by (auto simp: pool_tasks_def split: option.splits)

lemma pool_tasks_fst: "k \<in> set (pool_tasks np) \<Longrightarrow> fst k = fst np"
  by (cases k; cases np) (simp add: pool_tasks_iff)

lemma spawned_iff:
  "(n, i, hc) \<in> set (spawn_health_checks reg) \<longleftrightarrow>
     (\<exists>pool. (n, pool) \<in> set (ur_pools reg) \<and> uc_health_check (up_config pool) = Some hc \<and>
        i < length (up_endpoints pool))"
  by (auto simp: spawn_health_checks_def registry_iter_def Bex_def pool_tasks_iff simp flip: ex_simps)

definition task_key :: "string \<times> nat \<times> health_check_config \<Rightarrow> string \<times> nat" where
  "task_key t = (fst t, fst (snd t))"

lemma distinct_pool_tasks: "distinct (map task_key (pool_tasks np))"
  by (cases np) (auto simp: pool_tasks_def task_key_def distinct_map inj_on_def split: option.splits)

lemma distinct_tasks:
  assumes "distinct (map fst ps)"
  shows "distinct (map task_key (concat (map pool_tasks ps)))"
  using assms
proof (induction ps)
  case (Cons np ps)
  have "fst k \<noteq> fst k'" if "k \<in> set (pool_tasks np)" "k' \<in> set (concat (map pool_tasks ps))" for k k'
  proof -
    from that(2) obtain mp where "mp \<in> set ps" "k' \<in> set (pool_tasks mp)" by auto
    then have "fst k' \<in> fst ` set ps" by (simp add: pool_tasks_fst)
    moreover have "fst k = fst np" using that(1) by (rule pool_tasks_fst)
    ultimately show ?thesis using Cons.prems by (metis distinct.simps(2) list.set_map list.simps(9))
  qed
  then have "task_key k \<noteq> task_key k'" if "k \<in> set (pool_tasks np)" "k' \<in> set (concat (map pool_tasks ps))" for k k'
    using that unfolding task_key_def by (metis Pair_inject)
  then have "set (map task_key (pool_tasks np)) \<inter> set (map task_key (concat (map pool_tasks ps))) = {}"
    by (simp only: set_map) blast
  with Cons distinct_pool_tasks [of np] show ?case by simp
qed simp

section \<open>One call\<close>

lemma endpoint_new_sel [simp]:
  "es_address (endpoint_new a w) = a" "es_weight (endpoint_new a w) = w"
  "es_active_conns (endpoint_new a w) = 0" "es_ewma_latency (endpoint_new a w) = 0"
  by (simp_all add: endpoint_new_def)

lemma effective_weight_new [simp]: "effective_weight (endpoint_new a w) = w"
  by (simp add: effective_weight_def)

lemma health_state_conns [simp]: "health_state (conns_add n e) = health_state e"
  by (simp add: conns_add_def)

text \<open>The URI of a proxied request: the endpoint's address with the path and query of the original, or with the root
  path if that is no URI.\<close>

definition addressed_to :: "('hm, 'hv, 'u) http_lib \<Rightarrow> string \<Rightarrow> 'u \<Rightarrow> 'u \<Rightarrow> bool" where
  "addressed_to L addr original uri \<longleftrightarrow>
     (let same_target = uri_parse L (''http://'' @ addr @ (case uri_path_and_query L original of Some pq \<Rightarrow> pq | None \<Rightarrow> ''/''))
      in same_target = Some uri \<or> (same_target = None \<and> uri_parse L (''http://'' @ addr @ ''/'') = Some uri))"

lemma rewrite_uri_addressed: "rewrite_uri L addr original = Ret uri \<Longrightarrow> addressed_to L addr original uri"
  by (auto simp: rewrite_uri_def addressed_to_def Let_def split: option.splits)

lemma send_cases:
  assumes "send L client nanos el others pool req key = Ret (result, attempts, pool')"
    and "length (up_endpoints pool) < 2 ^ 64"
  obtains (none) "result = Inl (NoHealthyEndpoints (up_name pool))" "attempts = []" "up_endpoints pool' = up_endpoints pool"
      "\<forall>e \<in> set (up_endpoints pool). \<not> is_available e"
    | (sent) i pool1 uri where "i < length (up_endpoints pool)" "is_available (up_endpoints pool ! i)"
      "up_endpoints pool1 = (up_endpoints pool)[i := conns_add 1 (up_endpoints pool ! i)]"
      "rewrite_uri L (es_address (up_endpoints pool ! i)) (rq_uri req) = Ret uri"
      "result = map_sum id (\<lambda>r. (r, el)) (fst (send_with_retry L client nanos pool (req\<lparr>rq_uri := uri\<rparr>)
         (es_address (up_endpoints pool ! i)) (uc_retry (up_config pool))))"
      "attempts = fst (snd (send_with_retry L client nanos pool (req\<lparr>rq_uri := uri\<rparr>)
         (es_address (up_endpoints pool ! i)) (uc_retry (up_config pool))))"
      "pool' = send_end i el (others pool1)"
proof -
  have addr: "es_address (conns_add n e) = es_address e" for n e by (simp add: conns_add_def)
  obtain r pool1 where b: "send_begin pool key = Ret (r, pool1)"
    using assms(1) by (cases "send_begin pool key") (auto simp: send_def)
  show thesis
  proof (cases r)
    case (Inl e)
    from b Inl obtain c where "select_endpoint (up_endpoints pool) (uc_load_balancing (up_config pool)) key
        (up_rr_counter pool) = Ret (None, c)"
      by (cases "select_endpoint (up_endpoints pool) (uc_load_balancing (up_config pool)) key (up_rr_counter pool)")
        (auto simp: send_begin_def Let_def split: prod.splits option.splits)
    from select_endpoint_sound [OF assms(2) this] send_begin_Inl [of pool key e pool1] b Inl assms(1)
    show thesis by (intro none) (auto simp: send_def)
  next
    case (Inr i)
    from send_begin_Inr [OF b [unfolded Inr] assms(2)]
    have i: "i < length (up_endpoints pool)" "is_available (up_endpoints pool ! i)"
      and p1: "up_endpoints pool1 = (up_endpoints pool)[i := conns_add 1 (up_endpoints pool ! i)]"
      and c: "up_config pool1 = up_config pool" "up_name pool1 = up_name pool" by auto
    let ?a = "es_address (up_endpoints pool ! i)"
    obtain uri where uri: "rewrite_uri L ?a (rq_uri req) = Ret uri"
      using assms(1) b Inr p1 i(1)
      by (cases "rewrite_uri L ?a (rq_uri req)") (auto simp: send_def addr)
    have "send_with_retry L client nanos pool1 q a t = send_with_retry L client nanos pool q a t" for q a t
      by (simp add: send_with_retry_def c)
    with sent [OF i p1 uri] assms(1) b Inr p1 i(1) uri c show thesis
      by (auto simp: send_def addr split: prod.splits)
  qed
qed

text \<open>The requests on the wire: between one and \<open>max_attempts\<close> copies of one request, or none when no attempt is allowed.\<close>

definition pool_max_attempts :: "upstream_pool \<Rightarrow> nat" where
  "pool_max_attempts pool = (case uc_retry (up_config pool) of None \<Rightarrow> 1 | Some r \<Rightarrow> unat (rc_max_attempts r))"

lemma send_with_retry_copies:
  "\<exists>n \<le> pool_max_attempts pool. fst (snd (send_with_retry L client nanos pool req addr (uc_retry (up_config pool)))) =
     replicate n (clone_request L req)"
proof -
  let ?m = "pool_max_attempts pool"
  let ?rq = "clone_request L req"
  have m: "unat (case uc_retry (up_config pool) of None \<Rightarrow> 1 | Some r \<Rightarrow> rc_max_attempts r) = ?m"
    by (simp add: pool_max_attempts_def split: option.split)
  show ?thesis
  proof (cases "0 < ?m")
    case True
    let ?sts = "case uc_retry (up_config pool) of None \<Rightarrow> [] | Some r \<Rightarrow> rc_on_statuses r"
    let ?k = "length (takeWhile (\<lambda>k. retryable ?sts (client ?rq k)) [0..<?m - 1])"
    have "?k \<le> ?m - 1" using length_takeWhile_le [of _ "[0..<?m - 1]"] by simp
    then have "Suc ?k \<le> ?m" using True by linarith
    moreover have "fst (snd (send_with_retry L client nanos pool req addr (uc_retry (up_config pool)))) = replicate (Suc ?k) ?rq"
      unfolding send_with_retry_def Let_def m by (simp add: retry_loop_from [OF True refl] del: replicate_Suc)
    ultimately show ?thesis by blast
  next
    case False
    then show ?thesis unfolding send_with_retry_def Let_def m by (subst retry_loop.simps) (simp add: exI [of _ 0])
  qed
qed

lemma send_attempts:
  assumes "send L client nanos el others pool req key = Ret (result, attempts, pool')"
  shows "\<exists>i uri. attempts = [] \<or> (\<exists>n \<le> pool_max_attempts pool. attempts = replicate n (clone_request L (req\<lparr>rq_uri := uri\<rparr>))) \<and>
    (length (up_endpoints pool) < 2 ^ 64 \<longrightarrow> i < length (up_endpoints pool) \<and> is_available (up_endpoints pool ! i) \<and>
       addressed_to L (es_address (up_endpoints pool ! i)) (rq_uri req) uri)"
proof -
  obtain r pool1 where b: "send_begin pool key = Ret (r, pool1)"
    using assms by (cases "send_begin pool key") (auto simp: send_def)
  then have c: "up_config pool1 = up_config pool"
    by (cases "select_endpoint (up_endpoints pool) (uc_load_balancing (up_config pool)) key (up_rr_counter pool)")
      (auto simp: send_begin_def Let_def split: prod.splits option.splits)
  show ?thesis
  proof (cases r)
    case (Inl e)
    with assms b show ?thesis by (simp add: send_def)
  next
    case (Inr i)
    with assms b obtain uri where uri: "rewrite_uri L (es_address (up_endpoints pool1 ! i)) (rq_uri req) = Ret uri"
      by (cases "rewrite_uri L (es_address (up_endpoints pool1 ! i)) (rq_uri req)") (auto simp: send_def)
    have att: "\<exists>n \<le> pool_max_attempts pool. attempts = replicate n (clone_request L (req\<lparr>rq_uri := uri\<rparr>))"
      using assms b Inr uri
        send_with_retry_copies [of pool1 L client nanos "req\<lparr>rq_uri := uri\<rparr>" "es_address (up_endpoints pool1 ! i)"]
      by (auto simp: send_def pool_max_attempts_def c split: prod.splits)
    have "is_available (up_endpoints pool ! i) \<and> i < length (up_endpoints pool) \<and>
        addressed_to L (es_address (up_endpoints pool ! i)) (rq_uri req) uri" if "length (up_endpoints pool) < 2 ^ 64"
      using send_begin_Inr [OF b [unfolded Inr] that] rewrite_uri_addressed [OF uri] by (simp add: conns_add_def)
    with att show ?thesis by blast
  qed
qed

text \<open>A response is what the client received for the last of the requests on the wire.\<close>

lemma send_answered:
  assumes "send L client nanos el others pool req key = Ret (Inr (r, el'), attempts, pool')"
  obtains rq k where "attempts = replicate (Suc k) rq"
    "client rq k = Received (rs_status r) (rs_headers r) (Inr (rs_body r))"
proof -
  have outcome: "client rq k = Received (rs_status r) (rs_headers r) (Inr (rs_body r))"
    if "Inr r = attempt_outcome ad t (client rq k)" for rq k ad t
    using that by (cases "(ad, t, client rq k)" rule: attempt_outcome.cases) simp_all
  have loop: "\<exists>rq k. sent = replicate (Suc k) rq \<and> client rq k = Received (rs_status r) (rs_headers r) (Inr (rs_body r))"
    if "retry_loop client nanos nm ad t sts b rq m 0 = (Inr r, sent, sleeps)" for nm ad t sts b rq m sent sleeps
  proof (cases "0 < m")
    case True
    from that [unfolded retry_loop_from [OF True refl]] outcome [of ad t rq] show ?thesis by (auto simp del: replicate_Suc)
  next
    case False
    with that show ?thesis by (subst (asm) retry_loop.simps) simp
  qed
  obtain pool1 i uri where "fst (send_with_retry L client nanos pool1 (req\<lparr>rq_uri := uri\<rparr>) (es_address (up_endpoints pool1 ! i))
      (uc_retry (up_config pool1))) = Inr r"
    "fst (snd (send_with_retry L client nanos pool1 (req\<lparr>rq_uri := uri\<rparr>) (es_address (up_endpoints pool1 ! i))
      (uc_retry (up_config pool1)))) = attempts"
  proof -
    obtain b where b: "send_begin pool key = Ret b" using assms by (cases "send_begin pool key") (simp_all add: send_def)
    with assms obtain i pool1 where "b = (Inr i, pool1)" by (cases b; cases "fst b") (auto simp: send_def)
    with assms b obtain uri where "rewrite_uri L (es_address (up_endpoints pool1 ! i)) (rq_uri req) = Ret uri"
      by (cases "rewrite_uri L (es_address (up_endpoints pool1 ! i)) (rq_uri req)") (auto simp: send_def)
    moreover obtain res att sl where "send_with_retry L client nanos pool1 (req\<lparr>rq_uri := uri\<rparr>)
        (es_address (up_endpoints pool1 ! i)) (uc_retry (up_config pool1)) = (res, att, sl)" by (rule prod_cases3)
    ultimately show thesis
      using assms b \<open>b = (Inr i, pool1)\<close> that [where i = i and ?pool1.0 = pool1 and uri = uri] by (cases res) (auto simp: send_def)
  qed
  with that loop show thesis unfolding send_with_retry_def Let_def by (metis prod.collapse)
qed

text \<open>The headers of a copied request read the same.\<close>

lemma hm_get_clone:
  assumes "header_laws L"
  shows "hm_get L (rq_headers (clone_request L req)) n = hm_get L (rq_headers req) n"
proof -
  have "hm_get L (foldl (\<lambda>h (k, v). hm_append L h k v) h kvs) n =
      (case hm_get L h n of Some v \<Rightarrow> Some v | None \<Rightarrow> map_option snd (List.find (\<lambda>(k, v). eq_ignore_ascii_case k n) kvs))"
    for h kvs
    by (induction kvs arbitrary: h) (auto simp: header_laws_rules(4) [OF assms] split: option.splits)
  then show ?thesis
    by (simp add: clone_request_def header_laws_rules(1) [OF assms] header_laws_rules(6) [OF assms, of "rq_headers req"])
qed

text \<open>When a call panics: the selection does, or the address of the selected endpoint makes no URI.\<close>

lemma send_panics_iff:
  "send L client nanos el others pool req key = Panic \<longleftrightarrow>
     select_endpoint (up_endpoints pool) (uc_load_balancing (up_config pool)) key (up_rr_counter pool) = Panic \<or>
     (\<exists>i pool1. send_begin pool key = Ret (Inr i, pool1) \<and> rewrite_uri L (es_address (up_endpoints pool1 ! i)) (rq_uri req) = Panic)"
proof -
  have "send_begin pool key = Panic \<longleftrightarrow>
      select_endpoint (up_endpoints pool) (uc_load_balancing (up_config pool)) key (up_rr_counter pool) = Panic"
    by (auto simp: send_begin_def rust_bind_eq Let_def split: option.splits)
  moreover have "send L client nanos el others pool req key = Panic \<longleftrightarrow> send_begin pool key = Panic \<or>
      (\<exists>i pool1. send_begin pool key = Ret (Inr i, pool1) \<and> rewrite_uri L (es_address (up_endpoints pool1 ! i)) (rq_uri req) = Panic)"
    by (cases "send_begin pool key") (auto simp: send_def rust_bind_eq split_beta Let_def split: sum.splits)
  ultimately show ?thesis by simp
qed

lemma send_not_Hang [simp]: "send L client nanos el others pool req key \<noteq> Hang"
proof -
  have "select_endpoint es lb key c \<noteq> Hang" for es lb key c
    by (auto simp: select_endpoint_def select_with_def rust_bind_eq Let_def wrr_pick_def lc_pick_def ch_pick_def split: load_balancing_config.splits if_splits option.splits prod.splits)
  moreover have "rewrite_uri L a u \<noteq> Hang" for a u by (simp add: rewrite_uri_def Let_def split: option.split)
  ultimately show ?thesis
    by (auto simp: send_def send_begin_def rust_bind_eq Let_def split: sum.splits prod.splits option.splits)
qed

section \<open>Properties\<close>

text \<open>C23: What a call with retries does. With \<open>m > 0\<close> attempts allowed, the attempts are made one after
  the other until one is not a response with a status to retry, or the \<open>m\<close>-th is made; every attempt
  sends the same copy of the request, the back-off is slept after every attempt but the last, and the
  result is that of the last attempt: its response (even one with a status to retry), its timeout or its
  error.\<close>

theorem send_with_retry_attempts:
  assumes "m = (case retry of None \<Rightarrow> 1 | Some r \<Rightarrow> unat (rc_max_attempts r))" and "0 < m"
    and "sts = (case retry of None \<Rightarrow> [] | Some r \<Rightarrow> rc_on_statuses r)"
    and "base = (case retry of None \<Rightarrow> from_millis 50 | Some r \<Rightarrow> rc_base_backoff r)"
    and "rq = clone_request L req" and "k = final_attempt (client rq) sts m"
  shows "k < m \<and> send_with_retry L client nanos pool req addr retry =
    (attempt_outcome addr (to_request (uc_timeouts (up_config pool))) (client rq k), replicate (Suc k) rq,
     map (\<lambda>j. retry_sleep_ms base j (nanos j)) [0..<k])"
proof -
  have "k \<le> m - 1" using length_takeWhile_le [of _ "[0..<m - 1]"] by (simp add: assms(6) final_attempt_def)
  then have "k < m" using assms(2) by linarith
  moreover have "unat (case retry of None \<Rightarrow> 1 | Some r \<Rightarrow> rc_max_attempts r) = m"
    by (simp add: assms(1) split: option.split)
  ultimately show ?thesis
    using retry_loop_from [OF assms(2), of k sts client rq nanos "up_name pool" addr _ base] assms(3-6)
    by (simp add: send_with_retry_def Let_def final_attempt_def)
qed

theorem send_with_retry_attempts_witness:
  "fst (snd (send_with_retry alist_http (\<lambda>rq k. Received (if k = 0 then 503 else 200) [] (Inr [])) (\<lambda>_. 7)
      (pool_new ''p'' \<lparr>uc_endpoints = [], uc_load_balancing = WeightedRoundRobin, uc_health_check = None,
        uc_timeouts = \<lparr>to_connect = 0, to_request = from_secs 30, to_idle = 0\<rparr>, uc_retry = None\<rparr>)
      \<lparr>rq_method = ''GET'', rq_uri = ''/'', rq_version = Http11, rq_headers = [], rq_body = []\<rparr> ''a''
      (Some \<lparr>rc_max_attempts = 3, rc_base_backoff = from_millis 50, rc_on_statuses = [503]\<rparr>)))
    = replicate (Suc 1) \<lparr>rq_method = ''GET'', rq_uri = ''/'', rq_version = Http11, rq_headers = [], rq_body = []\<rparr>"
proof -
  have "final_attempt (\<lambda>k. Received (if k = 0 then 503 else 200) h (Inr [])) [503] 3 = 1" for h :: "(string \<times> string) list"
    by (simp add: final_attempt_def upt_rec)
  then show ?thesis
    by (subst send_with_retry_attempts [THEN conjunct2, OF refl _ refl refl refl refl])
      (simp_all add: clone_request_def alist_http_def)
qed

text \<open>The back-off. With \<open>b\<close> the exponential base in milliseconds and \<open>q\<close> a quarter of it (at least one),
  the sleep is between \<open>b\<close> and \<open>b + q\<close> when the clock's nanoseconds modulo \<open>2 * q\<close> are at least \<open>q\<close>; in the
  other half of the cases, where the jitter should shorten the sleep, the wrapped difference saturates and
  the sleep is the largest 64-bit number of milliseconds.\<close>

theorem retry_sleep_jitter:
  assumes "b = unat (word_of_nat (as_millis base) * 2 ^ a :: u64)" and "q = max (b div 4) 1"
  shows "unat (retry_sleep_ms base a n) =
    (if unat n mod (2 * q) < q then 2 ^ 64 - 1 else min (b + (unat n mod (2 * q) - q)) (2 ^ 64 - 1))"
  unfolding assms by (rule retry_sleep_value)

theorem retry_sleep_jitter_witness: "unat (retry_sleep_ms (from_millis 100) 0 20) = 2 ^ 64 - 1"
  using retry_sleep_jitter [of 100 "from_millis 100" 0 25 20] by simp

text \<open>C10: Connection counts are exact under interleaving. However calls begin, complete, are dropped while
  they wait, and health marks happen, the connection count of an endpoint is the number of its calls in
  flight plus the number of its calls that were dropped (modulo \<open>2\<^sup>6\<^sup>4\<close>), and every call in flight goes to
  an endpoint of the pool. In particular a dropped call is counted for ever.\<close>

theorem active_conns_exact:
  assumes "pool_step\<^sup>*\<^sup>* (pool_start name cfg) s" and "length (uc_endpoints cfg) < 2 ^ 64"
  shows "(\<forall>i < length (up_endpoints (ps_pool s)). es_active_conns (up_endpoints (ps_pool s) ! i) =
      word_of_nat (count (ps_inflight s) i + count (ps_dropped s) i)) \<and>
    (\<forall>i \<in># ps_inflight s. i < length (up_endpoints (ps_pool s))) \<and>
    length (up_endpoints (ps_pool s)) = length (filter ec_active (uc_endpoints cfg))"
proof -
  have len: "length (up_endpoints (ps_pool (pool_start name cfg))) = length (filter ec_active (uc_endpoints cfg))"
    by (simp add: pool_start_def pool_new_def)
  then have "length (up_endpoints (ps_pool (pool_start name cfg))) < 2 ^ 64"
    using assms(2) length_filter_le [of ec_active "uc_endpoints cfg"] by linarith
  with pool.inv_steps [OF assms(1), of "pool_start name cfg"] have "pool_inv (pool_start name cfg) s"
    using pool_inv_start by blast
  with len show ?thesis unfolding pool_inv_def by auto
qed

theorem active_conns_exact_witness:
  "\<exists>s. pool_step\<^sup>*\<^sup>* (pool_start ''p'' sample_upstream) s \<and> ps_inflight s = {#0#} \<and>
     es_active_conns (up_endpoints (ps_pool s) ! 0) = 1"
proof -
  let ?init = "pool_start ''p'' sample_upstream"
  have len: "length (up_endpoints (ps_pool ?init)) = 1"
    by (simp add: pool_start_def pool_new_def sample_upstream_def)
  have "select_endpoint (up_endpoints (ps_pool ?init)) WeightedRoundRobin None 0 = Ret (Some 0, 1)"
    by (simp add: pool_start_def pool_new_def sample_upstream_def select_endpoint_def select_with_def wrr_pick_def
        available_endpoints_def is_available_def Let_def)
  then obtain pool' where b: "send_begin (ps_pool ?init) None = Ret (Inr 0, pool')"
    by (simp add: send_begin_def pool_start_def pool_new_def sample_upstream_def Let_def)
  let ?s = "?init\<lparr>ps_pool := pool', ps_inflight := add_mset 0 (ps_inflight ?init)\<rparr>"
  have run: "pool_step\<^sup>*\<^sup>* ?init ?s" using pool_step.call [OF b] by blast
  from len have "length (up_endpoints (ps_pool ?init)) < 2 ^ 64" by simp
  from send_begin_Inr [OF b this] len have "length (up_endpoints pool') = 1" by (metis length_list_update)
  then have "0 < length (up_endpoints (ps_pool ?s))" by simp
  with active_conns_exact [OF run] have "es_active_conns (up_endpoints (ps_pool ?s) ! 0) = 1"
    by (simp add: sample_upstream_def pool_start_def)
  with run show ?thesis by (intro exI [of _ ?s]) (simp add: pool_start_def)
qed

text \<open>One call, with nothing else touching the pool. It either fails because no endpoint is in rotation,
  or it has the result of \<open>send_with_retry\<close> for the request sent to the address of an endpoint in
  rotation, with the path and query it came with (or the root path if the two make no URI); in both cases every endpoint is left with the health, the counters and the connection count
  it had.\<close>

theorem send_sequential:
  assumes "send L client nanos el id pool req key = Ret (result, attempts, pool')"
    and "length (up_endpoints pool) < 2 ^ 64"
  shows "((\<forall>e \<in> set (up_endpoints pool). \<not> is_available e) \<and> result = Inl (NoHealthyEndpoints (up_name pool)) \<or>
     (\<exists>e \<in> set (up_endpoints pool). \<exists>uri. is_available e \<and> addressed_to L (es_address e) (rq_uri req) uri \<and>
        result = map_sum id (\<lambda>r. (r, el)) (fst (send_with_retry L client nanos pool (req\<lparr>rq_uri := uri\<rparr>)
          (es_address e) (uc_retry (up_config pool)))))) \<and>
    map (\<lambda>e. e\<lparr>es_ewma_latency := 0\<rparr>) (up_endpoints pool') = map (\<lambda>e. e\<lparr>es_ewma_latency := 0\<rparr>) (up_endpoints pool)"
  using assms
proof (cases rule: send_cases)
  case (sent i pool1 uri)
  have "map (\<lambda>e. e\<lparr>es_ewma_latency := 0\<rparr>) (up_endpoints pool') =
      map (\<lambda>e. e\<lparr>es_ewma_latency := 0\<rparr>) (up_endpoints pool)"
    by (rule nth_equalityI)
      (auto simp: sent(7,3) send_end_def conns_add_def Let_def nth_list_update sent(1))
  moreover have "up_endpoints pool ! i \<in> set (up_endpoints pool)" using sent(1) by simp
  ultimately show ?thesis using sent(2,5) rewrite_uri_addressed [OF sent(4)] by blast
qed simp

theorem send_sequential_witness:
  "\<exists>result pool'. send alist_http (\<lambda>rq k. Elapsed) (\<lambda>_. 0) 0 id ((pool_new ''p'' sample_upstream)\<lparr>up_endpoints := []\<rparr>)
      \<lparr>rq_method = ''GET'', rq_uri = ''/'', rq_version = Http11, rq_headers = [], rq_body = []\<rparr> None = Ret (result, [], pool') \<and>
    result = Inl (NoHealthyEndpoints ''p'')"
proof -
  have "\<exists>result pool'. send alist_http (\<lambda>rq k. Elapsed) (\<lambda>_. 0) 0 id ((pool_new ''p'' sample_upstream)\<lparr>up_endpoints := []\<rparr>)
      \<lparr>rq_method = ''GET'', rq_uri = ''/'', rq_version = Http11, rq_headers = [], rq_body = []\<rparr> None = Ret (result, [], pool')"
    by (simp add: send_def send_begin_def select_endpoint_def select_with_def available_endpoints_def)
  then obtain r p where *: "send alist_http (\<lambda>rq k. Elapsed) (\<lambda>_. 0) 0 id ((pool_new ''p'' sample_upstream)\<lparr>up_endpoints := []\<rparr>)
      \<lparr>rq_method = ''GET'', rq_uri = ''/'', rq_version = Http11, rq_headers = [], rq_body = []\<rparr> None = Ret (r, [], p)" by blast
  from send_sequential [OF this] * show ?thesis by (simp add: pool_new_def)
qed

text \<open>The pools built from a validated configuration serve its routes: the upstream of every route has
  a pool, and its endpoints are the active ones of the configuration in order, all healthy, idle and with
  a non-zero weight.\<close>

theorem validated_routes_have_pools:
  assumes "validate compile cfg = Inr ()" and "r \<in> set (gc_routes cfg)"
  shows "\<exists>u pool. map_of (gc_upstreams cfg) (rt_upstream r) = Some u \<and>
    registry_get (registry_build cfg) (rt_upstream r) = Some pool \<and> up_config pool = u \<and>
    map es_address (up_endpoints pool) = map ec_address (filter ec_active (uc_endpoints u)) \<and>
    (\<forall>e \<in> set (up_endpoints pool). health_state e = Healthy \<and> es_active_conns e = 0 \<and> es_weight e \<noteq> 0)"
proof -
  from assms have ok: "config_ok compile cfg" by (simp add: validate_Inr)
  then obtain u where u: "map_of (gc_upstreams cfg) (rt_upstream r) = Some u"
    using route_ok_upstream config_ok_route assms(2) by metis
  from config_ok_upstream [OF ok u] have "\<forall>e \<in> set (uc_endpoints u). ec_weight e \<noteq> 0" by (simp add: upstream_ok_def)
  with u show ?thesis by (auto simp: registry_get_build pool_new_def)
qed

theorem validated_routes_have_pools_witness:
  "\<exists>pool. registry_get (registry_build (sample_config [sample_root])) ''backend'' = Some pool \<and>
     (\<forall>e \<in> set (up_endpoints pool). health_state e = Healthy)"
  using validated_routes_have_pools [OF sample_root_config_valid, of sample_root]
  by (auto simp: sample_root_def)

text \<open>Every endpoint of a pool with a health check is probed by exactly one task, and no other endpoint
  is: the keys of the spawned tasks are distinct, so the marks of one endpoint never run concurrently.
  (The upstream names are the keys of a map.)\<close>

theorem health_tasks_exactly_once:
  assumes "distinct (map fst (gc_upstreams cfg))" and "reg = registry_build cfg"
  shows "distinct (map task_key (spawn_health_checks reg)) \<and>
    ((n, i, hc) \<in> set (spawn_health_checks reg) \<longleftrightarrow>
      (\<exists>pool. registry_get reg n = Some pool \<and> uc_health_check (up_config pool) = Some hc \<and> i < length (up_endpoints pool)))"
proof -
  have d: "distinct (map fst (ur_pools reg))"
    using assms by (simp add: registry_build_def comp_def case_prod_beta)
  then have "(n, pool) \<in> set (ur_pools reg) \<longleftrightarrow> registry_get reg n = Some pool" for pool
    by (simp add: registry_get_def)
  with distinct_tasks [OF d] show ?thesis
    by (simp add: spawned_iff) (simp add: spawn_health_checks_def registry_iter_def)
qed

theorem health_tasks_exactly_once_witness:
  "distinct (map task_key (spawn_health_checks (registry_build (sample_config []))))"
  by (rule health_tasks_exactly_once [THEN conjunct1, OF _ refl]) simp

text \<open>The latency average stays between the previous average and the new sample, as long as both are
  below \<open>2\<^sup>6\<^sup>0\<close> milliseconds, and the first sample is taken as it is.\<close>

theorem update_ewma_between:
  assumes "unat old < 2 ^ 60" and "unat sample < 2 ^ 60" and "old \<noteq> 0"
  shows "min (unat old) (unat sample) \<le> unat (update_ewma old sample) \<and>
    unat (update_ewma old sample) \<le> max (unat old) (unat sample) \<and> update_ewma 0 sample = sample"
proof -
  have "unat (2 * sample) = 2 * unat sample" "unat (8 * old) = 8 * unat old"
    using assms(1,2) by (simp_all add: unat_word_ariths)
  then have "unat (2 * sample + 8 * old) = 2 * unat sample + 8 * unat old"
    using assms(1,2) by (simp add: unat_word_ariths)
  then have "unat (update_ewma old sample) = (2 * unat sample + 8 * unat old) div 10"
    using assms(3) by (simp add: update_ewma_def unat_div)
  then show ?thesis by (simp add: update_ewma_def min_def max_def) linarith
qed

theorem update_ewma_between_witness: "50 \<le> unat (update_ewma 100 50) \<and> unat (update_ewma 100 50) \<le> 100"
  using update_ewma_between [of 100 50] by simp

end
