(* ===== verification/Concurrency.thy ===== *)
theory Concurrency
  imports Upstream
begin

text \<open>
  The layered concurrency gate (\<open>gateway-core/src/concurrency.rs\<close>). The semaphore of the tokio crate is the
  argument \<open>S\<close> with the laws its documentation gives (\<open>semaphore_laws\<close>); the outcome of a wait (granted,
  closed, timed out) is an argument of the step that waits. \<open>acquire\<close> has two waits, and other requests run
  between them, so the interleaved system \<open>conc_step\<close> has one step per wait and per dropped permit.
\<close>

section \<open>Semaphores\<close>

record 'sem semaphore_lib =
  sem_new :: "usize \<Rightarrow> 'sem"
  sem_available :: "'sem \<Rightarrow> nat"
  sem_take :: "'sem \<Rightarrow> 'sem"
  sem_put :: "'sem \<Rightarrow> 'sem"

text \<open>\<open>Semaphore::new\<close> panics above \<open>MAX_PERMITS\<close>, an eighth of the range of \<open>usize\<close>. A new semaphore has the given number
  of permits, a granted acquire takes one, a dropped permit gives one back.\<close>

definition MAX_PERMITS :: usize where
  "MAX_PERMITS = drop_bit 3 (- 1)"

definition semaphore_laws :: "'sem semaphore_lib \<Rightarrow> bool" where
  "semaphore_laws S \<longleftrightarrow>
     (\<forall>n \<le> MAX_PERMITS. sem_available S (sem_new S n) = unat n) \<and>
     (\<forall>s. 0 < sem_available S s \<longrightarrow> sem_available S (sem_take S s) = sem_available S s - 1) \<and>
     (\<forall>s. sem_available S (sem_put S s) = sem_available S s + 1)"

datatype wait_outcome = Granted | Closed | TimedOut

section \<open>The gate\<close>

record 'sem concurrency_limiter =
  cl_global :: 'sem
  cl_routes :: "string \<rightharpoonup> 'sem"
  cl_acquire_timeout :: duration

definition limiter_build :: "'sem semaphore_lib \<Rightarrow> gateway_config \<Rightarrow> 'sem concurrency_limiter rust" where
  "limiter_build S cfg =
     (if list_ex (\<lambda>limit. MAX_PERMITS < limit)
           (List.map_filter rt_max_concurrent_requests (gc_routes cfg) @ [ls_max_concurrent_requests (gc_listener cfg)])
      then Panic
      else Ret
       \<lparr>cl_global = sem_new S (ls_max_concurrent_requests (gc_listener cfg)),
        cl_routes = map_of (collect_map (List.map_filter
          (\<lambda>r. map_option (\<lambda>limit. (rt_id r, sem_new S limit)) (rt_max_concurrent_requests r)) (gc_routes cfg))),
        cl_acquire_timeout = from_millis (ls_concurrency_acquire_timeout_ms (gc_listener cfg))\<rparr>)"

text \<open>The permit: the route whose permit it holds besides the global one.\<close>

record concurrency_permit =
  cp_route :: "string option"

text \<open>The 503 response; \<open>json_error\<close> is serde_json's rendering of \<open>{"error": msg}\<close>.\<close>

definition service_unavailable ::
  "('hm, 'hv, 'u) http_lib \<Rightarrow> (string \<Rightarrow> bytes) \<Rightarrow> string \<Rightarrow> 'hm http_response rust" where
  "service_unavailable L json_error msg =
     rust_bind (builder_headers L (hm_new L) [(''content-type'', ''application/json''), (''Retry-After'', ''1'')])
       (\<lambda>h. Ret \<lparr>rs_status = 503, rs_headers = h, rs_body = json_error msg\<rparr>)"

text \<open>The first wait of \<open>acquire\<close>, the second, and the drop of the permit. An error carries the message of
  the 503 response; leaving with an error drops the global permit taken before.\<close>

definition acquire_global ::
  "'sem semaphore_lib \<Rightarrow> wait_outcome \<Rightarrow> 'sem concurrency_limiter \<Rightarrow> (string + unit) \<times> 'sem concurrency_limiter" where
  "acquire_global S w l =
     (case w of
        Granted \<Rightarrow> (Inr (), l\<lparr>cl_global := sem_take S (cl_global l)\<rparr>)
      | Closed \<Rightarrow> (Inl ''gateway shutting down'', l)
      | TimedOut \<Rightarrow> (Inl ''server concurrency limit exceeded'', l))"

definition release_global :: "'sem semaphore_lib \<Rightarrow> 'sem concurrency_limiter \<Rightarrow> 'sem concurrency_limiter" where
  "release_global S l = l\<lparr>cl_global := sem_put S (cl_global l)\<rparr>"

definition acquire_route ::
  "'sem semaphore_lib \<Rightarrow> wait_outcome \<Rightarrow> string \<Rightarrow> 'sem concurrency_limiter \<Rightarrow>
   (string + concurrency_permit) \<times> 'sem concurrency_limiter" where
  "acquire_route S w route_id l =
     (case cl_routes l route_id of
        None \<Rightarrow> (Inr \<lparr>cp_route = None\<rparr>, l)
      | Some sem \<Rightarrow>
          (case w of
             Granted \<Rightarrow> (Inr \<lparr>cp_route = Some route_id\<rparr>, l\<lparr>cl_routes := (cl_routes l)(route_id \<mapsto> sem_take S sem)\<rparr>)
           | Closed \<Rightarrow> (Inl ''gateway shutting down'', release_global S l)
           | TimedOut \<Rightarrow> (Inl ''route concurrency limit exceeded'', release_global S l)))"

definition permit_drop ::
  "'sem semaphore_lib \<Rightarrow> concurrency_permit \<Rightarrow> 'sem concurrency_limiter \<Rightarrow> 'sem concurrency_limiter" where
  "permit_drop S p l =
     (let l = release_global S l
      in case cp_route p of
           None \<Rightarrow> l
         | Some r \<Rightarrow>
             (case cl_routes l r of
                None \<Rightarrow> l
              | Some sem \<Rightarrow> l\<lparr>cl_routes := (cl_routes l)(r \<mapsto> sem_put S sem)\<rparr>))"

text \<open>\<open>acquire\<close> as one call: the waits' outcomes and what other requests do between the waits.\<close>

definition acquire ::
  "'sem semaphore_lib \<Rightarrow> wait_outcome \<Rightarrow> ('sem concurrency_limiter \<Rightarrow> 'sem concurrency_limiter) \<Rightarrow> wait_outcome \<Rightarrow>
   'sem concurrency_limiter \<Rightarrow> string \<Rightarrow> (string + concurrency_permit) \<times> 'sem concurrency_limiter" where
  "acquire S w1 others w2 l route_id =
     (case acquire_global S w1 l of
        (Inl msg, l1) \<Rightarrow> (Inl msg, l1)
      | (Inr (), l1) \<Rightarrow> acquire_route S w2 route_id (others l1))"

section \<open>Interleaved requests\<close>

text \<open>The requests that hold the global permit and wait for their route's, and the requests that hold a
  permit. A wait is granted only when a permit is available.\<close>

record 'sem conc_system =
  cs_limiter :: "'sem concurrency_limiter"
  cs_waiting :: "string multiset"
  cs_running :: "(string \<times> concurrency_permit) multiset"

inductive conc_step :: "'sem semaphore_lib \<Rightarrow> 'sem conc_system \<Rightarrow> 'sem conc_system \<Rightarrow> bool"
  for S :: "'sem semaphore_lib" where
  enter: "0 < sem_available S (cl_global (cs_limiter s)) \<Longrightarrow> acquire_global S Granted (cs_limiter s) = (Inr (), l') \<Longrightarrow>
     conc_step S s (s\<lparr>cs_limiter := l', cs_waiting := add_mset r (cs_waiting s)\<rparr>)"
| refuse: "w \<noteq> Granted \<Longrightarrow> acquire_global S w (cs_limiter s) = (Inl msg, l') \<Longrightarrow>
     conc_step S s (s\<lparr>cs_limiter := l'\<rparr>)"
| admit: "r \<in># cs_waiting s \<Longrightarrow>
     (\<forall>sem. cl_routes (cs_limiter s) r = Some sem \<longrightarrow> 0 < sem_available S sem) \<Longrightarrow>
     acquire_route S Granted r (cs_limiter s) = (Inr p, l') \<Longrightarrow>
     conc_step S s (s\<lparr>cs_limiter := l', cs_waiting := cs_waiting s - {#r#}, cs_running := add_mset (r, p) (cs_running s)\<rparr>)"
| turn_away: "r \<in># cs_waiting s \<Longrightarrow> acquire_route S w r (cs_limiter s) = (Inl msg, l') \<Longrightarrow>
     conc_step S s (s\<lparr>cs_limiter := l', cs_waiting := cs_waiting s - {#r#}\<rparr>)"
| give_up: "r \<in># cs_waiting s \<Longrightarrow>
     conc_step S s (s\<lparr>cs_limiter := release_global S (cs_limiter s), cs_waiting := cs_waiting s - {#r#}\<rparr>)"
| leave: "(r, p) \<in># cs_running s \<Longrightarrow>
     conc_step S s (s\<lparr>cs_limiter := permit_drop S p (cs_limiter s), cs_running := cs_running s - {#(r, p)#}\<rparr>)"

definition conc_start :: "'sem concurrency_limiter \<Rightarrow> 'sem conc_system" where
  "conc_start limiter = \<lparr>cs_limiter = limiter, cs_waiting = {#}, cs_running = {#}\<rparr>"

text \<open>The number of requests that run on a route.\<close>

definition on_route :: "string \<Rightarrow> (string \<times> concurrency_permit) multiset \<Rightarrow> nat" where
  "on_route r running = size (filter_mset (\<lambda>q. fst q = r) running)"

definition conc_inv :: "'sem semaphore_lib \<Rightarrow> nat \<Rightarrow> (string \<rightharpoonup> nat) \<Rightarrow> 'sem conc_system \<Rightarrow> bool" where
  "conc_inv S g caps s \<longleftrightarrow>
     sem_available S (cl_global (cs_limiter s)) + size (cs_waiting s) + size (cs_running s) = g \<and>
     (\<forall>q \<in># cs_running s. cp_route (snd q) = (if caps (fst q) = None then None else Some (fst q))) \<and>
     (\<forall>r. rel_option (\<lambda>sem n. sem_available S sem + on_route r (cs_running s) = n)
        (cl_routes (cs_limiter s) r) (caps r))"

lemma conc_invD:
  assumes "conc_inv S g caps s"
  shows "sem_available S (cl_global (cs_limiter s)) + size (cs_waiting s) + size (cs_running s) = g"
    and "q \<in># cs_running s \<Longrightarrow> cp_route (snd q) = (if caps (fst q) = None then None else Some (fst q))"
    and "rel_option (\<lambda>sem n. sem_available S sem + on_route r (cs_running s) = n)
        (cl_routes (cs_limiter s) r) (caps r)"
  using assms by (simp_all add: conc_inv_def)

lemmas conc_defs = acquire_global_def acquire_route_def release_global_def permit_drop_def

lemma semaphore_rules:
  assumes "semaphore_laws S"
  shows "n \<le> MAX_PERMITS \<Longrightarrow> sem_available S (sem_new S n) = unat n"
    and "0 < sem_available S s \<Longrightarrow> sem_available S (sem_take S s) = sem_available S s - 1"
    and "sem_available S (sem_put S s) = sem_available S s + 1"
  using assms by (simp_all add: semaphore_laws_def)

lemma size_pos: "x \<in># M \<Longrightarrow> 0 < size M"
  by (metis gr0I empty_iff set_mset_empty size_eq_0_iff_empty)

lemma on_route_empty [simp]: "on_route r {#} = 0"
  by (simp add: on_route_def)

lemma on_route_add [simp]:
  "on_route r (add_mset (q, p) M) = (if q = r then Suc (on_route r M) else on_route r M)"
  by (simp add: on_route_def)

lemma on_route_remove:
  assumes "(q, p) \<in># M"
  shows "on_route r M = (if q = r then Suc (on_route r (M - {#(q, p)#})) else on_route r (M - {#(q, p)#}))"
proof -
  obtain M' where "M = add_mset (q, p) M'" using assms by (blast dest: multi_member_split)
  then show ?thesis by simp
qed

lemma conc_inv_admit:
  assumes laws: "semaphore_laws S" and inv: "conc_inv S g caps s" and r: "r \<in># cs_waiting s"
    and free: "\<forall>sem. cl_routes (cs_limiter s) r = Some sem \<longrightarrow> 0 < sem_available S sem"
    and acq: "acquire_route S Granted r (cs_limiter s) = (Inr p, l')"
  shows "conc_inv S g caps
    (s\<lparr>cs_limiter := l', cs_waiting := cs_waiting s - {#r#}, cs_running := add_mset (r, p) (cs_running s)\<rparr>)"
proof -
  have w: "size (cs_waiting s - {#r#}) + 1 = size (cs_waiting s)" using r by (simp add: size_Diff_singleton size_pos)
  have l': "cl_global l' = cl_global (cs_limiter s)"
    and p: "cp_route p = (if caps r = None then None else Some r)"
    using acq conc_invD(3) [OF inv, of r] by (auto simp: acquire_route_def split: option.splits)
  have "rel_option (\<lambda>sem n. sem_available S sem + on_route q (add_mset (r, p) (cs_running s)) = n)
      (cl_routes l' q) (caps q)" for q
    using conc_invD(3) [OF inv, of q] acq free semaphore_rules(2) [OF laws]
    by (cases "cl_routes (cs_limiter s) q"; cases "caps q")
      (auto simp: acquire_route_def split: option.splits)
  with conc_invD(1,2) [OF inv] w l' p show ?thesis by (simp add: conc_inv_def)
qed

lemma conc_inv_leave:
  assumes laws: "semaphore_laws S" and inv: "conc_inv S g caps s" and r: "(r, p) \<in># cs_running s"
  shows "conc_inv S g caps
    (s\<lparr>cs_limiter := permit_drop S p (cs_limiter s), cs_running := cs_running s - {#(r, p)#}\<rparr>)"
proof -
  let ?l = "permit_drop S p (cs_limiter s)"
  have w: "size (cs_running s - {#(r, p)#}) + 1 = size (cs_running s)"
    using r by (simp add: size_Diff_singleton size_pos)
  have p: "cp_route p = (if caps r = None then None else Some r)" using conc_invD(2) [OF inv r] by simp
  have global: "sem_available S (cl_global ?l) = sem_available S (cl_global (cs_limiter s)) + 1"
    using semaphore_rules(3) [OF laws]
    by (simp add: permit_drop_def release_global_def Let_def split: option.split)
  have "rel_option (\<lambda>sem n. sem_available S sem + on_route q (cs_running s - {#(r, p)#}) = n)
      (cl_routes ?l q) (caps q)" for q
    using conc_invD(3) [OF inv, of q] on_route_remove [OF r, of q] p semaphore_rules(3) [OF laws]
    by (cases "cl_routes (cs_limiter s) q"; cases "caps q"; cases "q = r")
      (auto simp: permit_drop_def release_global_def Let_def split: option.splits if_splits)
  moreover have "\<forall>q \<in># cs_running s - {#(r, p)#}. cp_route (snd q) = (if caps (fst q) = None then None else Some (fst q))"
    using conc_invD(2) [OF inv] by (blast dest: in_diffD)
  ultimately show ?thesis using conc_invD(1) [OF inv] w global by (simp add: conc_inv_def)
qed

lemma conc_inv_step [gw_inv]:
  assumes "conc_step S s t" and "semaphore_laws S" and "conc_inv S g caps s"
  shows "conc_inv S g caps t"
  using assms
proof (cases rule: conc_step.cases)
  case (enter l' r)
  then show ?thesis using assms(3) semaphore_rules(2) [OF assms(2), of "cl_global (cs_limiter s)"]
    by (auto simp: conc_inv_def acquire_global_def)
next
  case (refuse w msg l')
  then show ?thesis using assms(3) by (cases w) (auto simp: conc_inv_def acquire_global_def)
next
  case (admit r p l')
  with conc_inv_admit [OF assms(2,3)] show ?thesis by blast
next
  case (turn_away r w msg l')
  then have "l' = release_global S (cs_limiter s)"
    by (cases w) (auto simp: acquire_route_def split: option.splits)
  moreover have "size (cs_waiting s - {#r#}) + 1 = size (cs_waiting s)"
    using turn_away by (simp add: size_Diff_singleton size_pos)
  ultimately show ?thesis using turn_away assms(3) semaphore_rules(3) [OF assms(2)]
    by (auto simp: conc_inv_def release_global_def)
next
  case (give_up r)
  moreover from this have "size (cs_waiting s - {#r#}) + 1 = size (cs_waiting s)"
    by (simp add: size_Diff_singleton size_pos)
  ultimately show ?thesis using assms(3) semaphore_rules(3) [OF assms(2)]
    by (auto simp: conc_inv_def release_global_def)
next
  case (leave r p)
  with conc_inv_leave [OF assms(2,3)] show ?thesis by blast
qed

text \<open>The limits of a configuration with distinct route identifiers.\<close>

definition route_limits :: "gateway_config \<Rightarrow> string \<rightharpoonup> nat" where
  "route_limits cfg r =
     Option.bind (List.find (\<lambda>q. rt_id q = r) (gc_routes cfg)) (\<lambda>q. map_option unat (rt_max_concurrent_requests q))"

lemma limit_entries:
  assumes "distinct (map rt_id rs)"
  shows "distinct (map fst (List.map_filter (\<lambda>r. map_option (\<lambda>n. (rt_id r, f n)) (rt_max_concurrent_requests r)) rs))"
    and "map_of (List.map_filter (\<lambda>r. map_option (\<lambda>n. (rt_id r, f n)) (rt_max_concurrent_requests r)) rs) i =
      Option.bind (List.find (\<lambda>q. rt_id q = i) rs) (\<lambda>q. map_option f (rt_max_concurrent_requests q))"
proof -
  have sub: "fst ` set (List.map_filter (\<lambda>r. map_option (\<lambda>n. (rt_id r, f n)) (rt_max_concurrent_requests r)) rs) \<subseteq> set (map rt_id rs)" for rs
    by (induction rs) (auto simp: map_filter_simps split: option.splits)
  show "distinct (map fst (List.map_filter (\<lambda>r. map_option (\<lambda>n. (rt_id r, f n)) (rt_max_concurrent_requests r)) rs))"
    using assms
  proof (induction rs)
    case (Cons r rs)
    then show ?case using sub [of rs] by (auto simp: map_filter_simps split: option.splits)
  qed (simp add: map_filter_simps)
  have none: "map_of (List.map_filter (\<lambda>r. map_option (\<lambda>n. (rt_id r, f n)) (rt_max_concurrent_requests r)) rs) i = None"
    if "i \<notin> set (map rt_id rs)" for rs
    using sub [of rs] that by (auto simp: map_of_eq_None_iff)
  show "map_of (List.map_filter (\<lambda>r. map_option (\<lambda>n. (rt_id r, f n)) (rt_max_concurrent_requests r)) rs) i =
      Option.bind (List.find (\<lambda>q. rt_id q = i) rs) (\<lambda>q. map_option f (rt_max_concurrent_requests q))"
    using assms
  proof (induction rs)
    case (Cons r rs)
    then show ?case using none [of rs] by (auto simp: map_filter_simps split: option.splits)
  qed (simp add: map_filter_simps)
qed

text \<open>No limit of a gate that was built exceeds the largest semaphore.\<close>

definition limits_fit :: "gateway_config \<Rightarrow> bool" where
  "limits_fit cfg \<longleftrightarrow> ls_max_concurrent_requests (gc_listener cfg) \<le> MAX_PERMITS \<and>
     (\<forall>r \<in> set (gc_routes cfg). \<forall>n. rt_max_concurrent_requests r = Some n \<longrightarrow> n \<le> MAX_PERMITS)"

lemma limiter_build_cases:
  "(\<exists>l. limiter_build S cfg = Ret l) \<longleftrightarrow> limits_fit cfg"
  "limiter_build S cfg = Panic \<longleftrightarrow> \<not> limits_fit cfg"
proof -
  have "n \<in> set (List.map_filter rt_max_concurrent_requests rs) \<longleftrightarrow> (\<exists>r \<in> set rs. rt_max_concurrent_requests r = Some n)" for n rs
    by (induction rs) (auto simp: map_filter_simps split: option.splits)
  then have "list_ex (\<lambda>limit. MAX_PERMITS < limit)
      (List.map_filter rt_max_concurrent_requests (gc_routes cfg) @ [ls_max_concurrent_requests (gc_listener cfg)]) \<longleftrightarrow>
      \<not> limits_fit cfg"
    by (auto simp: limits_fit_def list_ex_iff not_le)
  then show "(\<exists>l. limiter_build S cfg = Ret l) \<longleftrightarrow> limits_fit cfg" "limiter_build S cfg = Panic \<longleftrightarrow> \<not> limits_fit cfg"
    unfolding limiter_build_def by simp_all
qed

lemma limiter_build_Ret:
  assumes "limiter_build S cfg = Ret l"
  shows "cl_global l = sem_new S (ls_max_concurrent_requests (gc_listener cfg))"
    and "cl_routes l = map_of (collect_map (List.map_filter
          (\<lambda>r. map_option (\<lambda>limit. (rt_id r, sem_new S limit)) (rt_max_concurrent_requests r)) (gc_routes cfg)))"
    and "limits_fit cfg"
proof -
  from assms show "limits_fit cfg" using limiter_build_cases(1) by blast
qed (use assms in \<open>auto simp: limiter_build_def split: if_splits\<close>)

lemma conc_inv_start:
  assumes "semaphore_laws S" and "distinct (map rt_id (gc_routes cfg))" and "limiter_build S cfg = Ret l"
  shows "conc_inv S (unat (ls_max_concurrent_requests (gc_listener cfg))) (route_limits cfg) (conc_start l)"
proof -
  note built = limiter_build_Ret [OF assms(3)]
  have "cl_routes l r = Option.bind (List.find (\<lambda>q. rt_id q = r) (gc_routes cfg))
      (\<lambda>q. map_option (sem_new S) (rt_max_concurrent_requests q))" for r
    using limit_entries(2) [OF assms(2), of "sem_new S" r]
      collect_map_distinct [OF limit_entries(1) [OF assms(2), of "sem_new S"]]
    by (simp add: built(2))
  moreover have "n \<le> MAX_PERMITS" if "List.find P (gc_routes cfg) = Some q" "rt_max_concurrent_requests q = Some n" for P q n
    using built(3) that unfolding limits_fit_def by (auto dest: find_SomeD)
  ultimately have "rel_option (\<lambda>sem n. sem_available S sem = n) (cl_routes l r) (route_limits cfg r)" for r
    by (cases "List.find (\<lambda>q. rt_id q = r) (gc_routes cfg)"; cases "rt_max_concurrent_requests (the (List.find (\<lambda>q. rt_id q = r) (gc_routes cfg)))")
      (auto simp: route_limits_def semaphore_rules(1) [OF assms(1)])
  moreover have "sem_available S (cl_global l) = unat (ls_max_concurrent_requests (gc_listener cfg))"
    using built(1,3) semaphore_rules(1) [OF assms(1)] by (simp add: limits_fit_def)
  ultimately show ?thesis by (simp add: conc_inv_def conc_start_def)
qed

interpretation gate: invariant_system "conc_step S" "\<lambda>s. semaphore_laws S \<and> conc_inv S g caps s" for S g caps
  by unfold_locales (auto intro: conc_inv_step)

lemma conc_inv_reachable:
  assumes "(conc_step S)\<^sup>*\<^sup>* s0 s" and "semaphore_laws S" and "conc_inv S g caps s0"
  shows "conc_inv S g caps s"
  using gate.inv_steps [OF assms(1)] assms(2,3) by blast

lemma route_limits_route:
  assumes "distinct (map rt_id (gc_routes cfg))" and "r \<in> set (gc_routes cfg)"
  shows "route_limits cfg (rt_id r) = map_option unat (rt_max_concurrent_requests r)"
proof -
  have "List.find (\<lambda>q. rt_id q = rt_id r) rs = Some r" if "distinct (map rt_id rs)" "r \<in> set rs" for rs
    using that by (induction rs) (auto simp: rev_image_eqI)
  with assms show ?thesis by (simp add: route_limits_def)
qed

section \<open>Properties\<close>

text \<open>A semaphore as its number of permits.\<close>

definition nat_semaphore :: "nat semaphore_lib" where
  "nat_semaphore = \<lparr>sem_new = unat, sem_available = id, sem_take = (\<lambda>n. n - 1), sem_put = Suc\<rparr>"

lemma nat_semaphore_laws: "semaphore_laws nat_semaphore"
  by (simp add: semaphore_laws_def nat_semaphore_def)

text \<open>C9: The bulkheads hold. However requests wait for, get, are refused and drop their permits, the
  requests past the global gate are never more than \<open>max_concurrent_requests\<close> of the listener, and the
  requests running on a route with a limit are never more than that limit.\<close>

theorem concurrency_limits_hold:
  assumes "semaphore_laws S" and "distinct (map rt_id (gc_routes cfg))" and "limiter_build S cfg = Ret l"
    and "(conc_step S)\<^sup>*\<^sup>* (conc_start l) s"
  shows "size (cs_waiting s) + size (cs_running s) \<le> unat (ls_max_concurrent_requests (gc_listener cfg)) \<and>
    (\<forall>r \<in> set (gc_routes cfg). \<forall>n. rt_max_concurrent_requests r = Some n \<longrightarrow>
       on_route (rt_id r) (cs_running s) \<le> unat n)"
proof -
  note inv = conc_inv_reachable [OF assms(4,1) conc_inv_start [OF assms(1-3)]]
  have "on_route (rt_id r) (cs_running s) \<le> unat n"
    if "r \<in> set (gc_routes cfg)" "rt_max_concurrent_requests r = Some n" for r n
    using conc_invD(3) [OF inv, of "rt_id r"] route_limits_route [OF assms(2) that(1)] that(2)
    by (auto simp: option_rel_Some2)
  with conc_invD(1) [OF inv] show ?thesis by auto
qed

definition sample_limiter :: "nat concurrency_limiter" where
  "sample_limiter = \<lparr>cl_global = 10000, cl_routes = Map.empty, cl_acquire_timeout = from_millis default_concurrency_acquire_timeout_ms\<rparr>"

lemma sample_limiter_built: "limiter_build nat_semaphore (sample_config [sample_root]) = Ret sample_limiter"
proof -
  have "(10000 :: usize) \<le> MAX_PERMITS" unfolding MAX_PERMITS_def by code_simp
  then show ?thesis
    by (simp add: limiter_build_def sample_limiter_def nat_semaphore_def sample_config_def sample_root_def
        default_max_concurrent_requests_def map_filter_simps collect_map_def)
qed

lemma sample_enter:
  "conc_step nat_semaphore (conc_start sample_limiter)
     ((conc_start sample_limiter)\<lparr>cs_limiter := snd (acquire_global nat_semaphore Granted sample_limiter), cs_waiting := {#''root''#}\<rparr>)"
  using conc_step.enter [of nat_semaphore "conc_start sample_limiter" _ "''root''"]
  by (simp add: acquire_global_def conc_start_def sample_limiter_def nat_semaphore_def)

theorem concurrency_limits_hold_witness:
  "\<exists>s. (conc_step nat_semaphore)\<^sup>*\<^sup>* (conc_start sample_limiter) s \<and>
     cs_waiting s = {#''root''#} \<and> size (cs_waiting s) + size (cs_running s) \<le> 10000"
proof -
  let ?t = "(conc_start sample_limiter)
        \<lparr>cs_limiter := snd (acquire_global nat_semaphore Granted sample_limiter), cs_waiting := {#''root''#}\<rparr>"
  have "(conc_step nat_semaphore)\<^sup>*\<^sup>* (conc_start sample_limiter) ?t" using sample_enter by blast
  moreover from concurrency_limits_hold [OF nat_semaphore_laws _ sample_limiter_built this]
  have "size (cs_waiting ?t) + size (cs_running ?t) \<le> 10000"
    by (simp add: sample_config_def default_max_concurrent_requests_def)
  moreover have "cs_waiting ?t = {#''root''#}" by simp
  ultimately show ?thesis by blast
qed

text \<open>No permit is lost. Whenever no request waits or runs, whatever happened before (refusals and
  dropped requests included), the global semaphore and every route's semaphore have all their permits
  again.\<close>

theorem concurrency_permits_restored:
  assumes "semaphore_laws S" and "distinct (map rt_id (gc_routes cfg))"
    and "limiter_build S cfg = Ret l" and "(conc_step S)\<^sup>*\<^sup>* (conc_start l) s" and "cs_waiting s = {#}" and "cs_running s = {#}"
  shows "sem_available S (cl_global (cs_limiter s)) = unat (ls_max_concurrent_requests (gc_listener cfg)) \<and>
    (\<forall>r \<in> set (gc_routes cfg). map_option (sem_available S) (cl_routes (cs_limiter s) (rt_id r)) =
       map_option unat (rt_max_concurrent_requests r))"
proof -
  note inv = conc_inv_reachable [OF assms(4,1) conc_inv_start [OF assms(1-3)]]
  have "map_option (sem_available S) (cl_routes (cs_limiter s) (rt_id r)) = map_option unat (rt_max_concurrent_requests r)"
    if "r \<in> set (gc_routes cfg)" for r
    using conc_invD(3) [OF inv, of "rt_id r"] route_limits_route [OF assms(2) that] assms(6)
    by (cases "cl_routes (cs_limiter s) (rt_id r)"; cases "rt_max_concurrent_requests r") auto
  with conc_invD(1) [OF inv] assms(5,6) show ?thesis by simp
qed

theorem concurrency_permits_restored_witness:
  "sem_available nat_semaphore (cl_global (cs_limiter (conc_start sample_limiter))) = 10000"
  using concurrency_permits_restored [OF nat_semaphore_laws _ sample_limiter_built, of "conc_start sample_limiter"]
  by (simp add: conc_start_def) (simp add: sample_config_def default_max_concurrent_requests_def)

end
