(* ===== verification/Auth.thy ===== *)
theory Auth
  imports Config Libs
begin

text \<open>
  The crate \<open>gateway-auth\<close>: the error type with its status codes, the JWT provider with its key cache, the API
  key provider, the mTLS provider and the pipeline that runs the enabled ones.

  Third-party code is an argument: the record \<open>jwt_lib\<close> holds what is used of jsonwebtoken, and the JWKS
  endpoint, the Redis GET and the parsing of a key record are arguments of the providers. The clock
  readings of \<open>get_key\<close> and what other requests do to the cache while it waits for the write lock are
  arguments too. The certificate extension of a request is its DER bytes, if any.
\<close>

section \<open>Context and errors\<close>

datatype auth_mechanism = Jwt | ApiKey | Mtls

record 'j claims =
  cl_sub :: string
  cl_iss :: "string option"
  cl_aud :: "'j option"
  cl_exp :: "u64 option"
  cl_scope :: "string option"
  cl_extra :: "'j hash_map"

definition claims_scopes :: "'j claims \<Rightarrow> string list" where
  "claims_scopes c = (case cl_scope c of Some s \<Rightarrow> split_whitespace s | None \<Rightarrow> [])"

record peer_identity =
  pi_subject_dn :: string
  pi_issuer_dn :: string
  pi_fingerprint :: string

record 'j auth_context =
  ac_subject :: string
  ac_mechanisms :: "auth_mechanism list"
  ac_claims :: "'j claims option"
  ac_peer_identity :: "peer_identity option"

datatype auth_error =
    JwksFetch string
  | UnknownKid string
  | InvalidToken string
  | MissingToken
  | InvalidApiKey
  | MissingApiKey
  | ApiKeyStore string
  | MissingClientCert
  | InvalidClientCert string
  | NoProviderEnabled
  | AuthConfigError string

fun auth_status_code :: "auth_error \<Rightarrow> u16" where
  "auth_status_code MissingToken = 401"
| "auth_status_code MissingApiKey = 401"
| "auth_status_code MissingClientCert = 401"
| "auth_status_code (InvalidToken _) = 403"
| "auth_status_code InvalidApiKey = 403"
| "auth_status_code (UnknownKid _) = 403"
| "auth_status_code (InvalidClientCert _) = 403"
| "auth_status_code (JwksFetch _) = 503"
| "auth_status_code (ApiKeyStore _) = 503"
| "auth_status_code _ = 500"

definition is_client_error :: "auth_error \<Rightarrow> bool" where
  "is_client_error e \<longleftrightarrow> auth_status_code e < 500"

fun auth_error_display :: "auth_error \<Rightarrow> string" where
  "auth_error_display (JwksFetch m) = ''JWKS fetch failed: '' @ m"
| "auth_error_display (UnknownKid m) = ''unknown key ID: '' @ m"
| "auth_error_display (InvalidToken m) = ''invalid token: '' @ m"
| "auth_error_display MissingToken = ''missing bearer token''"
| "auth_error_display InvalidApiKey = ''invalid API key''"
| "auth_error_display MissingApiKey = ''missing API key header''"
| "auth_error_display (ApiKeyStore m) = ''API key store error: '' @ m"
| "auth_error_display MissingClientCert = ''missing client certificate''"
| "auth_error_display (InvalidClientCert m) = ''invalid client certificate: '' @ m"
| "auth_error_display NoProviderEnabled = ''no auth provider enabled''"
| "auth_error_display (AuthConfigError m) = ''auth config error: '' @ m"

section \<open>JWT\<close>

record jwk =
  jwk_key_id :: "string option"
  jwk_key_type :: string
  jwk_n :: "string option"
  jwk_e :: "string option"
  jwk_crv :: "string option"
  jwk_x :: "string option"
  jwk_y :: "string option"

datatype algorithm =
    HS256 | HS384 | HS512 | ES256 | ES384 | RS256 | RS384 | RS512 | PS256 | PS384 | PS512 | EdDSA

record jwt_header =
  jh_alg :: algorithm
  jh_kid :: "string option"

record jwt_validation =
  jv_algorithm :: algorithm
  jv_audience :: "string list"
  jv_issuers :: "string list"
  jv_validate_exp :: bool
  jv_validate_nbf :: bool

record ('key, 'j) jwt_lib =
  jwt_decode_header :: "string \<Rightarrow> string + jwt_header"
  jwt_decode :: "string \<Rightarrow> 'key \<Rightarrow> jwt_validation \<Rightarrow> string + 'j claims"
  key_from_rsa :: "string \<Rightarrow> string \<Rightarrow> string + 'key"
  key_from_ec :: "string \<Rightarrow> string \<Rightarrow> string + 'key"

record key_cache =
  kc_keys :: "jwk list"
  kc_fetched_at :: nat
  kc_ttl :: duration

definition kc_is_expired :: "nat \<Rightarrow> key_cache \<Rightarrow> bool" where
  "kc_is_expired now c \<longleftrightarrow> now - kc_fetched_at c > kc_ttl c"

definition kc_find_key :: "key_cache \<Rightarrow> string option \<Rightarrow> jwk option" where
  "kc_find_key c kid =
     (case kid of
        Some k \<Rightarrow> List.find (\<lambda>j. jwk_key_id j = Some k) (kc_keys c)
      | None \<Rightarrow> (case kc_keys c of [] \<Rightarrow> None | j # _ \<Rightarrow> Some j))"

definition unknown_kid :: "string option \<Rightarrow> auth_error" where
  "unknown_kid kid = UnknownKid (case kid of None \<Rightarrow> ''(none)'' | Some k \<Rightarrow> k)"

text \<open>\<open>get_key\<close>: \<open>t1\<close>, \<open>t2\<close> and \<open>t3\<close> are the clock at the check under the read lock, at the check under the
  write lock and after the fetch, \<open>others\<close> what happened to the cache before the write lock was granted, and
  \<open>fetched\<close> the result of \<open>fetch_jwks\<close>. The part under the write lock comes first.\<close>

definition get_key_locked ::
  "jwt_config \<Rightarrow> nat \<Rightarrow> (auth_error + jwk list) \<Rightarrow> nat \<Rightarrow> string option \<Rightarrow> key_cache option \<Rightarrow>
   (auth_error + jwk) \<times> key_cache option" where
  "get_key_locked cfg t2 fetched t3 kid cache =
     (let refresh =
        (case fetched of
           Inr keys \<Rightarrow>
             (let found = List.find (\<lambda>k. jwk_key_id k = kid) keys
              in (ok_or (unknown_kid kid) found,
                  Some \<lparr>kc_keys = keys, kc_fetched_at = t3, kc_ttl = jc_jwks_cache_ttl cfg\<rparr>))
         | Inl e \<Rightarrow>
             (case cache of
                Some c \<Rightarrow> (ok_or (unknown_kid kid) (kc_find_key c kid), cache)
              | None \<Rightarrow> (Inl e, cache)))
      in case cache of
           Some c \<Rightarrow> (if \<not> kc_is_expired t2 c then (ok_or (unknown_kid kid) (kc_find_key c kid), cache) else refresh)
         | None \<Rightarrow> refresh)"

definition get_key ::
  "jwt_config \<Rightarrow> nat \<Rightarrow> (key_cache option \<Rightarrow> key_cache option) \<Rightarrow> nat \<Rightarrow> (auth_error + jwk list) \<Rightarrow> nat \<Rightarrow>
   string option \<Rightarrow> key_cache option \<Rightarrow> (auth_error + jwk) \<times> key_cache option" where
  "get_key cfg t1 others t2 fetched t3 kid cache =
     (let slow = get_key_locked cfg t2 fetched t3 kid (others cache)
      in case cache of
           Some c \<Rightarrow> (if \<not> kc_is_expired t1 c then (ok_or (unknown_kid kid) (kc_find_key c kid), cache) else slow)
         | None \<Rightarrow> slow)"

text \<open>The JWKS endpoint: parsing the URL and building the request, the response's status and body, and the
  parsing of the body are arguments.\<close>

definition fetch_jwks ::
  "(string \<Rightarrow> string + 'u) \<Rightarrow> ('u \<Rightarrow> string + 'req) \<Rightarrow> ('req \<Rightarrow> string + (u16 \<times> string \<times> (string + bytes))) \<Rightarrow>
   (bytes \<Rightarrow> string + jwk list) \<Rightarrow> jwt_config \<Rightarrow> auth_error + jwk list" where
  "fetch_jwks parse_uri build_req request from_slice cfg =
     try_bind (map_err (\<lambda>e. JwksFetch (''invalid JWKS URL: '' @ e)) (parse_uri (jc_jwks_url cfg))) (\<lambda>uri.
     try_bind (map_err JwksFetch (build_req uri)) (\<lambda>req.
     try_bind (map_err JwksFetch (request req)) (\<lambda>(status, status_text, body).
       if \<not> (200 \<le> status \<and> status < 300) then Inl (JwksFetch (''JWKS endpoint returned '' @ status_text))
       else try_bind (map_err JwksFetch body) (\<lambda>bs.
         map_err (\<lambda>e. JwksFetch (''invalid JWKS JSON: '' @ e)) (from_slice bs)))))"

definition extract_bearer :: "('hm, 'hv, 'u) http_lib \<Rightarrow> 'hm \<Rightarrow> auth_error + string" where
  "extract_bearer L headers =
     try_bind (ok_or MissingToken (hm_get L headers ''authorization'')) (\<lambda>v.
     try_bind (ok_or MissingToken (hv_to_str L v)) (\<lambda>value.
     ok_or MissingToken (strip_prefix value ''Bearer '')))"

definition jwk_to_decoding_key :: "('key, 'j) jwt_lib \<Rightarrow> jwk \<Rightarrow> auth_error + 'key" where
  "jwk_to_decoding_key J k =
     (if jwk_key_type k = ''RSA'' then
        try_bind (ok_or (InvalidToken (''RSA JWK missing '' @ quoted ''n'')) (jwk_n k)) (\<lambda>n.
        try_bind (ok_or (InvalidToken (''RSA JWK missing '' @ quoted ''e'')) (jwk_e k)) (\<lambda>e.
        map_err (\<lambda>m. InvalidToken (''RSA key error: '' @ m)) (key_from_rsa J n e)))
      else if jwk_key_type k = ''EC'' then
        try_bind (ok_or (InvalidToken (''EC JWK missing '' @ quoted ''x'')) (jwk_x k)) (\<lambda>x.
        try_bind (ok_or (InvalidToken (''EC JWK missing '' @ quoted ''y'')) (jwk_y k)) (\<lambda>y.
        map_err (\<lambda>m. InvalidToken (''EC key error: '' @ m)) (key_from_ec J x y)))
      else Inl (InvalidToken (''unsupported key type: '' @ jwk_key_type k)))"

definition build_validation :: "jwt_config \<Rightarrow> algorithm \<Rightarrow> jwt_validation" where
  "build_validation cfg alg =
     \<lparr>jv_algorithm = (case alg of HS256 \<Rightarrow> RS256 | HS384 \<Rightarrow> RS256 | HS512 \<Rightarrow> RS256 | a \<Rightarrow> a),
      jv_audience = jc_audience cfg, jv_issuers = jc_issuers cfg,
      jv_validate_exp = True, jv_validate_nbf = True\<rparr>"

text \<open>Validating a token, given the key lookup of this call.\<close>

definition validate_token ::
  "('key, 'j) jwt_lib \<Rightarrow> jwt_config \<Rightarrow> (string option \<Rightarrow> key_cache option \<Rightarrow> (auth_error + jwk) \<times> key_cache option) \<Rightarrow>
   string \<Rightarrow> key_cache option \<Rightarrow> (auth_error + 'j claims) \<times> key_cache option" where
  "validate_token J cfg lookup token cache =
     (case map_err (\<lambda>e. InvalidToken (''malformed header: '' @ e)) (jwt_decode_header J token) of
        Inl e \<Rightarrow> (Inl e, cache)
      | Inr header \<Rightarrow>
          (case lookup (jh_kid header) cache of
             (Inl e, cache') \<Rightarrow> (Inl e, cache')
           | (Inr k, cache') \<Rightarrow>
               (try_bind (jwk_to_decoding_key J k) (\<lambda>key.
                  map_err InvalidToken (jwt_decode J token key (build_validation cfg (jh_alg header)))), cache')))"

definition jwt_verify ::
  "('hm, 'hv, 'u) http_lib \<Rightarrow> ('key, 'j) jwt_lib \<Rightarrow> jwt_config \<Rightarrow>
   (string option \<Rightarrow> key_cache option \<Rightarrow> (auth_error + jwk) \<times> key_cache option) \<Rightarrow>
   'hm \<Rightarrow> key_cache option \<Rightarrow> (auth_error + 'j claims) \<times> key_cache option" where
  "jwt_verify L J cfg lookup headers cache =
     (case extract_bearer L headers of
        Inl e \<Rightarrow> (Inl e, cache)
      | Inr token \<Rightarrow> validate_token J cfg lookup token cache)"

section \<open>API keys\<close>

record api_key_record =
  akr_subject :: string
  akr_active :: bool

definition extract_api_key :: "('hm, 'hv, 'u) http_lib \<Rightarrow> 'hm \<Rightarrow> auth_error + string" where
  "extract_api_key L headers =
     try_bind (ok_or MissingApiKey (hm_get L headers ''x-api-key'')) (\<lambda>v.
     ok_or MissingApiKey (hv_to_str L v))"

text \<open>\<open>redis_get\<close> is the Redis GET, \<open>from_json\<close> the parsing of the stored record.\<close>

definition api_key_lookup ::
  "(string \<Rightarrow> string + string option) \<Rightarrow> (string \<Rightarrow> string + api_key_record) \<Rightarrow> string \<Rightarrow> string \<Rightarrow>
   auth_error + api_key_record" where
  "api_key_lookup redis_get from_json key_prefix raw_key =
     try_bind (map_err ApiKeyStore (redis_get (key_prefix @ raw_key))) (\<lambda>value.
     try_bind (ok_or InvalidApiKey value) (\<lambda>json.
     try_bind (map_err (\<lambda>e. ApiKeyStore (''corrupt key record: '' @ e)) (from_json json)) (\<lambda>record.
       if \<not> akr_active record then Inl InvalidApiKey else Inr record)))"

definition api_key_verify ::
  "('hm, 'hv, 'u) http_lib \<Rightarrow> (string \<Rightarrow> string + string option) \<Rightarrow> (string \<Rightarrow> string + api_key_record) \<Rightarrow> string \<Rightarrow> 'hm \<Rightarrow>
   auth_error + api_key_record" where
  "api_key_verify L redis_get from_json key_prefix headers =
     try_bind (extract_api_key L headers) (\<lambda>raw_key. api_key_lookup redis_get from_json key_prefix raw_key)"

section \<open>mTLS\<close>

definition hex_digit :: "nat \<Rightarrow> char" where
  "hex_digit d = (if d < 10 then char_of (48 + d) else char_of (87 + d))"

text \<open>The format \<open>{:016x}\<close>.\<close>

definition hex16 :: "u64 \<Rightarrow> string" where
  "hex16 w = map (\<lambda>i. hex_digit (unat w div 16 ^ (15 - i) mod 16)) [0..<16]"

text \<open>The placeholder fingerprint: every byte shifted by its position modulo eight, combined by exclusive or.\<close>

definition compute_sha256_fingerprint :: "bytes \<Rightarrow> string" where
  "compute_sha256_fingerprint cert =
     hex16 (foldl (\<lambda>h (i, b). xor h (push_bit (i mod 8) (ucast b))) 0 (enumerate 0 cert))"

definition parse_dns_from_der :: "bytes \<Rightarrow> (string \<times> string) option" where
  "parse_dns_from_der cert = None"

definition extract_identity :: "bytes \<Rightarrow> auth_error + peer_identity" where
  "extract_identity cert =
     (let (subject_dn, issuer_dn) = (case parse_dns_from_der cert of
            None \<Rightarrow> (''(unknown)'', ''(unknown)'') | Some d \<Rightarrow> d)
      in Inr \<lparr>pi_subject_dn = subject_dn, pi_issuer_dn = issuer_dn,
              pi_fingerprint = compute_sha256_fingerprint cert\<rparr>)"

definition mtls_verify :: "bool \<Rightarrow> bytes option \<Rightarrow> auth_error + peer_identity option" where
  "mtls_verify required cert_ext =
     (case cert_ext of
        Some cert \<Rightarrow> try_bind (extract_identity cert) (\<lambda>identity. Inr (Some identity))
      | None \<Rightarrow> (if required then Inl MissingClientCert else Inr None))"

section \<open>Constructors\<close>

text \<open>The providers of the pipeline. The key cache is empty until the first request fetches the keys.\<close>

record 'm api_key_provider =
  akp_prefix :: string
  akp_conn :: 'm

record jwt_provider =
  jp_config :: jwt_config
  jp_key_cache :: "key_cache option"

record 'm auth_pipeline =
  ap_jwt :: jwt_provider
  ap_api_key :: "'m api_key_provider"
  ap_mtls_required :: bool

definition api_key_provider_new :: "('cl, 'm) redis_client \<Rightarrow> api_key_config \<Rightarrow> auth_error + 'm api_key_provider" where
  "api_key_provider_new RC cfg =
     try_bind (redis_connect RC ApiKeyConn ApiKeyStore (ak_redis_url cfg)) (\<lambda>conn.
       Inr \<lparr>akp_prefix = ak_redis_key_prefix cfg, akp_conn = conn\<rparr>)"

definition jwt_provider_new :: "jwt_config \<Rightarrow> jwt_provider" where
  "jwt_provider_new cfg = \<lparr>jp_config = cfg, jp_key_cache = None\<rparr>"

definition auth_pipeline_new :: "('cl, 'm) redis_client \<Rightarrow> auth_config \<Rightarrow> auth_error + 'm auth_pipeline" where
  "auth_pipeline_new RC cfg =
     (let jwt = jwt_provider_new (au_jwt cfg)
      in try_bind (api_key_provider_new RC (au_api_keys cfg)) (\<lambda>api_key.
           Inr \<lparr>ap_jwt = jwt, ap_api_key = api_key, ap_mtls_required = mt_required (au_mtls cfg)\<rparr>))"

section \<open>Pipeline\<close>

text \<open>The providers as functions of this request: the JWT provider works on the key cache; the API key
  provider's answer and the certificate are given.\<close>

definition auth_run ::
  "(key_cache option \<Rightarrow> (auth_error + 'j claims) \<times> key_cache option) \<Rightarrow> (auth_error + api_key_record) \<Rightarrow>
   bool \<Rightarrow> bytes option \<Rightarrow> auth_middleware_config option \<Rightarrow> key_cache option \<Rightarrow>
   (auth_error + 'j auth_context option) \<times> key_cache option" where
  "auth_run verify_jwt verify_key mtls_required cert_ext middleware_cfg cache =
     (case middleware_cfg of
        None \<Rightarrow> (Inr None, cache)
      | Some cfg \<Rightarrow>
          (if \<not> am_jwt cfg \<and> \<not> am_api_key cfg \<and> \<not> am_mtls cfg then (Inr None, cache)
           else
             (let (jwt_result, cache') =
                    (if am_jwt cfg then (case verify_jwt cache of (r, c) \<Rightarrow> (map_sum id Some r, c))
                     else (Inr None, cache))
              in (try_bind jwt_result (\<lambda>jwt_claims.
                  try_bind (if am_api_key cfg then map_sum id Some verify_key else Inr None) (\<lambda>key_record.
                  try_bind (if am_mtls cfg then mtls_verify mtls_required cert_ext else Inr None) (\<lambda>identity.
                    let subject1 = map_option cl_sub jwt_claims;
                        subject2 = (case subject1 of None \<Rightarrow> map_option akr_subject key_record | Some s \<Rightarrow> Some s);
                        subject3 = (case subject2 of None \<Rightarrow> map_option pi_subject_dn identity | Some s \<Rightarrow> Some s);
                        mechanisms = (if am_jwt cfg then [Jwt] else []) @ (if am_api_key cfg then [ApiKey] else []) @
                                     (if am_mtls cfg then [Mtls] else [])
                    in Inr (Some \<lparr>ac_subject = (case subject3 of None \<Rightarrow> ''(anonymous)'' | Some s \<Rightarrow> s),
                                  ac_mechanisms = mechanisms, ac_claims = jwt_claims,
                                  ac_peer_identity = identity\<rparr>)))), cache'))))"

text \<open>The pipeline with its providers: the surroundings of one request are the record \<open>auth_env\<close>.\<close>

record ('key, 'j) auth_env =
  ae_jwt :: "('key, 'j) jwt_lib"
  ae_t1 :: nat
  ae_t2 :: nat
  ae_t3 :: nat
  ae_others :: "key_cache option \<Rightarrow> key_cache option"
  ae_fetched :: "auth_error + jwk list"
  ae_redis_get :: "string \<Rightarrow> string + string option"
  ae_from_json :: "string \<Rightarrow> string + api_key_record"

definition auth_pipeline_run ::
  "('hm, 'hv, 'u) http_lib \<Rightarrow> ('key, 'j) auth_env \<Rightarrow> auth_config \<Rightarrow> auth_middleware_config option \<Rightarrow> 'hm \<Rightarrow> bytes option \<Rightarrow>
   key_cache option \<Rightarrow> (auth_error + 'j auth_context option) \<times> key_cache option" where
  "auth_pipeline_run L E acfg middleware_cfg headers cert_ext cache =
     auth_run
       (jwt_verify L (ae_jwt E) (au_jwt acfg)
          (get_key (au_jwt acfg) (ae_t1 E) (ae_others E) (ae_t2 E) (ae_fetched E) (ae_t3 E)) headers)
       (api_key_verify L (ae_redis_get E) (ae_from_json E) (ak_redis_key_prefix (au_api_keys acfg)) headers)
       (mt_required (au_mtls acfg)) cert_ext middleware_cfg cache"

section \<open>Lemmas\<close>

text \<open>A scope claim that joins words by spaces lists exactly these words.\<close>

lemma claims_scopes_words:
  assumes "cl_scope c = Some (u @ concat (map (\<lambda>u. CHR '' '' # u) us))"
    and "\<forall>u \<in> set (u # us). u \<noteq> [] \<and> (\<forall>w \<in> set white_space. hd w \<notin> set u)"
  shows "claims_scopes c = u # us"
proof -
  have "split_whitespace (CHR '' '' # u @ concat (map (\<lambda>u. CHR '' '' # u) us)) = u # us"
    using split_whitespace_words [OF assms(2)] by simp
  with assms(1) show ?thesis by (simp add: claims_scopes_def split_whitespace_def split_whitespace_space)
qed


lemma map_sum_Inr: "map_sum f g r = Inr y \<longleftrightarrow> (\<exists>x. r = Inr x \<and> y = g x)"
  by (cases r) auto

lemma kc_find_key_in: "kc_find_key c kid = Some k \<Longrightarrow> k \<in> set (kc_keys c)"
  by (auto simp: kc_find_key_def dest: find_SomeD split: option.splits list.splits)

text \<open>A key comes from the cache before or after the wait, or from the fetched set.\<close>

definition known_keys :: "key_cache option \<Rightarrow> jwk set" where
  "known_keys cache = (case cache of None \<Rightarrow> {} | Some c \<Rightarrow> set (kc_keys c))"

definition fetched_keys :: "auth_error + jwk list \<Rightarrow> jwk set" where
  "fetched_keys r = (case r of Inl _ \<Rightarrow> {} | Inr ks \<Rightarrow> set ks)"

text \<open>The keys a call may use: those of the cache while it is fresh, those the cache holds after the wait if it is
  fresh by then or the fetch failed, and those it has just fetched.\<close>

definition fresh_at :: "nat \<Rightarrow> key_cache option \<Rightarrow> bool" where
  "fresh_at now cache = (case cache of None \<Rightarrow> False | Some c \<Rightarrow> now - kc_fetched_at c \<le> kc_ttl c)"

definition trusted_keys ::
  "nat \<Rightarrow> key_cache option \<Rightarrow> nat \<Rightarrow> key_cache option \<Rightarrow> auth_error + jwk list \<Rightarrow> jwk set" where
  "trusted_keys t1 cache t2 cache2 fetched =
     (if fresh_at t1 cache then known_keys cache
      else if fresh_at t2 cache2 \<or> isl fetched then known_keys cache2 else fetched_keys fetched)"

lemma get_key_source:
  assumes "get_key cfg t1 others t2 fetched t3 kid cache = (Inr k, cache')"
  shows "k \<in> trusted_keys t1 cache t2 (others cache) fetched"
proof -
  have locked: "k \<in> (if fresh_at t2 c \<or> isl fetched then known_keys c else fetched_keys fetched)"
    if "get_key_locked cfg t2 fetched t3 kid c = (Inr k, cache')" for c
    using that
    by (auto simp: get_key_locked_def Let_def known_keys_def fetched_keys_def fresh_at_def kc_is_expired_def
        dest: kc_find_key_in find_SomeD split: option.splits if_splits sum.splits)
  show ?thesis
  proof (cases cache)
    case None
    with assms locked [of "others None"] show ?thesis
      by (simp add: get_key_def Let_def trusted_keys_def fresh_at_def [of _ None])
  next
    case (Some c)
    with assms locked [of "others (Some c)"] show ?thesis
      by (auto simp: get_key_def Let_def trusted_keys_def fresh_at_def known_keys_def kc_is_expired_def
          dest: kc_find_key_in split: if_splits)
  qed
qed

text \<open>The key of a token that names one is a key of that name.\<close>

lemma kc_find_key_kid: "kc_find_key c (Some n) = Some k \<Longrightarrow> jwk_key_id k = Some n"
  by (auto simp: kc_find_key_def dest: find_SomeD)

lemma get_key_kid:
  assumes "get_key cfg t1 others t2 fetched t3 (Some n) cache = (Inr k, cache')"
  shows "jwk_key_id k = Some n"
  using assms
  by (auto simp: get_key_def get_key_locked_def Let_def dest: kc_find_key_kid find_SomeD
      split: option.splits if_splits sum.splits)

lemma extract_bearer_Inr:
  "extract_bearer L h = Inr token \<longleftrightarrow> header_str L h ''authorization'' = Some (''Bearer '' @ token)"
  by (auto simp: extract_bearer_def header_str_def try_bind_Inr strip_prefix_Some
      split: option.splits Option.bind_splits)

lemma api_key_verify_Inr:
  "api_key_verify L rget fj pre h = Inr r \<longleftrightarrow>
     (\<exists>raw json. header_str L h ''x-api-key'' = Some raw \<and> rget (pre @ raw) = Inr (Some json) \<and>
        fj json = Inr r \<and> akr_active r)"
  by (auto simp: api_key_verify_def extract_api_key_def api_key_lookup_def header_str_def try_bind_Inr
      split: Option.bind_splits if_splits)

lemma jwt_verify_Inr:
  assumes "jwt_verify L J cfg look h cache = (Inr c, cache')"
  obtains token hdr k key where "header_str L h ''authorization'' = Some (''Bearer '' @ token)"
    "jwt_decode_header J token = Inr hdr" "look (jh_kid hdr) cache = (Inr k, cache')"
    "jwk_to_decoding_key J k = Inr key"
    "jwt_decode J token key (build_validation cfg (jh_alg hdr)) = Inr c"
proof -
  from assms obtain token where t: "extract_bearer L h = Inr token"
    and v: "validate_token J cfg look token cache = (Inr c, cache')"
    by (auto simp: jwt_verify_def split: sum.splits)
  from v obtain hdr where hdr: "jwt_decode_header J token = Inr hdr"
    by (cases "jwt_decode_header J token") (auto simp: validate_token_def map_err_def)
  obtain r cache1 where l: "look (jh_kid hdr) cache = (r, cache1)" by fastforce
  with v hdr obtain k where k: "r = Inr k" "cache1 = cache'"
    by (cases r) (auto simp: validate_token_def map_err_def)
  from v hdr l k that t show thesis
    by (auto simp: validate_token_def map_err_def try_bind_Inr extract_bearer_Inr map_sum_Inr)
qed

text \<open>What the decoder is told to check: the configured audience and issuers, both time claims, and a
  signature algorithm that is never symmetric.\<close>

definition strict_validation :: "jwt_config \<Rightarrow> algorithm \<Rightarrow> jwt_validation \<Rightarrow> bool" where
  "strict_validation cfg alg v \<longleftrightarrow>
     jv_audience v = jc_audience cfg \<and> jv_issuers v = jc_issuers cfg \<and> jv_validate_exp v \<and> jv_validate_nbf v \<and>
     jv_algorithm v = (if alg \<in> {HS256, HS384, HS512} then RS256 else alg)"

lemma build_validation_strict: "strict_validation cfg alg (build_validation cfg alg)"
  by (cases alg) (simp_all add: build_validation_def strict_validation_def)

lemma auth_run_Inr:
  assumes "auth_run vj vk req cert (Some mw) cache = (Inr (Some ctx), cache')"
  shows "(am_jwt mw \<longrightarrow> (\<exists>c. vj cache = (Inr c, cache') \<and> ac_claims ctx = Some c \<and> ac_subject ctx = cl_sub c))"
    and "am_api_key mw \<longrightarrow> (\<exists>r. vk = Inr r \<and> (\<not> am_jwt mw \<longrightarrow> ac_subject ctx = akr_subject r))"
    and "am_mtls mw \<longrightarrow> mtls_verify req cert = Inr (ac_peer_identity ctx)"
    and "ac_mechanisms ctx = (if am_jwt mw then [Jwt] else []) @ (if am_api_key mw then [ApiKey] else []) @
      (if am_mtls mw then [Mtls] else [])"
    and "am_jwt mw \<or> am_api_key mw \<or> am_mtls mw"
  using assms
  by (auto simp: auth_run_def Let_def try_bind_Inr map_sum_Inr split: if_splits prod.splits)

section \<open>Properties\<close>

text \<open>A small instance for the closed examples: one RSA key, a token without a key identifier.\<close>

definition ex_jwk :: jwk where
  "ex_jwk = \<lparr>jwk_key_id = Some ''k1'', jwk_key_type = ''RSA'', jwk_n = Some ''n'', jwk_e = Some ''e'',
     jwk_crv = None, jwk_x = None, jwk_y = None\<rparr>"

definition ex_claims :: "unit claims" where
  "ex_claims = \<lparr>cl_sub = ''alice'', cl_iss = None, cl_aud = None, cl_exp = None, cl_scope = None, cl_extra = []\<rparr>"

definition ex_jwt_lib :: "(unit, unit) jwt_lib" where
  "ex_jwt_lib =
     \<lparr>jwt_decode_header = (\<lambda>t. Inr \<lparr>jh_alg = RS256, jh_kid = Some ''k1''\<rparr>),
      jwt_decode = (\<lambda>t k v. Inr ex_claims),
      key_from_rsa = (\<lambda>n e. Inr ()), key_from_ec = (\<lambda>x y. Inr ())\<rparr>"

definition ex_auth_env :: "(unit, unit) auth_env" where
  "ex_auth_env =
     \<lparr>ae_jwt = ex_jwt_lib, ae_t1 = 0, ae_t2 = 0, ae_t3 = 0, ae_others = id, ae_fetched = Inr [ex_jwk],
      ae_redis_get = (\<lambda>k. Inr None), ae_from_json = (\<lambda>j. Inl [])\<rparr>"

definition ex_jwt_config :: jwt_config where
  "ex_jwt_config = \<lparr>jc_jwks_url = ''http://idp/jwks'', jc_audience = [], jc_issuers = [],
     jc_jwks_cache_ttl = default_jwks_cache_ttl\<rparr>"

definition ex_auth_config :: auth_config where
  "ex_auth_config = \<lparr>au_jwt = ex_jwt_config,
     au_api_keys = \<lparr>ak_redis_key_prefix = ''k:'', ak_redis_url = []\<rparr>,
     au_mtls = \<lparr>mt_client_ca_path = [], mt_required = True\<rparr>\<rparr>"

lemmas auth_eval = ex_jwk_def ex_claims_def ex_jwt_lib_def ex_auth_env_def ex_jwt_config_def ex_auth_config_def

text \<open>C6: An authenticated request has passed every mechanism its route enables. With JWT it carried a
  bearer token that decodes, checked for the configured audience and issuers, its time claims and an asymmetric
  algorithm, under a key that bears the token's key identifier if it has one and that was just fetched, or is
  cached and within its lifetime (or past it while the key endpoint is failing); with an API key it carried a key whose record is in the store and active;
  with required mTLS it has a certificate. The recorded mechanisms are exactly the enabled ones, in order,
  and the subject is the token's if JWT is enabled.\<close>

theorem authenticated_means_verified:
  assumes "auth_pipeline_run L E acfg (Some mw) headers cert cache = (Inr (Some ctx), cache')"
  shows "(am_jwt mw \<longrightarrow> (\<exists>token hdr k key v c.
      header_str L headers ''authorization'' = Some (''Bearer '' @ token) \<and>
      jwt_decode_header (ae_jwt E) token = Inr hdr \<and>
      k \<in> trusted_keys (ae_t1 E) cache (ae_t2 E) (ae_others E cache) (ae_fetched E) \<and>
      (jh_kid hdr = None \<or> jwk_key_id k = jh_kid hdr) \<and> jwk_to_decoding_key (ae_jwt E) k = Inr key \<and>
      strict_validation (au_jwt acfg) (jh_alg hdr) v \<and> jwt_decode (ae_jwt E) token key v = Inr c \<and>
      ac_subject ctx = cl_sub c)) \<and>
    (am_api_key mw \<longrightarrow> (\<exists>raw json r. header_str L headers ''x-api-key'' = Some raw \<and>
      ae_redis_get E (ak_redis_key_prefix (au_api_keys acfg) @ raw) = Inr (Some json) \<and>
      ae_from_json E json = Inr r \<and> akr_active r \<and> (\<not> am_jwt mw \<longrightarrow> ac_subject ctx = akr_subject r))) \<and>
    (am_mtls mw \<and> mt_required (au_mtls acfg) \<longrightarrow> cert \<noteq> None) \<and>
    ac_mechanisms ctx = (if am_jwt mw then [Jwt] else []) @ (if am_api_key mw then [ApiKey] else []) @
      (if am_mtls mw then [Mtls] else []) \<and> ac_mechanisms ctx \<noteq> []"
proof -
  note run = auth_run_Inr [OF assms [unfolded auth_pipeline_run_def]]
  have jwt: "\<exists>token hdr k key v c.
      header_str L headers ''authorization'' = Some (''Bearer '' @ token) \<and>
      jwt_decode_header (ae_jwt E) token = Inr hdr \<and>
      k \<in> trusted_keys (ae_t1 E) cache (ae_t2 E) (ae_others E cache) (ae_fetched E) \<and>
      (jh_kid hdr = None \<or> jwk_key_id k = jh_kid hdr) \<and> jwk_to_decoding_key (ae_jwt E) k = Inr key \<and>
      strict_validation (au_jwt acfg) (jh_alg hdr) v \<and> jwt_decode (ae_jwt E) token key v = Inr c \<and>
      ac_subject ctx = cl_sub c" if "am_jwt mw"
  proof -
    from run(1) that obtain c where c: "ac_subject ctx = cl_sub c"
      and v: "jwt_verify L (ae_jwt E) (au_jwt acfg) (get_key (au_jwt acfg) (ae_t1 E) (ae_others E) (ae_t2 E)
        (ae_fetched E) (ae_t3 E)) headers cache = (Inr c, cache')" by blast
    from v show ?thesis
      by (rule jwt_verify_Inr) (use c get_key_source get_key_kid build_validation_strict in \<open>metis option.exhaust\<close>)
  qed
  moreover have "\<exists>raw json r. header_str L headers ''x-api-key'' = Some raw \<and>
      ae_redis_get E (ak_redis_key_prefix (au_api_keys acfg) @ raw) = Inr (Some json) \<and>
      ae_from_json E json = Inr r \<and> akr_active r \<and> (\<not> am_jwt mw \<longrightarrow> ac_subject ctx = akr_subject r)" if "am_api_key mw"
    using run(2) that unfolding api_key_verify_Inr by blast
  moreover have "cert \<noteq> None" if "am_mtls mw" "mt_required (au_mtls acfg)"
    using run(3) that by (cases cert) (auto simp: mtls_verify_def)
  ultimately show ?thesis using run(4,5) by auto
qed

theorem authenticated_means_verified_witness:
  "\<exists>ctx cache'. auth_pipeline_run alist_http ex_auth_env ex_auth_config
      (Some \<lparr>am_jwt = True, am_api_key = False, am_mtls = False\<rparr>) [(''authorization'', ''Bearer t'')] None None
      = (Inr (Some ctx), cache') \<and> ac_mechanisms ctx = [Jwt]"
proof -
  have h: "extract_bearer alist_http [(''authorization'', ''Bearer t'')] = Inr ''t''"
    by (simp add: extract_bearer_Inr header_str_def alist_http_def al_get_def)
  have "\<exists>ctx cache'. auth_pipeline_run alist_http ex_auth_env ex_auth_config
      (Some \<lparr>am_jwt = True, am_api_key = False, am_mtls = False\<rparr>) [(''authorization'', ''Bearer t'')] None None
      = (Inr (Some ctx), cache')"
    by (simp add: auth_pipeline_run_def auth_run_def jwt_verify_def h validate_token_def get_key_def
        get_key_locked_def auth_eval ok_or_def map_err_def jwk_to_decoding_key_def Let_def)
  then obtain ctx cache' where *: "auth_pipeline_run alist_http ex_auth_env ex_auth_config
      (Some \<lparr>am_jwt = True, am_api_key = False, am_mtls = False\<rparr>) [(''authorization'', ''Bearer t'')] None None
      = (Inr (Some ctx), cache')" by blast
  from authenticated_means_verified [OF this] * show ?thesis by simp
qed

text \<open>An outage of the JWKS endpoint does not lock users out: with any cache, however old, a failed
  fetch answers from the cached keys and keeps the cache; only with no cache at all does the fetch error
  reach the client.\<close>

theorem jwks_outage_serves_stale:
  "get_key cfg t1 id t2 (Inl err) t3 kid (Some c) = (ok_or (unknown_kid kid) (kc_find_key c kid), Some c) \<and>
   get_key cfg t1 id t2 (Inl err) t3 kid None = (Inl err, None)"
  by (simp add: get_key_def get_key_locked_def)

text \<open>A token without a key identifier is refused by the request that fetches the key set, whenever all
  fetched keys have identifiers, although the same token is accepted from the cache afterwards: the fetch
  path looks for a key without identifier, the cache path takes the first key.\<close>

theorem missing_kid_refused_on_fetch:
  assumes "\<forall>k \<in> set (k0 # ks). jwk_key_id k \<noteq> None" and "t - t3 \<le> jc_jwks_cache_ttl cfg"
  shows "\<exists>cache. get_key cfg t1 id t2 (Inr (k0 # ks)) t3 None None = (Inl (UnknownKid ''(none)''), cache) \<and>
    get_key cfg t id t2' fetched t3' None cache = (Inr k0, cache)"
proof -
  have "List.find (\<lambda>k. jwk_key_id k = None) (k0 # ks) = None" using assms(1) by (simp add: find_None_iff)
  then show ?thesis using assms
    by (simp add: get_key_def get_key_locked_def unknown_kid_def ok_or_def kc_is_expired_def kc_find_key_def)
qed

theorem missing_kid_refused_on_fetch_witness:
  "\<exists>cache. get_key ex_jwt_config 0 id 0 (Inr [ex_jwk]) 0 None None = (Inl (UnknownKid ''(none)''), cache) \<and>
    get_key ex_jwt_config 1 id 1 (Inl (JwksFetch [])) 1 None cache = (Inr ex_jwk, cache)"
  by (rule missing_kid_refused_on_fetch) (simp_all add: auth_eval default_jwks_cache_ttl_def from_secs_def)

end
