(* ===== verification/RateLimit.thy ===== *)
theory RateLimit
  imports Auth F64
begin

text \<open>
  The crate \<open>gateway-ratelimit\<close>: the key of a request, the local token buckets (layer one) with their binary64
  arithmetic, the calls of the Redis scripts (layer two) and the two-layer check.

  An \<open>Instant\<close> is a number of nanoseconds; its reading is an argument of the operations that take one. The
  \<open>DashMap\<close> is a map. The reply of a Redis script (an error or a list of integers) is an argument of the
  second layer; the scripts themselves are modelled in their own theory.
\<close>

section \<open>Keys\<close>

definition extract_forwarded_for :: "('hm, 'hv, 'u) http_lib \<Rightarrow> 'hm \<Rightarrow> string option" where
  "extract_forwarded_for L headers =
     Option.bind (header_str L headers ''x-forwarded-for'') (\<lambda>v.
       let s = str_trim (hd (str_split (CHR '','') v)) in if s = [] then None else Some s)"

definition extract_real_ip :: "('hm, 'hv, 'u) http_lib \<Rightarrow> 'hm \<Rightarrow> string option" where
  "extract_real_ip L headers =
     Option.bind (header_str L headers ''x-real-ip'') (\<lambda>v.
       let s = str_trim v in if s = [] then None else Some s)"

definition request_identity :: "('hm, 'hv, 'u) http_lib \<Rightarrow> 'j auth_context option \<Rightarrow> 'hm \<Rightarrow> string" where
  "request_identity L auth_ctx headers =
     (case auth_ctx of
        Some ctx \<Rightarrow> ac_subject ctx
      | None \<Rightarrow>
          (case extract_forwarded_for L headers of
             Some ip \<Rightarrow> ip
           | None \<Rightarrow>
               (case extract_real_ip L headers of
                  Some ip \<Rightarrow> ip
                | None \<Rightarrow> ''anonymous'')))"

definition derive_key :: "('hm, 'hv, 'u) http_lib \<Rightarrow> string \<Rightarrow> 'j auth_context option \<Rightarrow> 'hm \<Rightarrow> string" where
  "derive_key L route_id auth_ctx headers =
     ''stateform:rl:'' @ route_id @ '':'' @ request_identity L auth_ctx headers"

section \<open>Token buckets\<close>

record bucket =
  bk_tokens :: f64
  bk_capacity :: f64
  bk_refill_rate :: f64
  bk_last_refill :: nat

definition bucket_new :: "token_bucket_config \<Rightarrow> nat \<Rightarrow> bucket" where
  "bucket_new cfg now =
     \<lparr>bk_tokens = u64_as_f64 (tb_capacity cfg), bk_capacity = u64_as_f64 (tb_capacity cfg),
      bk_refill_rate = u64_as_f64 (tb_refill_rate cfg), bk_last_refill = now\<rparr>"

text \<open>\<open>duration_since\<close> and \<open>elapsed\<close> are zero when the clock reading is earlier.\<close>

definition bucket_refilled :: "bucket \<Rightarrow> nat \<Rightarrow> f64" where
  "bucket_refilled b now =
     min (f64_add (bk_tokens b) (f64_mul (as_secs_f64 (now - bk_last_refill b)) (bk_refill_rate b))) (bk_capacity b)"

definition bucket_consume :: "nat \<Rightarrow> bucket \<Rightarrow> bool \<times> bucket" where
  "bucket_consume now b =
     (let tokens = bucket_refilled b now; b = b\<lparr>bk_last_refill := now, bk_tokens := tokens\<rparr>
      in if 1 \<le> tokens then (True, b\<lparr>bk_tokens := f64_sub tokens 1\<rparr>) else (False, b))"

definition bucket_available :: "nat \<Rightarrow> bucket \<Rightarrow> u64" where
  "bucket_available now b = f64_as_u64 (f64_floor (bucket_refilled b now))"

record l1_local_limiter =
  ll_buckets :: "string \<rightharpoonup> bucket"
  ll_config :: token_bucket_config

definition l1_limiter_new :: "token_bucket_config \<Rightarrow> l1_local_limiter" where
  "l1_limiter_new cfg = \<lparr>ll_buckets = Map.empty, ll_config = cfg\<rparr>"

text \<open>\<open>check\<close>: the clock is read when the bucket is made and again in \<open>consume\<close>.\<close>

definition l1_limiter_check :: "nat \<Rightarrow> nat \<Rightarrow> string \<Rightarrow> l1_local_limiter \<Rightarrow> bool \<times> l1_local_limiter" where
  "l1_limiter_check t_new t_consume key l =
     (let b = (case ll_buckets l key of None \<Rightarrow> bucket_new (ll_config l) t_new | Some b \<Rightarrow> b);
          (allowed, b') = bucket_consume t_consume b
      in (allowed, l\<lparr>ll_buckets := (ll_buckets l)(key \<mapsto> b')\<rparr>))"

definition l1_limiter_remaining :: "nat \<Rightarrow> string \<Rightarrow> l1_local_limiter \<Rightarrow> u64" where
  "l1_limiter_remaining now key l =
     (case ll_buckets l key of None \<Rightarrow> tb_capacity (ll_config l) | Some b \<Rightarrow> bucket_available now b)"

definition l1_limiter_capacity :: "l1_local_limiter \<Rightarrow> u64" where
  "l1_limiter_capacity l = tb_capacity (ll_config l)"

section \<open>The second layer\<close>

record l2_outcome =
  l2_allowed :: bool
  l2_remaining :: u64
  l2_retry_after_ms :: u64

datatype rate_limit_error =
    Exceeded
  | RlRedis string
  | RlScript string
  | UnknownPolicy string
  | RlConfig string

text \<open>The reply of a script is a list of \<open>i64\<close>; missing entries have defaults, negative ones become zero.\<close>

definition reply_entry :: "int list \<Rightarrow> nat \<Rightarrow> int \<Rightarrow> int" where
  "reply_entry r i d = (if i < length r then r ! i else d)"

text \<open>The call of the script that belongs to the configuration. What surrounds a check is the record \<open>l2_env\<close>: the time
  since the epoch in seconds, the random number, the text of a float and Redis itself. A system clock before the epoch, at
  which reading that time panics, is not modelled.\<close>

datatype script_call =
    TokenBucketCall string u64 u64 f64
  | SlidingWindowCall string u64 u64 f64 string

record l2_env =
  le_now :: f64
  le_rand :: u32
  le_show :: "f64 \<Rightarrow> string"
  le_invoke :: "script_call \<Rightarrow> string + int list"

definition l2_request_id :: "l2_env \<Rightarrow> string \<Rightarrow> string" where
  "l2_request_id X key = key @ '':'' @ le_show X (le_now X) @ '':'' @ u64_to_string (ucast (le_rand X))"

definition l2_call :: "l2_env \<Rightarrow> distributed_rate_limit_config \<Rightarrow> string \<Rightarrow> script_call" where
  "l2_call X config key =
     (case config of
        TokenBucket capacity refill_rate \<Rightarrow> TokenBucketCall key capacity refill_rate (le_now X)
      | SlidingWindow max_requests window \<Rightarrow>
          SlidingWindowCall key max_requests (as_secs window) (le_now X) (l2_request_id X key))"

definition l2_check_inner :: "l2_env \<Rightarrow> distributed_rate_limit_config \<Rightarrow> string \<Rightarrow> rate_limit_error + l2_outcome" where
  "l2_check_inner X config key =
     try_bind (map_err RlScript (le_invoke X (l2_call X config key))) (\<lambda>result.
       Inr \<lparr>l2_allowed = (reply_entry result 0 1 = 1),
            l2_remaining = word_of_int (max (reply_entry result 1 0) 0),
            l2_retry_after_ms = word_of_int (max (reply_entry result 2 0) 0)\<rparr>)"

definition l2_check :: "l2_env \<Rightarrow> distributed_rate_limit_config \<Rightarrow> string \<Rightarrow> l2_outcome" where
  "l2_check X config key =
     (case l2_check_inner X config key of
        Inr outcome \<Rightarrow> outcome
      | Inl e \<Rightarrow> \<lparr>l2_allowed = True, l2_remaining = 0, l2_retry_after_ms = 0\<rparr>)"

section \<open>The limiter\<close>

datatype denied_by = L1Local | L2Distributed

record rate_limit_outcome =
  ro_allowed :: bool
  ro_remaining :: u64
  ro_limit :: u64
  ro_retry_after_ms :: u64
  ro_denied_by :: "denied_by option"

definition to_headers :: "rate_limit_outcome \<Rightarrow> (string \<times> string) list" where
  "to_headers out =
     [(''X-RateLimit-Limit'', u64_to_string (ro_limit out)), (''X-RateLimit-Remaining'', u64_to_string (ro_remaining out))]
     @ (if \<not> ro_allowed out then [(''Retry-After'', u64_to_string (ro_retry_after_ms out div 1000))] else [])"

definition estimate_refill_ms :: "u64 \<Rightarrow> u64" where
  "estimate_refill_ms capacity = 1000"

record rl_policy_state =
  ps_l1 :: l1_local_limiter
  ps_l2 :: distributed_rate_limit_config

record rate_limiter =
  rlim_policies :: "string \<rightharpoonup> rl_policy_state"

text \<open>Building the limiter connects to Redis for every policy. Of the second layer the configuration is kept; its
  connection is where the replies of the scripts come from.\<close>

definition l2_limiter_new ::
  "('cl, 'm) redis_client \<Rightarrow> string \<Rightarrow> string \<Rightarrow> distributed_rate_limit_config \<Rightarrow>
   rate_limit_error + distributed_rate_limit_config" where
  "l2_limiter_new RC name redis_url config =
     try_bind (redis_connect RC (PolicyConn name) RlRedis redis_url) (\<lambda>conn. Inr config)"

fun rate_limiter_loop ::
  "('cl, 'm) redis_client \<Rightarrow> string \<Rightarrow> (string \<rightharpoonup> rl_policy_state) \<Rightarrow> rate_limit_policy hash_map \<Rightarrow>
   rate_limit_error + (string \<rightharpoonup> rl_policy_state)" where
  "rate_limiter_loop RC url ps [] = Inr ps"
| "rate_limiter_loop RC url ps ((name, policy_cfg) # rest) =
     (let l1 = l1_limiter_new (rp_local policy_cfg)
      in try_bind (l2_limiter_new RC name url (rp_distributed policy_cfg)) (\<lambda>l2.
           rate_limiter_loop RC url (ps(name \<mapsto> \<lparr>ps_l1 = l1, ps_l2 = l2\<rparr>)) rest))"

definition rate_limiter_new ::
  "('cl, 'm) redis_client \<Rightarrow> gateway_config \<Rightarrow> rate_limit_error + rate_limiter" where
  "rate_limiter_new RC cfg =
     try_bind (rate_limiter_loop RC (rlc_redis_url (gc_rate_limiting cfg)) Map.empty
        (rlc_policies (gc_rate_limiting cfg))) (\<lambda>ps. Inr \<lparr>rlim_policies = ps\<rparr>)"

text \<open>The check of one request. \<open>X\<close> is what surrounds the check of the second layer; the times are the readings of
  the clock.\<close>

record rl_times =
  tm_new :: nat
  tm_consume :: nat
  tm_remaining :: nat

definition rate_limit_check ::
  "('hm, 'hv, 'u) http_lib \<Rightarrow> rl_times \<Rightarrow> l2_env \<Rightarrow>
   rate_limit_middleware_ref option \<Rightarrow> string \<Rightarrow> 'j auth_context option \<Rightarrow> 'hm \<Rightarrow> rate_limiter \<Rightarrow>
   (rate_limit_error + rate_limit_outcome) \<times> rate_limiter" where
  "rate_limit_check L T X middleware_ref route_id auth_ctx headers rl =
     (case middleware_ref of
        None \<Rightarrow>
          (Inr \<lparr>ro_allowed = True, ro_remaining = - 1, ro_limit = - 1, ro_retry_after_ms = 0, ro_denied_by = None\<rparr>, rl)
      | Some rl_ref \<Rightarrow>
          (case rlim_policies rl (rl_policy rl_ref) of
             None \<Rightarrow> (Inl (UnknownPolicy (rl_policy rl_ref)), rl)
           | Some policy \<Rightarrow>
               (let key = derive_key L route_id auth_ctx headers;
                    (l1_allowed, l1') = l1_limiter_check (tm_new T) (tm_consume T) key (ps_l1 policy);
                    remaining = l1_limiter_remaining (tm_remaining T) key l1';
                    limit = l1_limiter_capacity l1';
                    rl' = rl\<lparr>rlim_policies := (rlim_policies rl)(rl_policy rl_ref \<mapsto> policy\<lparr>ps_l1 := l1'\<rparr>)\<rparr>
                in if \<not> l1_allowed then
                     (Inr \<lparr>ro_allowed = False, ro_remaining = 0, ro_limit = limit,
                           ro_retry_after_ms = estimate_refill_ms limit, ro_denied_by = Some L1Local\<rparr>, rl')
                   else
                     (let l2 = l2_check X (ps_l2 policy) key
                      in if \<not> l2_allowed l2 then
                           (Inr \<lparr>ro_allowed = False, ro_remaining = 0, ro_limit = limit,
                                 ro_retry_after_ms = l2_retry_after_ms l2, ro_denied_by = Some L2Distributed\<rparr>, rl')
                         else
                           (Inr \<lparr>ro_allowed = True, ro_remaining = min remaining (l2_remaining l2), ro_limit = limit,
                                 ro_retry_after_ms = 0, ro_denied_by = None\<rparr>, rl')))))"

section \<open>Buckets: invariant\<close>

definition bucket_inv :: "bucket \<Rightarrow> bool" where
  "bucket_inv b \<longleftrightarrow> 0 \<le> bk_tokens b \<and> bk_tokens b \<le> bk_capacity b \<and> 0 \<le> bk_refill_rate b \<and>
     f64_round (bk_tokens b) = bk_tokens b \<and> f64_round (bk_capacity b) = bk_capacity b"

lemma bucket_inv_new: "bucket_inv (bucket_new cfg now)"
  by (simp add: bucket_inv_def bucket_new_def u64_as_f64_nonneg) (simp add: u64_as_f64_def)

lemma bucket_refilled_bounds:
  assumes "bucket_inv b"
  shows "0 \<le> bucket_refilled b now" "bucket_refilled b now \<le> bk_capacity b"
    and "f64_round (bucket_refilled b now) = bucket_refilled b now"
proof -
  have "0 \<le> f64_mul (as_secs_f64 (now - bk_last_refill b)) (bk_refill_rate b)"
    using assms as_secs_f64_nonneg by (simp add: f64_mul_def bucket_inv_def f64_round_nonneg)
  then show "0 \<le> bucket_refilled b now"
    using assms unfolding bucket_refilled_def f64_add_def bucket_inv_def
    by (simp add: f64_round_nonneg)
  show "bucket_refilled b now \<le> bk_capacity b" by (simp add: bucket_refilled_def)
  show "f64_round (bucket_refilled b now) = bucket_refilled b now"
    using assms by (simp add: bucket_refilled_def min_def f64_add_def bucket_inv_def)
qed

lemma f64_sub_one_bounds:
  assumes "1 \<le> t" "f64_round t = t"
  shows "0 \<le> f64_sub t 1" "f64_sub t 1 \<le> t"
proof -
  show "0 \<le> f64_sub t 1" using assms(1) by (simp add: f64_sub_def f64_round_nonneg)
  have "f64_round (t - 1) \<le> f64_round t" by (rule f64_round_mono) simp
  then show "f64_sub t 1 \<le> t" using assms(2) by (simp add: f64_sub_def)
qed

lemma bucket_consume_parts:
  "bk_capacity (snd (bucket_consume now b)) = bk_capacity b"
  "bk_refill_rate (snd (bucket_consume now b)) = bk_refill_rate b"
  "bk_last_refill (snd (bucket_consume now b)) = now"
  "fst (bucket_consume now b) \<longleftrightarrow> 1 \<le> bucket_refilled b now"
  "bk_tokens (snd (bucket_consume now b)) =
     (if 1 \<le> bucket_refilled b now then f64_sub (bucket_refilled b now) 1 else bucket_refilled b now)"
  by (simp_all add: bucket_consume_def Let_def)

lemma bucket_inv_consume [gw_inv]:
  assumes "bucket_inv b"
  shows "bucket_inv (snd (bucket_consume now b))"
  using assms bucket_refilled_bounds [OF assms, of now] f64_sub_one_bounds [of "bucket_refilled b now"]
  by (auto simp: bucket_inv_def bucket_consume_parts) (simp_all add: f64_sub_def)

section \<open>Buckets: how many requests pass\<close>

fun consume_run :: "nat list \<Rightarrow> bucket \<Rightarrow> bool list \<times> bucket" where
  "consume_run [] b = ([], b)"
| "consume_run (t # ts) b =
     (let (a, b1) = bucket_consume t b; (as, b2) = consume_run ts b1 in (a # as, b2))"

lemma consume_run_inv: "bucket_inv b \<Longrightarrow> consume_run ts b = (as, b') \<Longrightarrow> bucket_inv b'"
proof (induction ts arbitrary: b as)
  case (Cons t ts)
  obtain a b1 where "bucket_consume t b = (a, b1)" by fastforce
  with Cons bucket_inv_consume [of b t] show ?case by (auto split: prod.splits)
qed simp

abbreviation passed :: "bool list \<Rightarrow> nat" where
  "passed as \<equiv> length (filter (\<lambda>a. a) as)"

text \<open>One refill, capped, adds at most its amount and one rounding error of the capacity; taking one token leaves at most one
  rounding error of the capacity more than one less. Both layers refill and take in this way.\<close>

lemma capped_add_gain:
  assumes "0 \<le> t" and "0 \<le> m" and "0 \<le> cap"
  shows "min (f64_add t m) cap \<le> t + m + f64_eps * cap"
proof (cases "t + m \<le> cap")
  case True
  have "min (f64_add t m) cap \<le> f64_round (t + m)" by (simp add: f64_add_def)
  also have "\<dots> \<le> (t + m) + f64_eps * (t + m)" using f64_round_le [of "t + m"] assms by (simp add: algebra_simps)
  also have "f64_eps * (t + m) \<le> f64_eps * cap" using True by (intro mult_left_mono) simp_all
  finally show ?thesis by simp
next
  case False
  have "0 \<le> f64_eps * cap" using assms by simp
  with False show ?thesis by (simp add: min_def)
qed

lemma take_one_gain:
  assumes "t \<le> cap" and "0 \<le> cap"
  shows "(if 1 \<le> t then 1 else 0) + (if 1 \<le> t then f64_sub t 1 else t) \<le> t + f64_eps * cap"
proof (cases "1 \<le> t")
  case True
  have "f64_sub t 1 \<le> (t - 1) * (1 + f64_eps)" unfolding f64_sub_def using True by (intro f64_round_le) simp
  also have "\<dots> = (t - 1) + f64_eps * (t - 1)" by (simp add: algebra_simps)
  also have "f64_eps * (t - 1) \<le> f64_eps * cap" using assms(1) by (intro mult_left_mono) simp_all
  finally show ?thesis using True by simp
next
  case False
  have "0 \<le> f64_eps * cap" using assms by simp
  with False show ?thesis by simp
qed

lemma refill_gain:
  assumes "bucket_inv b"
  shows "bucket_refilled b now \<le> bk_tokens b +
    f64_mul (as_secs_f64 (now - bk_last_refill b)) (bk_refill_rate b) + f64_eps * bk_capacity b"
  unfolding bucket_refilled_def using assms as_secs_f64_nonneg
  by (intro capped_add_gain) (auto simp: bucket_inv_def f64_mul_def f64_round_nonneg)

lemma product_gain:
  assumes "0 \<le> r"
  shows "f64_mul (as_secs_f64 d) r \<le> of_nat d / 1000000000 * r * (1 + f64_eps) ^ 3"
proof -
  have "f64_mul (as_secs_f64 d) r \<le> as_secs_f64 d * r * (1 + f64_eps)"
    unfolding f64_mul_def using assms as_secs_f64_nonneg by (intro f64_round_le) simp
  also have "\<dots> \<le> (of_nat d / 1000000000 * (1 + f64_eps) ^ 2) * r * (1 + f64_eps)"
    using assms as_secs_f64_le by (intro mult_right_mono) simp_all
  also have "\<dots> = of_nat d / 1000000000 * r * (1 + f64_eps) ^ 3" by (simp add: power3_eq_cube power2_eq_square)
  finally show ?thesis .
qed

lemma consume_gain:
  assumes "bucket_inv b" and "bucket_consume now b = (a, b')"
  shows "(if a then 1 else 0) + bk_tokens b' \<le> bk_tokens b +
    of_nat (now - bk_last_refill b) / 1000000000 * bk_refill_rate b * (1 + f64_eps) ^ 3 + 2 * f64_eps * bk_capacity b"
proof -
  let ?t = "bucket_refilled b now"
  have r: "0 \<le> bk_refill_rate b" using assms(1) by (simp add: bucket_inv_def)
  have t: "?t \<le> bk_tokens b + of_nat (now - bk_last_refill b) / 1000000000 * bk_refill_rate b * (1 + f64_eps) ^ 3
      + f64_eps * bk_capacity b"
    using refill_gain [OF assms(1), of now] product_gain [OF r, of "now - bk_last_refill b"] by linarith
  have "(if a then 1 else 0) + bk_tokens b' \<le> ?t + f64_eps * bk_capacity b"
    using take_one_gain [OF bucket_refilled_bounds(2) [OF assms(1), of now]] bucket_consume_parts(4,5) [of now b] assms
    by (auto simp: bucket_inv_def split: if_splits)
  with t show ?thesis by linarith
qed

lemma consume_run_gain:
  assumes "bucket_inv b" and "sorted (bk_last_refill b # ts)" and "consume_run ts b = (as, b')"
  shows "of_nat (passed as) + bk_tokens b' \<le> bk_tokens b +
    of_nat (last (bk_last_refill b # ts) - bk_last_refill b) / 1000000000 * bk_refill_rate b * (1 + f64_eps) ^ 3
    + of_nat (length ts) * (2 * f64_eps * bk_capacity b)"
  using assms
proof (induction ts arbitrary: b as)
  case (Cons t ts)
  obtain a b1 where c: "bucket_consume t b = (a, b1)" by fastforce
  obtain as1 where run: "consume_run ts b1 = (as1, b')" and as: "as = a # as1"
    using Cons.prems(3) c by (auto split: prod.splits)
  have b1: "bk_capacity b1 = bk_capacity b" "bk_refill_rate b1 = bk_refill_rate b" "bk_last_refill b1 = t"
    using bucket_consume_parts(1-3) [of t b] c by simp_all
  have inv: "bucket_inv b1" using bucket_inv_consume [OF Cons.prems(1), of t] c by simp
  have srt: "sorted (bk_last_refill b1 # ts)" using Cons.prems(2) b1 by simp
  note IH = Cons.IH [OF inv srt run]
  note step = consume_gain [OF Cons.prems(1) c]
  have l: "t \<le> last (t # ts)" "bk_last_refill b \<le> t"
    using Cons.prems(2) by auto
  then have "of_nat (last (t # ts) - bk_last_refill b) =
      of_nat (last (t # ts) - t) + (of_nat (t - bk_last_refill b) :: rat)"
    by (simp add: of_nat_diff)
  then have split: "of_nat (last (bk_last_refill b # t # ts) - bk_last_refill b) / 1000000000 * bk_refill_rate b * (1 + f64_eps) ^ 3 =
      of_nat (last (t # ts) - t) / 1000000000 * bk_refill_rate b * (1 + f64_eps) ^ 3 +
      of_nat (t - bk_last_refill b) / 1000000000 * bk_refill_rate b * (1 + f64_eps) ^ 3"
    by (simp add: add_divide_distrib distrib_right)
  have len: "of_nat (length (t # ts)) * (2 * f64_eps * bk_capacity b) =
      of_nat (length ts) * (2 * f64_eps * bk_capacity b) + 2 * f64_eps * bk_capacity b"
    by (simp add: distrib_right)
  have pas: "of_nat (passed as) = (if a then 1 else 0) + (of_nat (passed as1) :: rat)" by (simp add: as)
  show ?case unfolding split len pas using IH step b1 by simp
qed simp

section \<open>Interleaved keys\<close>

text \<open>A request on layer one: its key and the two clock readings. \<open>key_results\<close> are the answers one key got.\<close>

type_synonym l1_event = "string \<times> nat \<times> nat"

fun l1_run :: "l1_event list \<Rightarrow> l1_local_limiter \<Rightarrow> (string \<times> bool) list \<times> l1_local_limiter" where
  "l1_run [] l = ([], l)"
| "l1_run ((k, t_new, t) # evs) l =
     (let (a, l1) = l1_limiter_check t_new t k l; (rs, l2) = l1_run evs l1 in ((k, a) # rs, l2))"

definition key_results :: "string \<Rightarrow> (string \<times> bool) list \<Rightarrow> bool list" where
  "key_results k rs = map snd (filter (\<lambda>r. fst r = k) rs)"

definition key_times :: "string \<Rightarrow> l1_event list \<Rightarrow> nat list" where
  "key_times k evs = map (\<lambda>e. snd (snd e)) (filter (\<lambda>e. fst e = k) evs)"

lemma l1_check_bucket:
  "l1_limiter_check tn t k l = (a, l') \<Longrightarrow>
     ll_config l' = ll_config l \<and> (\<forall>j. j \<noteq> k \<longrightarrow> ll_buckets l' j = ll_buckets l j) \<and>
     (\<exists>b'. bucket_consume t (case ll_buckets l k of None \<Rightarrow> bucket_new (ll_config l) tn | Some b \<Rightarrow> b) = (a, b') \<and>
        ll_buckets l' k = Some b')"
  by (auto simp: l1_limiter_check_def Let_def split: prod.splits)

text \<open>The answers of one key are those of its bucket alone, whatever other keys do in between.\<close>

lemma l1_run_projects:
  assumes "l1_run evs l = (rs, l')" and "ll_buckets l k = Some b"
  shows "key_results k rs = fst (consume_run (key_times k evs) b)"
  using assms
proof (induction evs arbitrary: l rs b)
  case (Cons ev evs)
  obtain k' tn t where ev: "ev = (k', tn, t)" by (cases ev)
  obtain a l1 where c: "l1_limiter_check tn t k' l = (a, l1)" by fastforce
  obtain rs1 where run: "l1_run evs l1 = (rs1, l')" and rs: "rs = (k', a) # rs1"
    using Cons.prems(1) c ev by (auto split: prod.splits)
  show ?case
  proof (cases "k' = k")
    case True
    with l1_check_bucket [OF c] Cons.prems(2) obtain b' where
      b': "bucket_consume t b = (a, b')" "ll_buckets l1 k = Some b'" by auto
    from Cons.IH [OF run b'(2)] b'(1) True show ?thesis
      by (simp add: ev rs key_results_def key_times_def split: prod.splits)
  next
    case False
    with l1_check_bucket [OF c] Cons.prems(2) have "ll_buckets l1 k = Some b" by auto
    from Cons.IH [OF run this] False show ?thesis by (simp add: ev rs key_results_def key_times_def)
  qed
qed (simp add: key_results_def key_times_def)

lemma l1_run_fresh:
  assumes "l1_run evs l = (rs, l')" and "ll_buckets l k = None"
    and "filter (\<lambda>e. fst e = k) evs = (k, t0, t) # rest"
  shows "key_results k rs = fst (consume_run (key_times k evs) (bucket_new (ll_config l) t0))"
  using assms
proof (induction evs arbitrary: l rs)
  case (Cons ev evs)
  obtain k' tn u where ev: "ev = (k', tn, u)" by (cases ev)
  obtain a l1 where c: "l1_limiter_check tn u k' l = (a, l1)" by fastforce
  obtain rs1 where run: "l1_run evs l1 = (rs1, l')" and rs: "rs = (k', a) # rs1"
    using Cons.prems(1) c ev by (auto split: prod.splits)
  show ?case
  proof (cases "k' = k")
    case True
    with l1_check_bucket [OF c] Cons.prems(2,3) ev obtain b' where
      b': "bucket_consume t (bucket_new (ll_config l) t0) = (a, b')" "ll_buckets l1 k = Some b'" and u: "u = t" by auto
    from l1_run_projects [OF run b'(2)] b'(1) True show ?thesis
      by (simp add: ev rs u key_results_def key_times_def split: prod.splits)
  next
    case False
    with l1_check_bucket [OF c] Cons.prems(2) have "ll_buckets l1 k = None" "ll_config l1 = ll_config l" by auto
    with Cons.IH [OF run] Cons.prems(3) False ev show ?thesis
      by (simp add: rs key_results_def key_times_def)
  qed
qed simp

lemma l1_rate_bound:
  assumes "l1_run evs (l1_limiter_new cfg) = (rs, l')"
    and "filter (\<lambda>e. fst e = k) evs = (k, t0, t) # rest" and "sorted (t0 # key_times k evs)"
    and "c = u64_as_f64 (tb_capacity cfg)" and "r = u64_as_f64 (tb_refill_rate cfg)"
  shows "of_nat (passed (key_results k rs)) \<le>
    c + of_nat (last (key_times k evs) - t0) / 1000000000 * r * (1 + f64_eps) ^ 3
      + of_nat (length (key_times k evs)) * (2 * f64_eps * c)"
proof -
  let ?b = "bucket_new cfg t0"
  obtain as b' where run: "consume_run (key_times k evs) ?b = (as, b')" by fastforce
  have "key_results k rs = as"
    using l1_run_fresh [OF assms(1) _ assms(2)] run by (simp add: l1_limiter_new_def)
  moreover have "0 \<le> bk_tokens b'" using consume_run_inv [OF bucket_inv_new run] by (simp add: bucket_inv_def)
  moreover have "key_times k evs \<noteq> []" using assms(2) by (simp add: key_times_def)
  ultimately show ?thesis
    using consume_run_gain [OF bucket_inv_new _ run] assms(3-5)
    by (simp add: bucket_new_def)
qed

section \<open>Properties\<close>

text \<open>C7: The local rate limit holds for every key, under any interleaving with other keys. From the first
  request of a key at time \<open>t0\<close> on, the requests of that key that pass are at most the capacity plus the
  refill rate times the seconds since, up to the rounding of binary64 arithmetic: a relative error below
  \<open>4 * 2^-53\<close> on the refill and \<open>2 * 2^-53\<close> of the capacity per request.\<close>

theorem local_rate_limit_holds:
  assumes "l1_run evs (l1_limiter_new cfg) = (rs, l')"
    and "filter (\<lambda>e. fst e = k) evs = (k, t0, t) # rest" and "sorted (t0 # key_times k evs)"
    and "c = u64_as_f64 (tb_capacity cfg)" and "r = u64_as_f64 (tb_refill_rate cfg)"
  shows "of_nat (passed (key_results k rs)) \<le>
    c + of_nat (last (key_times k evs) - t0) / 1000000000 * r * (1 + f64_eps) ^ 3
      + of_nat (length (key_times k evs)) * (2 * f64_eps * c)"
  using assms by (rule l1_rate_bound)

definition ex_bucket :: token_bucket_config where
  "ex_bucket = \<lparr>tb_capacity = 5, tb_refill_rate = 1\<rparr>"

theorem local_rate_limit_holds_witness:
  "\<exists>rs l'. l1_run [(''a'', 0, 0), (''b'', 0, 0), (''a'', 5, 1000000000)] (l1_limiter_new ex_bucket) = (rs, l') \<and>
     of_nat (passed (key_results ''a'' rs)) \<le> 5 + (1 + f64_eps) ^ 3 + 2 * (2 * f64_eps * 5)"
proof -
  let ?evs = "[(''a'', 0, 0), (''b'', 0, 0), (''a'', 5, 1000000000)] :: l1_event list"
  obtain rs l' where run: "l1_run ?evs (l1_limiter_new ex_bucket) = (rs, l')" by fastforce
  have cfg: "u64_as_f64 (tb_capacity ex_bucket) = 5" "u64_as_f64 (tb_refill_rate ex_bucket) = 1"
    by (simp_all add: ex_bucket_def u64_as_f64_exact)
  from local_rate_limit_holds [OF run, of "''a''" 0 0 "[(''a'', 5, 1000000000)]", OF _ _ cfg(1)[symmetric] cfg(2)[symmetric]]
  have "of_nat (passed (key_results ''a'' rs)) \<le> 5 + (1 + f64_eps) ^ 3 + 2 * (2 * f64_eps * 5)"
    by (simp add: key_times_def)
  with run show ?thesis by blast
qed

text \<open>C28: Which requests the two-layer check lets through. A route without rate limiting passes and nothing changes; an
  unknown policy is an error and nothing changes; otherwise there is an outcome, and the request passes exactly when its
  local bucket had a token and the script
  either failed (the check fails open) or did not answer with a first entry other than one. A token is taken
  from the bucket of the request's key only, also when the second layer then denies.\<close>

theorem rate_limit_check_decision:
  assumes "key = derive_key L route_id ctx headers"
  shows "case middleware_ref of
      None \<Rightarrow> (\<exists>out. rate_limit_check L T X middleware_ref route_id ctx headers rl = (Inr out, rl) \<and> ro_allowed out \<and>
        ro_denied_by out = None)
    | Some rf \<Rightarrow>
        (case rlim_policies rl (rl_policy rf) of
           None \<Rightarrow> rate_limit_check L T X middleware_ref route_id ctx headers rl = (Inl (UnknownPolicy (rl_policy rf)), rl)
         | Some pol \<Rightarrow>
             (\<exists>out rl' a l1'. rate_limit_check L T X middleware_ref route_id ctx headers rl = (Inr out, rl') \<and>
                l1_limiter_check (tm_new T) (tm_consume T) key (ps_l1 pol) = (a, l1') \<and>
                (ro_allowed out \<longleftrightarrow> a \<and>
                   (case le_invoke X (l2_call X (ps_l2 pol) key) of Inl e \<Rightarrow> True | Inr r \<Rightarrow> r = [] \<or> hd r = 1)) \<and>
                ro_denied_by out = (if \<not> a then Some L1Local else if ro_allowed out then None else Some L2Distributed) \<and>
                ro_limit out = tb_capacity (ll_config (ps_l1 pol)) \<and>
                rlim_policies rl' = (rlim_policies rl)(rl_policy rf \<mapsto> pol\<lparr>ps_l1 := l1'\<rparr>) \<and>
                (\<forall>k. k \<noteq> key \<longrightarrow> ll_buckets l1' k = ll_buckets (ps_l1 pol) k)))"
proof (cases middleware_ref)
  case (Some rf)
  show ?thesis
  proof (cases "rlim_policies rl (rl_policy rf)")
    case None
    with Some show ?thesis by (simp add: rate_limit_check_def)
  next
    case pol: (Some pol)
    obtain a l1' where c: "l1_limiter_check (tm_new T) (tm_consume T) key (ps_l1 pol) = (a, l1')" by fastforce
    have cfg: "ll_config l1' = ll_config (ps_l1 pol)" "\<forall>k. k \<noteq> key \<longrightarrow> ll_buckets l1' k = ll_buckets (ps_l1 pol) k"
      using l1_check_bucket [OF c] by auto
    have l2: "l2_allowed (l2_check X cf key) \<longleftrightarrow> (case le_invoke X (l2_call X cf key) of Inl e \<Rightarrow> True | Inr r \<Rightarrow> r = [] \<or> hd r = 1)" for cf
      by (cases "le_invoke X (l2_call X cf key)") (auto simp: l2_check_def l2_check_inner_def map_err_def reply_entry_def hd_conv_nth)
    show ?thesis
      using cfg l2 [of "ps_l2 pol"] c [unfolded assms]
      by (cases a; cases "l2_allowed (l2_check X (ps_l2 pol) key)")
        (auto simp: rate_limit_check_def Some pol assms Let_def l1_limiter_capacity_def)
  qed
qed (simp add: rate_limit_check_def)

definition down_redis :: l2_env where
  "down_redis = \<lparr>le_now = 0, le_rand = 0, le_show = (\<lambda>x. ''0''), le_invoke = (\<lambda>call. Inl ''down'')\<rparr>"

definition ex_limiter :: rate_limiter where
  "ex_limiter = \<lparr>rlim_policies = [''std'' \<mapsto> \<lparr>ps_l1 = l1_limiter_new ex_bucket, ps_l2 = TokenBucket 10 1\<rparr>]\<rparr>"

theorem rate_limit_check_decision_witness:
  "\<exists>out rl'. rate_limit_check alist_http \<lparr>tm_new = 0, tm_consume = 0, tm_remaining = 0\<rparr> down_redis
      (Some \<lparr>rl_policy = ''std''\<rparr>) ''r'' (None :: unit auth_context option) [] ex_limiter = (Inr out, rl') \<and> ro_allowed out"
proof -
  let ?T = "\<lparr>tm_new = 0, tm_consume = 0, tm_remaining = 0\<rparr>"
  let ?k = "derive_key alist_http ''r'' (None :: unit auth_context option) []"
  let ?p = "\<lparr>ps_l1 = l1_limiter_new ex_bucket, ps_l2 = TokenBucket 10 1\<rparr>"
  have token: a if c: "l1_limiter_check 0 0 ?k (l1_limiter_new ex_bucket) = (a, l1')" for a l1'
  proof -
    have cfg: "u64_as_f64 (tb_capacity ex_bucket) = 5" "u64_as_f64 (tb_refill_rate ex_bucket) = 1"
      by (simp_all add: ex_bucket_def u64_as_f64_exact)
    have "f64_round 5 = 5" using f64_round_of_nat [of 5] by simp
    then have "1 \<le> bucket_refilled (bucket_new ex_bucket 0) 0"
      by (simp add: bucket_refilled_def bucket_new_def cfg f64_mul_def)
    then show a using l1_check_bucket [OF c] bucket_consume_parts(4) [of 0 "bucket_new ex_bucket 0"]
      by (auto simp: l1_limiter_new_def)
  qed
  have "rlim_policies ex_limiter ''std'' = Some ?p" by (simp add: ex_limiter_def)
  then obtain out rl' a l1' where "rate_limit_check alist_http ?T down_redis (Some \<lparr>rl_policy = ''std''\<rparr>) ''r''
      (None :: unit auth_context option) [] ex_limiter = (Inr out, rl')" "l1_limiter_check 0 0 ?k (l1_limiter_new ex_bucket) = (a, l1')"
    "ro_allowed out \<longleftrightarrow> a \<and> (case le_invoke down_redis (l2_call down_redis (TokenBucket 10 1) ?k) of Inl e \<Rightarrow> True | Inr r \<Rightarrow> r = [] \<or> hd r = 1)"
    using rate_limit_check_decision [OF refl, where middleware_ref = "Some \<lparr>rl_policy = ''std''\<rparr>" and L = alist_http and T = ?T
        and X = down_redis and route_id = "''r''" and ctx = "None :: unit auth_context option" and headers = "[]" and rl = ex_limiter] by auto
  with token show ?thesis by (auto simp: down_redis_def)
qed

text \<open>Buckets are separate per route and identity, as long as route identifiers contain no colon: two
  requests share a key exactly when their routes and identities are the same. (With colons they need not be:
  route \<open>a\<close> with identity \<open>b:c\<close> and route \<open>a:b\<close> with identity \<open>c\<close> have the same key.)\<close>

theorem rate_limit_keys_separate:
  assumes "CHR '':'' \<notin> set r1" and "CHR '':'' \<notin> set r2"
  shows "derive_key L r1 ctx1 h1 = derive_key L r2 ctx2 h2 \<longleftrightarrow>
    r1 = r2 \<and> request_identity L ctx1 h1 = request_identity L ctx2 h2"
proof -
  have "r1 @ '':'' @ x = r2 @ '':'' @ y \<longleftrightarrow> r1 = r2 \<and> x = y" for x y :: string
    using assms
  proof (induction r1 arbitrary: r2)
    case Nil
    then show ?case by (cases r2) auto
  next
    case (Cons c r1)
    then show ?case by (cases r2) auto
  qed
  then show ?thesis by (simp add: derive_key_def)
qed

theorem rate_limit_keys_separate_witness:
  "derive_key alist_http ''search'' (None :: unit auth_context option) [] \<noteq>
   derive_key alist_http ''upload'' (None :: unit auth_context option) []"
  using rate_limit_keys_separate [of "''search''" "''upload''" alist_http "None :: unit auth_context option" "[]"
      "None :: unit auth_context option" "[]"] by simp

end
