(* ===== verification/Cache_Policy.thy ===== *)
theory Cache_Policy
  imports Libs Config "HOL-Library.Multiset"
begin

text \<open>
  The pure part of \<open>gateway-cache\<close>: the directives of \<open>Cache-Control\<close> and the lifetime they give a response, the
  names listed by \<open>Vary\<close>, the cached entry with its age and expiry, the cache keys and the headers that may
  be stored. The clock of an entry (Unix seconds) is an argument of the functions that read it.
\<close>

section \<open>Cache-Control\<close>

record cache_control =
  ctl_no_store :: bool
  ctl_no_cache :: bool
  ctl_private :: bool
  ctl_max_age :: "u64 option"
  ctl_s_maxage :: "u64 option"

definition cache_control_default :: cache_control where
  "cache_control_default =
     \<lparr>ctl_no_store = False, ctl_no_cache = False, ctl_private = False, ctl_max_age = None, ctl_s_maxage = None\<rparr>"

definition parse_delta_seconds :: "string \<Rightarrow> string \<Rightarrow> u64 option" where
  "parse_delta_seconds directive pre = Option.bind (strip_prefix directive pre) parse_u64"

definition parse_directive :: "cache_control \<Rightarrow> string \<Rightarrow> cache_control" where
  "parse_directive cc piece =
     (let directive = to_ascii_lowercase (str_trim piece)
      in if directive = ''no-store'' then cc\<lparr>ctl_no_store := True\<rparr>
         else if directive = ''no-cache'' then cc\<lparr>ctl_no_cache := True\<rparr>
         else if directive = ''private'' then cc\<lparr>ctl_private := True\<rparr>
         else if directive = ''public'' then cc
         else (case parse_delta_seconds directive ''max-age='' of
                 Some secs \<Rightarrow> cc\<lparr>ctl_max_age := Some secs\<rparr>
               | None \<Rightarrow>
                   (case parse_delta_seconds directive ''s-maxage='' of
                      Some secs \<Rightarrow> cc\<lparr>ctl_s_maxage := Some secs\<rparr>
                    | None \<Rightarrow> cc)))"

definition cache_control_parse :: "string \<Rightarrow> cache_control" where
  "cache_control_parse value = foldl parse_directive cache_control_default (str_split (CHR '','') value)"

definition is_uncacheable :: "cache_control \<Rightarrow> bool" where
  "is_uncacheable cc \<longleftrightarrow> ctl_no_store cc \<or> ctl_no_cache cc"

definition shared_ttl :: "cache_control \<Rightarrow> duration option" where
  "shared_ttl cc =
     map_option from_secs (case ctl_s_maxage cc of Some s \<Rightarrow> Some s | None \<Rightarrow> ctl_max_age cc)"

definition private_ttl :: "cache_control \<Rightarrow> duration option" where
  "private_ttl cc = map_option from_secs (ctl_max_age cc)"

definition cc_from_headers :: "('hm, 'hv, 'u) http_lib \<Rightarrow> 'hm \<Rightarrow> cache_control option" where
  "cc_from_headers L headers = map_option cache_control_parse (header_str L headers ''cache-control'')"

definition resolve_ttl :: "cache_control option \<Rightarrow> duration \<Rightarrow> duration option" where
  "resolve_ttl response_cc route_ttl =
     (case response_cc of
        None \<Rightarrow> Some route_ttl
      | Some cc \<Rightarrow>
          (if is_uncacheable cc then None
           else (case shared_ttl cc of
                   Some upstream_ttl \<Rightarrow> Some (min upstream_ttl route_ttl)
                 | None \<Rightarrow> Some route_ttl)))"

definition parse_vary :: "('hm, 'hv, 'u) http_lib \<Rightarrow> 'hm \<Rightarrow> string list option" where
  "parse_vary L headers =
     (case header_str L headers ''vary'' of
        None \<Rightarrow> None
      | Some vary \<Rightarrow>
          (if str_trim vary = ''*'' then None
           else Some (filter (\<lambda>s. s \<noteq> [])
                  (map (\<lambda>s. to_ascii_lowercase (str_trim s)) (str_split (CHR '','') vary)))))"

section \<open>Entries\<close>

record cached_response =
  ce_status :: u16
  ce_headers :: "(string \<times> string) list"
  ce_body :: bytes
  ce_ttl_secs :: u64
  ce_stored_at_secs :: u64
  ce_vary_headers :: "string list"

definition cached_response_new ::
  "u64 \<Rightarrow> u16 \<Rightarrow> (string \<times> string) list \<Rightarrow> bytes \<Rightarrow> duration \<Rightarrow> string list \<Rightarrow> cached_response" where
  "cached_response_new now status headers body ttl vary_headers =
     \<lparr>ce_status = status, ce_headers = headers, ce_body = body, ce_ttl_secs = as_secs ttl,
      ce_stored_at_secs = now, ce_vary_headers = vary_headers\<rparr>"

definition age_header :: "u64 \<Rightarrow> cached_response \<Rightarrow> string" where
  "age_header now e = u64_to_string (saturating_sub now (ce_stored_at_secs e))"

definition entry_is_expired :: "u64 \<Rightarrow> cached_response \<Rightarrow> bool" where
  "entry_is_expired now e \<longleftrightarrow> saturating_sub now (ce_stored_at_secs e) \<ge> ce_ttl_secs e"

section \<open>Keys\<close>

definition cache_key_new :: "string \<Rightarrow> string \<Rightarrow> string \<Rightarrow> string option \<Rightarrow> string" where
  "cache_key_new method route_id path query =
     (let path_query = (case query of
            Some q \<Rightarrow> (if q \<noteq> [] then path @ ''?'' @ q else path)
          | None \<Rightarrow> path)
      in ''stateform:cache:'' @ to_ascii_uppercase method @ '':'' @ route_id @ '':'' @ path_query)"

definition vary_pairs :: "('hm, 'hv, 'u) http_lib \<Rightarrow> string list \<Rightarrow> 'hm \<Rightarrow> (string \<times> string) list" where
  "vary_pairs L vary_names request_headers =
     sort_key fst (map (\<lambda>name. (name, case header_str L request_headers name of None \<Rightarrow> [] | Some v \<Rightarrow> v)) vary_names)"

definition with_vary :: "('hm, 'hv, 'u) http_lib \<Rightarrow> string list \<Rightarrow> 'hm \<Rightarrow> string \<Rightarrow> string" where
  "with_vary L vary_names request_headers key =
     (if vary_names = [] then key
      else key @ concat (map (\<lambda>(k, v). '':'' @ k @ ''='' @ v) (vary_pairs L vary_names request_headers)))"

definition HOP_BY_HOP :: "string list" where
  "HOP_BY_HOP =
     [''connection'', ''keep-alive'', ''proxy-authenticate'', ''proxy-authorization'', ''te'', ''trailers'',
      ''transfer-encoding'', ''upgrade'']"

definition storable_headers :: "('hm, 'hv, 'u) http_lib \<Rightarrow> 'hm \<Rightarrow> (string \<times> string) list" where
  "storable_headers L headers =
     List.map_filter (\<lambda>(name, value).
       let name_str = to_ascii_lowercase name
       in if name_str \<in> set HOP_BY_HOP then None
          else map_option (\<lambda>v. (name_str, v)) (hv_to_str L value)) (hm_iter L headers)"

section \<open>Directives: what a header says\<close>

text \<open>A directive is read off the header whatever stands around it: the flags are the pieces that name them, and
  the last well-formed number of a kind counts.\<close>

definition directives :: "string \<Rightarrow> string list" where
  "directives value = map (\<lambda>p. to_ascii_lowercase (str_trim p)) (str_split (CHR '','') value)"

definition delta_of :: "string \<Rightarrow> string \<Rightarrow> u64 option" where
  "delta_of pre d =
     (if d \<in> {''no-store'', ''no-cache'', ''private'', ''public''} then None else parse_delta_seconds d pre)"

definition last_delta :: "string \<Rightarrow> string list \<Rightarrow> u64 option" where
  "last_delta pre ds = foldl (\<lambda>acc d. case delta_of pre d of None \<Rightarrow> acc | Some s \<Rightarrow> Some s) None ds"

lemma not_max_age_s_maxage: "parse_delta_seconds d ''max-age='' = Some s \<Longrightarrow> parse_delta_seconds d ''s-maxage='' = None"
  by (auto simp: parse_delta_seconds_def bind_eq_Some_conv strip_prefix_Some) (simp add: strip_prefix_def)

lemma parse_directive_fields:
  fixes p :: string
  defines "d \<equiv> to_ascii_lowercase (str_trim p)"
  shows "ctl_no_store (parse_directive cc p) \<longleftrightarrow> ctl_no_store cc \<or> d = ''no-store''"
    and "ctl_no_cache (parse_directive cc p) \<longleftrightarrow> ctl_no_cache cc \<or> d = ''no-cache''"
    and "ctl_private (parse_directive cc p) \<longleftrightarrow> ctl_private cc \<or> d = ''private''"
    and "ctl_max_age (parse_directive cc p) =
      (case delta_of ''max-age='' d of None \<Rightarrow> ctl_max_age cc | Some s \<Rightarrow> Some s)"
    and "ctl_s_maxage (parse_directive cc p) =
      (case delta_of ''s-maxage='' d of None \<Rightarrow> ctl_s_maxage cc | Some s \<Rightarrow> Some s)"
  unfolding parse_directive_def d_def [symmetric] delta_of_def Let_def
  by (auto split: option.split dest: not_max_age_s_maxage)

lemma cache_control_parse_fields:
  "ctl_no_store (cache_control_parse v) \<longleftrightarrow> ''no-store'' \<in> set (directives v)"
  "ctl_no_cache (cache_control_parse v) \<longleftrightarrow> ''no-cache'' \<in> set (directives v)"
  "ctl_private (cache_control_parse v) \<longleftrightarrow> ''private'' \<in> set (directives v)"
  "ctl_max_age (cache_control_parse v) = last_delta ''max-age='' (directives v)"
  "ctl_s_maxage (cache_control_parse v) = last_delta ''s-maxage='' (directives v)"
proof -
  let ?ds = "map (\<lambda>p. to_ascii_lowercase (str_trim p))"
  let ?last = "\<lambda>pre. foldl (\<lambda>acc d. case delta_of pre d of None \<Rightarrow> acc | Some s \<Rightarrow> Some s)"
  have flags: "ctl_no_store (foldl parse_directive cc ps) \<longleftrightarrow> ctl_no_store cc \<or> ''no-store'' \<in> set (?ds ps)"
    "ctl_no_cache (foldl parse_directive cc ps) \<longleftrightarrow> ctl_no_cache cc \<or> ''no-cache'' \<in> set (?ds ps)"
    "ctl_private (foldl parse_directive cc ps) \<longleftrightarrow> ctl_private cc \<or> ''private'' \<in> set (?ds ps)" for cc ps
    by (induction ps arbitrary: cc) (auto simp: parse_directive_fields)
  have ages: "ctl_max_age (foldl parse_directive cc ps) = ?last ''max-age='' (ctl_max_age cc) (?ds ps)"
    "ctl_s_maxage (foldl parse_directive cc ps) = ?last ''s-maxage='' (ctl_s_maxage cc) (?ds ps)" for cc ps
    by (induction ps arbitrary: cc) (simp_all add: parse_directive_fields)
  show "ctl_no_store (cache_control_parse v) \<longleftrightarrow> ''no-store'' \<in> set (directives v)"
    and "ctl_no_cache (cache_control_parse v) \<longleftrightarrow> ''no-cache'' \<in> set (directives v)"
    and "ctl_private (cache_control_parse v) \<longleftrightarrow> ''private'' \<in> set (directives v)"
    by (simp_all only: cache_control_parse_def directives_def flags) (simp_all add: cache_control_default_def)
  show "ctl_max_age (cache_control_parse v) = last_delta ''max-age='' (directives v)"
    and "ctl_s_maxage (cache_control_parse v) = last_delta ''s-maxage='' (directives v)"
    by (simp_all only: cache_control_parse_def directives_def last_delta_def ages)
      (simp_all add: cache_control_default_def)
qed

text \<open>The lifetime never exceeds the route's, and no lifetime is given exactly to the uncacheable.\<close>

lemma resolve_ttl_le: "resolve_ttl cc t = Some ttl \<Longrightarrow> ttl \<le> t"
  by (auto simp: resolve_ttl_def split: option.splits if_splits)

lemma resolve_ttl_None: "resolve_ttl cc t = None \<longleftrightarrow> (\<exists>c. cc = Some c \<and> is_uncacheable c)"
  by (auto simp: resolve_ttl_def split: option.splits)

lemma as_secs_mono: "ttl \<le> from_secs s \<Longrightarrow> as_secs ttl \<le> s"
proof -
  assume "ttl \<le> from_secs s"
  then have "ttl div 1000000000 \<le> unat s" unfolding from_secs_def by (metis div_le_mono div_mult_self_is_m zero_less_numeral)
  moreover have "unat s < 2 ^ 64" using unat_lt_exp [of s] by simp
  ultimately show ?thesis by (simp add: as_secs_def word_le_nat_alt unat_word_of_nat)
qed

section \<open>Keys: how they separate requests\<close>

lemma with_vary_Nil [simp]: "with_vary L [] h k = k"
  by (simp add: with_vary_def)

lemma with_vary_longer:
  assumes "ns \<noteq> []"
  shows "length k < length (with_vary L ns h k)"
proof -
  have "length (vary_pairs L ns h) = length ns" by (simp add: vary_pairs_def)
  with assms obtain a b ps where "vary_pairs L ns h = (a, b) # ps" by (cases "vary_pairs L ns h") auto
  with assms show ?thesis by (simp add: with_vary_def)
qed

lemma with_vary_base_iff: "with_vary L ns h k = k \<longleftrightarrow> ns = []"
  using with_vary_longer [of ns k L h] by (cases "ns = []") auto

text \<open>The order in which \<open>Vary\<close> lists the names does not matter to the key.\<close>

lemma with_vary_order:
  assumes "mset ns = mset ms"
  shows "with_vary L ns h k = with_vary L ms h k"
proof -
  let ?p = "\<lambda>name. (name, case header_str L h name of None \<Rightarrow> [] | Some v \<Rightarrow> v)"
  have "sort_key fst (map ?p ns) = sort_key fst (map ?p ms)"
  proof (rule sort_key_inj_key_eq)
    show "mset (map ?p ns) = mset (sort_key fst (map ?p ms))" using assms by simp
    show "inj_on fst (set (map ?p ns))" by (auto intro!: inj_onI)
    show "sorted (map fst (sort_key fst (map ?p ms)))" by simp
  qed
  moreover have "ns = [] \<longleftrightarrow> ms = []" using assms by auto
  ultimately show ?thesis by (simp add: with_vary_def vary_pairs_def)
qed

lemma storable_headers_safe:
  assumes "(n, v) \<in> set (storable_headers L h)"
  shows "n \<notin> set HOP_BY_HOP" and "\<exists>m w. (m, w) \<in> set (hm_iter L h) \<and> n = to_ascii_lowercase m \<and> hv_to_str L w = Some v"
  using assms by (force simp: storable_headers_def map_filter_def Let_def split: if_splits)+

end
