(* ===== verification/Cache.thy ===== *)
theory Cache
  imports Cache_Policy
begin

text \<open>
  The two-level response cache of \<open>gateway-cache\<close>: the in-process map (layer one), the Redis store (layer two)
  and \<open>ResponseCache\<close>, which coordinates them.

  The \<open>DashMap\<close> is the list of its entries with distinct keys, and the entry its iterator yields first is the
  argument \<open>first\<close> (\<open>first_law\<close>). The map is divided into shards with a read-write lock each; an iterator keeps the
  read lock of the shard it is in, and \<open>remove\<close> waits for the write lock of the shard of its key. A task that removes
  from the shard it holds therefore never returns (\<open>Hang\<close>), which happens at every eviction. The Redis server with its client is the record \<open>redis_lib\<close> of operations on
  the server's state, with the laws \<open>redis_laws\<close>; serde's conversion of an entry to and from JSON is the record
  \<open>json_lib\<close>. The clock readings of a call are its arguments.
\<close>

section \<open>Layer one\<close>

record l1_cache =
  l1_store :: "cached_response hash_map"
  l1_capacity :: usize

definition l1_cache_new :: "usize \<Rightarrow> l1_cache" where
  "l1_cache_new capacity = \<lparr>l1_store = [], l1_capacity = capacity\<rparr>"

type_synonym first_key = "cached_response hash_map \<Rightarrow> string option"

definition l1_remove :: "string \<Rightarrow> l1_cache \<Rightarrow> l1_cache" where
  "l1_remove key c = c\<lparr>l1_store := AList.delete key (l1_store c)\<rparr>"

definition l1_get :: "u64 \<Rightarrow> string \<Rightarrow> l1_cache \<Rightarrow> cached_response option \<times> l1_cache" where
  "l1_get now key c =
     (case map_of (l1_store c) key of
        None \<Rightarrow> (None, c)
      | Some entry \<Rightarrow> (if entry_is_expired now entry then (None, l1_remove key c) else (Some entry, c)))"

definition l1_len :: "l1_cache \<Rightarrow> nat" where
  "l1_len c = length (l1_store c)"

definition l1_is_empty :: "l1_cache \<Rightarrow> bool" where
  "l1_is_empty c \<longleftrightarrow> l1_store c = []"

text \<open>A removal by a task that may hold the read lock of the key's shard.\<close>

definition shard_remove :: "bool \<Rightarrow> string \<Rightarrow> l1_cache \<Rightarrow> l1_cache rust" where
  "shard_remove shard_read_locked key c = (if shard_read_locked then Hang else Ret (l1_remove key c))"

text \<open>The iterator of \<open>if let Some(entry) = self.store.iter().next()\<close> is a temporary of the scrutinee, which lives to the
  end of the \<open>if let\<close>: \<open>drop(entry)\<close> gives up the entry's share of the read lock, but the iterator keeps its own while
  the block removes the entry from the same shard.\<close>

definition evict_one :: "first_key \<Rightarrow> l1_cache \<Rightarrow> l1_cache rust" where
  "evict_one first c = (case first (l1_store c) of None \<Rightarrow> Ret c | Some key \<Rightarrow> shard_remove True key c)"

definition l1_put :: "first_key \<Rightarrow> string \<Rightarrow> cached_response \<Rightarrow> l1_cache \<Rightarrow> l1_cache rust" where
  "l1_put first key response c =
     rust_bind (if l1_len c \<ge> unat (l1_capacity c) then evict_one first c else Ret c) (\<lambda>c.
       Ret (c\<lparr>l1_store := AList.update key response (l1_store c)\<rparr>))"

definition l1_invalidate :: "string \<Rightarrow> l1_cache \<Rightarrow> l1_cache" where
  "l1_invalidate key c = l1_remove key c"

section \<open>Layer two\<close>

record 'r redis_lib =
  rd_get :: "'r \<Rightarrow> string \<Rightarrow> string + string option"
  rd_setex :: "'r \<Rightarrow> string \<Rightarrow> u64 \<Rightarrow> string \<Rightarrow> 'r"
  rd_del :: "'r \<Rightarrow> string \<Rightarrow> 'r"

record json_lib =
  js_to_string :: "cached_response \<Rightarrow> string + string"
  js_from_str :: "string \<Rightarrow> string + cached_response"

definition l2_get :: "'r redis_lib \<Rightarrow> json_lib \<Rightarrow> string \<Rightarrow> 'r \<Rightarrow> cached_response option" where
  "l2_get R J key r =
     (case rd_get R r key of
        Inl e \<Rightarrow> None
      | Inr None \<Rightarrow> None
      | Inr (Some json) \<Rightarrow> (case js_from_str J json of Inr entry \<Rightarrow> Some entry | Inl e \<Rightarrow> None))"

definition l2_put :: "'r redis_lib \<Rightarrow> json_lib \<Rightarrow> string \<Rightarrow> cached_response \<Rightarrow> u64 \<Rightarrow> 'r \<Rightarrow> 'r" where
  "l2_put R J key response ttl_secs r =
     (if ttl_secs = 0 then r
      else (case js_to_string J response of
              Inl e \<Rightarrow> r
            | Inr json \<Rightarrow> rd_setex R r key ttl_secs json))"

definition l2_invalidate :: "'r redis_lib \<Rightarrow> string \<Rightarrow> 'r \<Rightarrow> 'r" where
  "l2_invalidate R key r = rd_del R r key"

section \<open>The response cache\<close>

datatype cache_lookup = Hit cached_response | Miss | Bypass

record 'r response_cache =
  rc_l1 :: l1_cache
  rc_l2 :: 'r

datatype cache_error = CeRedis string | CeSerialise string | CeConfig string

fun cache_error_display :: "cache_error \<Rightarrow> string" where
  "cache_error_display (CeRedis m) = ''redis error: '' @ m"
| "cache_error_display (CeSerialise m) = ''serialisation error: '' @ m"
| "cache_error_display (CeConfig m) = ''config error: '' @ m"

definition l2_cache_new :: "('cl, 'r) redis_client \<Rightarrow> string \<Rightarrow> cache_error + 'r" where
  "l2_cache_new RC redis_url = redis_connect RC CacheConn CeRedis redis_url"

definition response_cache_new :: "('cl, 'r) redis_client \<Rightarrow> cache_config \<Rightarrow> cache_error + 'r response_cache" where
  "response_cache_new RC cfg =
     (let l1 = l1_cache_new (cc_l1_capacity cfg)
      in try_bind (l2_cache_new RC (cc_redis_url cfg)) (\<lambda>l2. Inr \<lparr>rc_l1 = l1, rc_l2 = l2\<rparr>))"

text \<open>The libraries the cache works with.\<close>

record ('hm, 'hv, 'u, 'r) cache_libs =
  cx_http :: "('hm, 'hv, 'u) http_lib"
  cx_redis :: "'r redis_lib"
  cx_json :: json_lib
  cx_first :: first_key

text \<open>The three blocks of \<open>lookup\<close>: layer one, layer two, and the guards with the sequence of the two. \<open>t1\<close> and
  \<open>t2\<close> are the clock at the first and the second look into layer one.\<close>

definition lookup_l1 ::
  "('hm, 'hv, 'u) http_lib \<Rightarrow> u64 \<Rightarrow> u64 \<Rightarrow> string \<Rightarrow> 'hm \<Rightarrow> l1_cache \<Rightarrow> cached_response option \<times> l1_cache" where
  "lookup_l1 L t1 t2 base_key request_headers l1 =
     (case l1_get t1 base_key l1 of
        (None, l1') \<Rightarrow> (None, l1')
      | (Some entry, l1') \<Rightarrow> l1_get t2 (with_vary L (ce_vary_headers entry) request_headers base_key) l1')"

definition lookup_l2 ::
  "('hm, 'hv, 'u) http_lib \<Rightarrow> 'r redis_lib \<Rightarrow> json_lib \<Rightarrow> string \<Rightarrow> 'hm \<Rightarrow> 'r \<Rightarrow> (string \<times> cached_response) option" where
  "lookup_l2 L R J base_key request_headers r =
     (case l2_get R J base_key r of
        None \<Rightarrow> None
      | Some entry \<Rightarrow>
          (let full_key = with_vary L (ce_vary_headers entry) request_headers base_key
           in Some (full_key,
                if full_key \<noteq> base_key then (case l2_get R J full_key r of Some e \<Rightarrow> e | None \<Rightarrow> entry) else entry)))"

definition lookup ::
  "('hm, 'hv, 'u, 'r) cache_libs \<Rightarrow> u64 \<Rightarrow> u64 \<Rightarrow> cache_middleware_config option \<Rightarrow> string \<Rightarrow> string \<Rightarrow> string \<Rightarrow>
   string option \<Rightarrow> 'hm \<Rightarrow> 'r response_cache \<Rightarrow> (cache_lookup \<times> 'r response_cache) rust" where
  "lookup X t1 t2 middleware_cfg route_id method path query request_headers c =
     (case middleware_cfg of
        None \<Rightarrow> Ret (Bypass, c)
      | Some _ \<Rightarrow>
          (if (case cc_from_headers (cx_http X) request_headers of Some cc \<Rightarrow> is_uncacheable cc | None \<Rightarrow> False)
           then Ret (Bypass, c)
           else if to_ascii_uppercase method \<notin> {''GET'', ''HEAD''} then Ret (Bypass, c)
           else
             (let base_key = cache_key_new method route_id path query;
                  (found, l1) = lookup_l1 (cx_http X) t1 t2 base_key request_headers (rc_l1 c)
              in case found of
                   Some vary_entry \<Rightarrow> Ret (Hit vary_entry, c\<lparr>rc_l1 := l1\<rparr>)
                 | None \<Rightarrow>
                     (case lookup_l2 (cx_http X) (cx_redis X) (cx_json X) base_key request_headers (rc_l2 c) of
                        Some (full_key, final_entry) \<Rightarrow>
                          rust_bind (l1_put (cx_first X) full_key final_entry l1) (\<lambda>l1.
                            Ret (Hit final_entry, c\<lparr>rc_l1 := l1\<rparr>))
                      | None \<Rightarrow> Ret (Miss, c\<lparr>rc_l1 := l1\<rparr>)))))"

text \<open>\<open>store\<close> in two parts, as the source has them: deciding whether, under which key and as what to store,
  then writing to the layers. \<open>now\<close> is the clock of the new entry.\<close>

definition store_plan ::
  "('hm, 'hv, 'u) http_lib \<Rightarrow> u64 \<Rightarrow> cache_middleware_config option \<Rightarrow> string \<Rightarrow> string \<Rightarrow> string \<Rightarrow> string option \<Rightarrow>
   u16 \<Rightarrow> 'hm \<Rightarrow> bytes \<Rightarrow> 'hm \<Rightarrow> (string \<times> cached_response \<times> bool \<times> duration) option" where
  "store_plan L now middleware_cfg route_id method path query status response_headers body request_headers =
     (case middleware_cfg of
        None \<Rightarrow> None
      | Some cfg \<Rightarrow>
          (if cm_read_only cfg then None
           else if \<not> (200 \<le> status \<and> status < 300) then None
           else
             (let response_cc = cc_from_headers L response_headers
              in case resolve_ttl response_cc (cm_ttl cfg) of
                   None \<Rightarrow> None
                 | Some ttl \<Rightarrow>
                     (case parse_vary L response_headers of
                        None \<Rightarrow> None
                      | Some vary_headers \<Rightarrow>
                          (let base_key = cache_key_new method route_id path query;
                               full_key = with_vary L vary_headers request_headers base_key;
                               safe_hdrs = storable_headers L response_headers;
                               is_private = (case response_cc of None \<Rightarrow> False | Some cc \<Rightarrow> ctl_private cc);
                               entry = cached_response_new now status safe_hdrs body ttl vary_headers
                           in Some (full_key, entry, is_private, ttl))))))"

definition store ::
  "('hm, 'hv, 'u, 'r) cache_libs \<Rightarrow> u64 \<Rightarrow> cache_middleware_config option \<Rightarrow> string \<Rightarrow> string \<Rightarrow> string \<Rightarrow> string option \<Rightarrow>
   u16 \<Rightarrow> 'hm \<Rightarrow> bytes \<Rightarrow> 'hm \<Rightarrow> 'r response_cache \<Rightarrow> 'r response_cache rust" where
  "store X now middleware_cfg route_id method path query status response_headers body request_headers c =
     (case store_plan (cx_http X) now middleware_cfg route_id method path query status response_headers body
             request_headers of
        None \<Rightarrow> Ret c
      | Some (full_key, entry, is_private, ttl) \<Rightarrow>
          rust_bind (l1_put (cx_first X) full_key entry (rc_l1 c)) (\<lambda>l1.
            let c = c\<lparr>rc_l1 := l1\<rparr>
            in Ret (if \<not> is_private
                    then c\<lparr>rc_l2 := l2_put (cx_redis X) (cx_json X) full_key entry (as_secs ttl) (rc_l2 c)\<rparr>
                    else c)))"

definition invalidate ::
  "('hm, 'hv, 'u, 'r) cache_libs \<Rightarrow> string \<Rightarrow> string \<Rightarrow> string \<Rightarrow> string option \<Rightarrow> 'r response_cache \<Rightarrow> 'r response_cache" where
  "invalidate X route_id method path query c =
     (let key = cache_key_new method route_id path query
      in c\<lparr>rc_l1 := l1_invalidate key (rc_l1 c), rc_l2 := l2_invalidate (cx_redis X) key (rc_l2 c)\<rparr>)"

section \<open>Laws of the libraries\<close>

text \<open>The iterator of a non-empty map yields one of its entries.\<close>

definition first_law :: "first_key \<Rightarrow> bool" where
  "first_law first \<longleftrightarrow> first [] = None \<and> (\<forall>m. m \<noteq> [] \<longrightarrow> (\<exists>k. first m = Some k \<and> k \<in> fst ` set m))"

text \<open>GET after SETEX or DEL returns, for a key that was not written, what it returned before, and for the
  written key at most the written value; a value may also have expired, and a call may fail. \<open>rd_later r r'\<close>
  says that \<open>r'\<close> is the server's state some time later: no value appears by itself.\<close>

definition redis_laws :: "'r redis_lib \<Rightarrow> ('r \<Rightarrow> 'r \<Rightarrow> bool) \<Rightarrow> bool" where
  "redis_laws R later \<longleftrightarrow>
     (\<forall>r k t v k' w. rd_get R (rd_setex R r k t v) k' = Inr (Some w) \<longrightarrow>
        (k' = k \<and> w = v) \<or> rd_get R r k' = Inr (Some w)) \<and>
     (\<forall>r k k' w. rd_get R (rd_del R r k) k' = Inr (Some w) \<longrightarrow> rd_get R r k' = Inr (Some w)) \<and>
     (\<forall>r r' k w. later r r' \<and> rd_get R r' k = Inr (Some w) \<longrightarrow> rd_get R r k = Inr (Some w))"

lemma redis_rules:
  assumes "redis_laws R later"
  shows "rd_get R (rd_setex R r k t v) k' = Inr (Some w) \<Longrightarrow> (k' = k \<and> w = v) \<or> rd_get R r k' = Inr (Some w)"
    and "rd_get R (rd_del R r k) k' = Inr (Some w) \<Longrightarrow> rd_get R r k' = Inr (Some w)"
    and "later r r' \<Longrightarrow> rd_get R r' k = Inr (Some w) \<Longrightarrow> rd_get R r k = Inr (Some w)"
  using assms unfolding redis_laws_def by blast+

text \<open>What serde writes it reads back.\<close>

definition json_laws :: "json_lib \<Rightarrow> bool" where
  "json_laws J \<longleftrightarrow> (\<forall>e s. js_to_string J e = Inr s \<longrightarrow> js_from_str J s = Inr e)"

section \<open>Layer one: invariant and behaviour\<close>

definition l1_inv :: "l1_cache \<Rightarrow> bool" where
  "l1_inv c \<longleftrightarrow> distinct (map fst (l1_store c)) \<and> l1_len c \<le> max (unat (l1_capacity c)) 1"

lemma l1_inv_new: "l1_inv (l1_cache_new n)"
  by (simp add: l1_inv_def l1_cache_new_def l1_len_def)

lemma l1_inv_remove [gw_inv]: "l1_inv c \<Longrightarrow> l1_inv (l1_remove k c)"
  using length_delete_le [of k "l1_store c"]
  by (auto simp: l1_inv_def l1_remove_def l1_len_def distinct_delete)

lemma l1_inv_get [gw_inv]: "l1_inv c \<Longrightarrow> l1_inv (snd (l1_get now k c))"
  by (simp add: l1_get_def gw_inv split: option.split)

lemma length_alist_update: "length (AList.update k v m) = (if k \<in> fst ` set m then length m else Suc (length m))"
  by (induction m) auto

text \<open>A put returns exactly when there is room or nothing to evict.\<close>

definition l1_full :: "l1_cache \<Rightarrow> bool" where
  "l1_full c \<longleftrightarrow> unat (l1_capacity c) \<le> l1_len c \<and> \<not> l1_is_empty c"

lemma l1_put_cases:
  assumes "first_law first"
  shows "l1_put first k e c = (if l1_full c then Hang else Ret (c\<lparr>l1_store := AList.update k e (l1_store c)\<rparr>))"
proof (cases "l1_store c = []")
  case True
  with assms show ?thesis by (simp add: l1_put_def evict_one_def l1_full_def l1_is_empty_def first_law_def)
next
  case False
  with assms obtain key where "first (l1_store c) = Some key" unfolding first_law_def by blast
  with False show ?thesis by (simp add: l1_put_def evict_one_def shard_remove_def l1_full_def l1_is_empty_def)
qed

lemma l1_put_Ret: "l1_put first k e c = Ret c' \<Longrightarrow> c' = c\<lparr>l1_store := AList.update k e (l1_store c)\<rparr>"
  by (auto simp: l1_put_def evict_one_def shard_remove_def rust_bind_eq split: if_splits option.splits)

lemma l1_put_not_Panic [simp]: "l1_put first k e c \<noteq> Panic"
  by (auto simp: l1_put_def evict_one_def shard_remove_def rust_bind_eq split: if_splits option.splits)

lemma l1_put_map:
  assumes "l1_put first k e c = Ret c'"
  shows "map_of (l1_store c') k = Some e"
    and "map_of (l1_store c') k' = Some e' \<Longrightarrow> (k' = k \<and> e' = e) \<or> map_of (l1_store c) k' = Some e'"
    and "l1_capacity c' = l1_capacity c"
  unfolding l1_put_Ret [OF assms] by (auto simp: update_conv' split: if_splits)

lemma l1_inv_put [gw_inv]:
  assumes "first_law first" and "l1_inv c" and "l1_put first k e c = Ret c'"
  shows "l1_inv c'"
proof -
  have "\<not> l1_full c" using assms(3) by (auto simp: l1_put_cases [OF assms(1)] split: if_splits)
  with assms(2) have "length (AList.update k e (l1_store c)) \<le> max (unat (l1_capacity c)) 1"
    by (auto simp: l1_full_def l1_is_empty_def l1_len_def length_alist_update)
  with assms(2) show ?thesis unfolding l1_put_Ret [OF assms(3)] by (simp add: l1_inv_def l1_len_def distinct_update)
qed

lemma l1_get_Some:
  assumes "l1_get now k c = (Some e, c')"
  shows "map_of (l1_store c) k = Some e" and "\<not> entry_is_expired now e" and "c' = c"
  using assms by (auto simp: l1_get_def split: option.splits if_splits)

lemma l1_get_map:
  assumes "l1_get now k c = (r, c')" and "map_of (l1_store c') k' = Some e"
  shows "map_of (l1_store c) k' = Some e"
  using assms by (auto simp: l1_get_def l1_remove_def delete_conv' split: option.splits if_splits)

lemma l1_get_fresh: "map_of (l1_store c) k = Some e \<Longrightarrow> \<not> entry_is_expired now e \<Longrightarrow> l1_get now k c = (Some e, c)"
  by (simp add: l1_get_def)

lemma l1_get_absent: "map_of (l1_store c) k = None \<Longrightarrow> l1_get now k c = (None, c)"
  by (simp add: l1_get_def)

section \<open>Layer two: what a read can return\<close>

lemma l2_get_Some: "l2_get R J k r = Some e \<longleftrightarrow> (\<exists>json. rd_get R r k = Inr (Some json) \<and> js_from_str J json = Inr e)"
  by (auto simp: l2_get_def split: sum.splits option.splits)

lemma l2_get_put:
  assumes "redis_laws R later" and "json_laws J" and "l2_get R J k' (l2_put R J k e t r) = Some e'"
  shows "(k' = k \<and> e' = e) \<or> l2_get R J k' r = Some e'"
proof -
  obtain json where g: "rd_get R (l2_put R J k e t r) k' = Inr (Some json)" "js_from_str J json = Inr e'"
    using assms(3) by (auto simp: l2_get_Some)
  show ?thesis
  proof (cases "t = 0 \<or> (\<exists>m. js_to_string J e = Inl m)")
    case True
    then have "l2_put R J k e t r = r" by (auto simp: l2_put_def)
    with assms(3) show ?thesis by simp
  next
    case False
    then obtain js where js: "js_to_string J e = Inr js" by (cases "js_to_string J e") auto
    then have "l2_put R J k e t r = rd_setex R r k t js" using False by (simp add: l2_put_def)
    then have "(k' = k \<and> json = js) \<or> rd_get R r k' = Inr (Some json)"
      using g(1) redis_rules(1) [OF assms(1)] by metis
    moreover have "js_from_str J js = Inr e" using assms(2) js by (auto simp: json_laws_def)
    ultimately show ?thesis using g(2) by (auto simp: l2_get_Some)
  qed
qed

lemma l2_get_del:
  assumes "redis_laws R later" and "l2_get R J k' (l2_invalidate R k r) = Some e"
  shows "l2_get R J k' r = Some e"
  using assms(2) by (auto simp: l2_get_Some l2_invalidate_def dest: redis_rules(2) [OF assms(1)])

lemma l2_get_later:
  assumes "redis_laws R later" and "later r r'" and "l2_get R J k r' = Some e"
  shows "l2_get R J k r = Some e"
  using assms(3) by (auto simp: l2_get_Some dest: redis_rules(3) [OF assms(1,2)])

section \<open>Deciding what to store\<close>

lemma store_plan_Some:
  assumes "store_plan L now mw route method path query status rh body qh = Some (k, e, p, ttl)"
  shows "\<exists>cfg. mw = Some cfg \<and> \<not> cm_read_only cfg \<and> ttl \<le> cm_ttl cfg"
    and "200 \<le> status \<and> status < 300"
    and "\<not> (\<exists>cc. cc_from_headers L rh = Some cc \<and> is_uncacheable cc)"
    and "p \<longleftrightarrow> (\<exists>cc. cc_from_headers L rh = Some cc \<and> ctl_private cc)"
    and "\<exists>vary. parse_vary L rh = Some vary \<and> k = with_vary L vary qh (cache_key_new method route path query) \<and>
      e = cached_response_new now status (storable_headers L rh) body ttl vary"
  using assms resolve_ttl_None [of "cc_from_headers L rh"]
  by (auto simp: store_plan_def Let_def dest: resolve_ttl_le split: option.splits if_splits)

text \<open>Without a \<open>Vary\<close> header, or with one that is \<open>*\<close>, nothing is stored.\<close>

lemma store_without_vary:
  assumes "parse_vary L rh = None"
  shows "store_plan L now mw route method path query status rh body qh = None"
  using assms by (simp add: store_plan_def Let_def split: option.split)

section \<open>Runs of a cache\<close>

text \<open>
  A store operation with its arguments, made by this process or by another replica of the gateway. The states a
  cache reaches from an empty start: local stores, stores of other replicas (which change the shared layer
  only), lookups, invalidations and the passage of time at the Redis server. The list holds the store
  operations so far. A store that hangs has changed nothing, and a lookup that hangs may have removed an expired entry;
  the tasks that then wait for the lock it holds make no further steps.
\<close>

record 'hm store_op =
  so_local :: bool
  so_now :: u64
  so_cfg :: "cache_middleware_config option"
  so_route :: string
  so_method :: string
  so_path :: string
  so_query :: "string option"
  so_status :: u16
  so_response_headers :: 'hm
  so_body :: bytes
  so_request_headers :: 'hm

definition plan_of :: "('hm, 'hv, 'u) http_lib \<Rightarrow> 'hm store_op \<Rightarrow> (string \<times> cached_response \<times> bool \<times> duration) option" where
  "plan_of L op = store_plan L (so_now op) (so_cfg op) (so_route op) (so_method op) (so_path op) (so_query op)
     (so_status op) (so_response_headers op) (so_body op) (so_request_headers op)"

definition do_store :: "('hm, 'hv, 'u, 'r) cache_libs \<Rightarrow> 'hm store_op \<Rightarrow> 'r response_cache \<Rightarrow> 'r response_cache rust" where
  "do_store X op c = store X (so_now op) (so_cfg op) (so_route op) (so_method op) (so_path op) (so_query op)
     (so_status op) (so_response_headers op) (so_body op) (so_request_headers op) c"

inductive cache_reach ::
  "('hm, 'hv, 'u, 'r) cache_libs \<Rightarrow> ('r \<Rightarrow> 'r \<Rightarrow> bool) \<Rightarrow> usize \<Rightarrow> 'hm store_op list \<Rightarrow> 'r response_cache \<Rightarrow> bool"
  for X :: "('hm, 'hv, 'u, 'r) cache_libs" and later and capacity where
  start: "(\<And>k. l2_get (cx_redis X) (cx_json X) k r = None) \<Longrightarrow>
     cache_reach X later capacity [] \<lparr>rc_l1 = l1_cache_new capacity, rc_l2 = r\<rparr>"
| stored: "cache_reach X later capacity ops c \<Longrightarrow> so_local op \<Longrightarrow> do_store X op c = Ret c' \<Longrightarrow>
     cache_reach X later capacity (op # ops) c'"
| remote: "cache_reach X later capacity ops c \<Longrightarrow> \<not> so_local op \<Longrightarrow>
     do_store X op \<lparr>rc_l1 = other_l1, rc_l2 = rc_l2 c\<rparr> = Ret other \<Longrightarrow>
     cache_reach X later capacity (op # ops) (c\<lparr>rc_l2 := rc_l2 other\<rparr>)"
| looked: "cache_reach X later capacity ops c \<Longrightarrow>
     lookup X t1 t2 mw route method path query headers c = Ret (res, c') \<Longrightarrow> cache_reach X later capacity ops c'"
| look_hung: "cache_reach X later capacity ops c \<Longrightarrow>
     lookup X t1 t2 mw route method path query headers c = Hang \<Longrightarrow>
     cache_reach X later capacity ops
       (c\<lparr>rc_l1 := snd (lookup_l1 (cx_http X) t1 t2 (cache_key_new method route path query) headers (rc_l1 c))\<rparr>)"
| invalidated: "cache_reach X later capacity ops c \<Longrightarrow>
     cache_reach X later capacity ops (invalidate X route method path query c)"
| time_passes: "cache_reach X later capacity ops c \<Longrightarrow> later (rc_l2 c) r' \<Longrightarrow>
     cache_reach X later capacity ops (c\<lparr>rc_l2 := r'\<rparr>)"

text \<open>An entry comes from a store operation of the run; a private one from a local operation.\<close>

definition origin :: "('hm, 'hv, 'u) http_lib \<Rightarrow> 'hm store_op list \<Rightarrow> string \<Rightarrow> cached_response \<Rightarrow> bool \<Rightarrow> bool" where
  "origin L ops k e shared \<longleftrightarrow> (\<exists>op \<in> set ops. \<exists>p ttl. plan_of L op = Some (k, e, p, ttl) \<and> (p \<longrightarrow> so_local op \<and> \<not> shared))"

lemma origin_Cons: "origin L ops k e s \<Longrightarrow> origin L (op # ops) k e s"
  by (auto simp: origin_def)

lemma origin_weaken: "origin L ops k e True \<Longrightarrow> origin L ops k e s"
  by (auto simp: origin_def)

definition promoted_from :: "string \<Rightarrow> cached_response \<Rightarrow> string \<Rightarrow> bool" where
  "promoted_from k' e k \<longleftrightarrow> prefix k' k \<and> (ce_vary_headers e = [] \<longrightarrow> k' = k)"

lemma promoted_from_refl [simp]: "promoted_from k e k"
  by (simp add: promoted_from_def)

definition cache_inv :: "('hm, 'hv, 'u, 'r) cache_libs \<Rightarrow> usize \<Rightarrow> 'hm store_op list \<Rightarrow> 'r response_cache \<Rightarrow> bool" where
  "cache_inv X capacity ops c \<longleftrightarrow>
     l1_inv (rc_l1 c) \<and> l1_capacity (rc_l1 c) = capacity \<and>
     (\<forall>k e. map_of (l1_store (rc_l1 c)) k = Some e \<longrightarrow>
        (\<exists>k'. origin (cx_http X) ops k' e False \<and> promoted_from k' e k)) \<and>
     (\<forall>k e. l2_get (cx_redis X) (cx_json X) k (rc_l2 c) = Some e \<longrightarrow> origin (cx_http X) ops k e True)"

lemma cache_invD:
  assumes "cache_inv X capacity ops c"
  shows "l1_inv (rc_l1 c)" and "l1_capacity (rc_l1 c) = capacity"
    and "map_of (l1_store (rc_l1 c)) k = Some e \<Longrightarrow> \<exists>k'. origin (cx_http X) ops k' e False \<and> promoted_from k' e k"
    and "l2_get (cx_redis X) (cx_json X) k (rc_l2 c) = Some e \<Longrightarrow> origin (cx_http X) ops k e True"
  using assms by (simp_all add: cache_inv_def)

lemma l1_capacity_ops:
  "l1_capacity (snd (l1_get now k c)) = l1_capacity c"
  "l1_capacity (l1_remove k c) = l1_capacity c"
  by (simp_all add: l1_get_def l1_remove_def split: option.split)

text \<open>What a store does to the two layers.\<close>

lemma do_store_Ret:
  assumes "do_store X op c = Ret c'"
  obtains (skipped) "plan_of (cx_http X) op = None" "c' = c"
  | (planned) k e p ttl where "plan_of (cx_http X) op = Some (k, e, p, ttl)"
      "l1_put (cx_first X) k e (rc_l1 c) = Ret (rc_l1 c')"
      "rc_l2 c' = (if p then rc_l2 c else l2_put (cx_redis X) (cx_json X) k e (as_secs ttl) (rc_l2 c))"
proof (cases "plan_of (cx_http X) op")
  case None
  with assms skipped show thesis by (simp add: do_store_def store_def plan_of_def)
next
  case (Some pl)
  obtain k e p ttl where pl: "pl = (k, e, p, ttl)" by (cases pl) auto
  with assms Some obtain l1 where put: "l1_put (cx_first X) k e (rc_l1 c) = Ret l1"
    and c': "c' = (if \<not> p then c\<lparr>rc_l1 := l1, rc_l2 := l2_put (cx_redis X) (cx_json X) k e (as_secs ttl) (rc_l2 c)\<rparr>
                   else c\<lparr>rc_l1 := l1\<rparr>)"
    by (auto simp: do_store_def store_def plan_of_def Let_def rust_bind_eq)
  from planned [OF Some [unfolded pl]] put show thesis unfolding c' by simp
qed

lemma l2_origin_store:
  assumes "redis_laws (cx_redis X) later" and "json_laws (cx_json X)" and "do_store X op c = Ret c'"
    and "\<And>k e. l2_get (cx_redis X) (cx_json X) k (rc_l2 c) = Some e \<Longrightarrow> origin (cx_http X) ops k e True"
    and "l2_get (cx_redis X) (cx_json X) k (rc_l2 c') = Some e"
  shows "origin (cx_http X) (op # ops) k e True"
  using assms(3)
proof (cases rule: do_store_Ret)
  case skipped
  with assms(4,5) show ?thesis by (simp add: origin_Cons)
next
  case (planned k0 e0 p ttl)
  show ?thesis
  proof (cases p)
    case True
    with assms(4,5) planned show ?thesis by (simp add: origin_Cons)
  next
    case False
    with assms(5) planned
    have "l2_get (cx_redis X) (cx_json X) k (l2_put (cx_redis X) (cx_json X) k0 e0 (as_secs ttl) (rc_l2 c)) = Some e" by simp
    from l2_get_put [OF assms(1,2) this]
    show ?thesis
    proof
      assume "k = k0 \<and> e = e0"
      with planned(1) False show ?thesis by (auto simp: origin_def)
    next
      assume "l2_get (cx_redis X) (cx_json X) k (rc_l2 c) = Some e"
      with assms(4) show ?thesis by (simp add: origin_Cons)
    qed
  qed
qed

lemma l1_origin_put:
  assumes "l1_put first k0 e0 l = Ret l'"
    and "\<And>k e. map_of (l1_store l) k = Some e \<Longrightarrow> \<exists>k'. origin L ops k' e False \<and> promoted_from k' e k"
    and "origin L ops k1 e0 False" and "promoted_from k1 e0 k0"
    and "map_of (l1_store l') k = Some e"
  shows "\<exists>k'. origin L ops k' e False \<and> promoted_from k' e k"
  using l1_put_map(2) [OF assms(1,5)] assms(2-4) by blast

lemma cache_inv_store:
  assumes "redis_laws (cx_redis X) later" and "json_laws (cx_json X)" and "first_law (cx_first X)"
    and "cache_inv X capacity ops c" and "so_local op" and "do_store X op c = Ret c'"
  shows "cache_inv X capacity (op # ops) c'"
proof -
  note inv = cache_invD [OF assms(4)]
  have old: "\<exists>k'. origin (cx_http X) (op # ops) k' e False \<and> promoted_from k' e k"
    if "map_of (l1_store (rc_l1 c)) k = Some e" for k e
    using inv(3) [OF that] origin_Cons by blast
  have "l1_inv (rc_l1 c') \<and> l1_capacity (rc_l1 c') = capacity \<and>
      (\<forall>k e. map_of (l1_store (rc_l1 c')) k = Some e \<longrightarrow>
         (\<exists>k'. origin (cx_http X) (op # ops) k' e False \<and> promoted_from k' e k))"
    using assms(6)
  proof (cases rule: do_store_Ret)
    case skipped
    with inv(1,2) old show ?thesis by simp
  next
    case (planned k0 e0 p ttl)
    have "origin (cx_http X) (op # ops) k0 e0 False" using planned(1) assms(5) by (auto simp: origin_def)
    from l1_origin_put [OF planned(2) old this] l1_inv_put [OF assms(3) inv(1) planned(2)] l1_put_map(3) [OF planned(2)] inv(2)
    show ?thesis by simp
  qed
  with l2_origin_store [OF assms(1,2,6) inv(4)] show ?thesis by (auto simp: cache_inv_def)
qed

lemma cache_inv_remote:
  assumes "redis_laws (cx_redis X) later" and "json_laws (cx_json X)" and "cache_inv X capacity ops c"
    and "do_store X op \<lparr>rc_l1 = l, rc_l2 = rc_l2 c\<rparr> = Ret c'"
  shows "cache_inv X capacity (op # ops) (c\<lparr>rc_l2 := rc_l2 c'\<rparr>)"
proof -
  note inv = cache_invD [OF assms(3)]
  have "origin (cx_http X) (op # ops) k e True" if "l2_get (cx_redis X) (cx_json X) k (rc_l2 c') = Some e" for k e
    using l2_origin_store [OF assms(1,2,4) _ that] inv(4) by simp
  moreover have "\<exists>k'. origin (cx_http X) (op # ops) k' e False \<and> promoted_from k' e k"
    if "map_of (l1_store (rc_l1 c)) k = Some e" for k e
    using inv(3) [OF that] origin_Cons by blast
  ultimately show ?thesis using inv(1,2) by (simp add: cache_inv_def)
qed

section \<open>Lookups\<close>

lemma lookup_l1_Some:
  assumes "lookup_l1 L t1 t2 base h l = (Some e, l')"
  shows "\<exists>ns. map_of (l1_store l) (with_vary L ns h base) = Some e" and "\<not> entry_is_expired t2 e" and "l' = l"
  using assms by (auto simp: lookup_l1_def split: prod.splits option.splits dest: l1_get_Some)

lemma lookup_l1_map:
  assumes "lookup_l1 L t1 t2 base h l = (r, l')" and "map_of (l1_store l') k = Some e"
  shows "map_of (l1_store l) k = Some e"
  using assms by (auto simp: lookup_l1_def split: prod.splits option.splits dest: l1_get_map l1_get_Some(3))

lemma lookup_l1_inv [gw_inv]:
  assumes "l1_inv l"
  shows "l1_inv (snd (lookup_l1 L t1 t2 base h l))"
proof -
  obtain r l' where "l1_get t1 base l = (r, l')" by fastforce
  with assms l1_inv_get [of l t1 base] have "l1_inv l'" by simp
  then show ?thesis using \<open>l1_get t1 base l = (r, l')\<close> by (simp add: lookup_l1_def gw_inv split: option.split)
qed

lemma lookup_l1_capacity: "l1_capacity (snd (lookup_l1 L t1 t2 base h l)) = l1_capacity l"
proof -
  obtain r l' where g: "l1_get t1 base l = (r, l')" by fastforce
  then have "l1_capacity l' = l1_capacity l" using l1_capacity_ops(1) [of t1 base l] by simp
  with g show ?thesis by (simp add: lookup_l1_def l1_capacity_ops split: option.split)
qed

lemma lookup_l2_Some:
  assumes "lookup_l2 L R J base h r = Some (k, e)"
  shows "\<exists>k'. l2_get R J k' r = Some e \<and> promoted_from k' e k" and "\<exists>ns. k = with_vary L ns h base"
  using assms
  by (auto simp: lookup_l2_def Let_def promoted_from_def with_vary_def split: option.splits if_splits)

text \<open>The outcomes of a lookup.\<close>

lemma lookup_outcome:
  assumes "lookup X t1 t2 mw route method path query h c = Ret (res, c')"
  obtains (bypass) "res = Bypass" "c' = c"
  | (l1_hit) e where "res = Hit e" "c' = c"
      "lookup_l1 (cx_http X) t1 t2 (cache_key_new method route path query) h (rc_l1 c) = (Some e, rc_l1 c)"
  | (l2_hit) k e l where "res = Hit e" "l1_put (cx_first X) k e l = Ret (rc_l1 c')" "rc_l2 c' = rc_l2 c"
      "lookup_l1 (cx_http X) t1 t2 (cache_key_new method route path query) h (rc_l1 c) = (None, l)"
      "lookup_l2 (cx_http X) (cx_redis X) (cx_json X) (cache_key_new method route path query) h (rc_l2 c) = Some (k, e)"
  | (miss) l where "res = Miss" "c' = c\<lparr>rc_l1 := l\<rparr>"
      "lookup_l1 (cx_http X) t1 t2 (cache_key_new method route path query) h (rc_l1 c) = (None, l)"
      "lookup_l2 (cx_http X) (cx_redis X) (cx_json X) (cache_key_new method route path query) h (rc_l2 c) = None"
proof -
  obtain found l where f: "lookup_l1 (cx_http X) t1 t2 (cache_key_new method route path query) h (rc_l1 c) = (found, l)"
    by fastforce
  show thesis
  proof (cases found)
    case (Some e)
    with f have "l = rc_l1 c" using lookup_l1_Some(3) by metis
    with assms f Some show thesis using bypass l1_hit
      by (auto simp: lookup_def Let_def split: option.splits if_splits)
  next
    case None
    with assms f show thesis using bypass l2_hit miss
      by (auto simp: lookup_def Let_def rust_bind_eq split: option.splits if_splits)
  qed
qed

lemma lookup_not_Panic [simp]: "lookup X t1 t2 mw route method path query h c \<noteq> Panic"
  by (auto simp: lookup_def Let_def rust_bind_eq split: option.splits prod.splits)

lemma cache_inv_look_l1:
  assumes "cache_inv X capacity ops c" and "lookup_l1 (cx_http X) t1 t2 base h (rc_l1 c) = (r, l)"
  shows "cache_inv X capacity ops (c\<lparr>rc_l1 := l\<rparr>)"
proof -
  note inv = cache_invD [OF assms(1)]
  have "l1_inv l" "l1_capacity l = capacity"
    using lookup_l1_inv [OF inv(1)] lookup_l1_capacity inv(2) assms(2) by (metis snd_conv)+
  moreover have "\<exists>k'. origin (cx_http X) ops k' e False \<and> promoted_from k' e k"
    if "map_of (l1_store l) k = Some e" for k e
    using inv(3) [OF lookup_l1_map [OF assms(2) that]] .
  ultimately show ?thesis using inv(4) by (simp add: cache_inv_def)
qed

lemma cache_inv_lookup:
  assumes "first_law (cx_first X)" and "cache_inv X capacity ops c"
    and "lookup X t1 t2 mw route method path query h c = Ret (res, c')"
  shows "cache_inv X capacity ops c'"
  using assms(3)
proof (cases rule: lookup_outcome)
  case (l2_hit k e l)
  note inv = cache_invD [OF cache_inv_look_l1 [OF assms(2) l2_hit(4)], simplified]
  obtain k1 where "l2_get (cx_redis X) (cx_json X) k1 (rc_l2 c) = Some e" "promoted_from k1 e k"
    using lookup_l2_Some(1) [OF l2_hit(5)] by blast
  then have "origin (cx_http X) ops k1 e False" "promoted_from k1 e k" using inv(4) origin_weaken by blast+
  from l1_origin_put [OF l2_hit(2) inv(3) this] l1_inv_put [OF assms(1) inv(1) l2_hit(2)] l1_put_map(3) [OF l2_hit(2)] inv(2,4)
  show ?thesis by (simp add: cache_inv_def l2_hit(3))
next
  case (miss l)
  with cache_inv_look_l1 [OF assms(2) miss(3)] show ?thesis by simp
qed (use assms(2) in simp_all)

lemma cache_inv_invalidate:
  assumes "redis_laws (cx_redis X) later" and "cache_inv X capacity ops c"
  shows "cache_inv X capacity ops (invalidate X route method path query c)"
proof -
  note inv = cache_invD [OF assms(2)]
  let ?key = "cache_key_new method route path query"
  have "l1_inv (l1_remove ?key (rc_l1 c))" using inv(1) by (rule l1_inv_remove)
  moreover have "map_of (l1_store (rc_l1 c)) k = Some e" if "map_of (l1_store (l1_remove ?key (rc_l1 c))) k = Some e" for k e
    using that by (simp add: l1_remove_def delete_conv' split: if_splits)
  ultimately show ?thesis
    using inv(2) inv(3) inv(4) [OF l2_get_del [OF assms(1)]]
    unfolding cache_inv_def invalidate_def Let_def l1_invalidate_def by (simp add: l1_capacity_ops)
qed

lemma cache_reach_inv:
  assumes "cache_reach X later capacity ops c"
    and "redis_laws (cx_redis X) later" and "json_laws (cx_json X)" and "first_law (cx_first X)"
  shows "cache_inv X capacity ops c"
  using assms(1)
proof (induction rule: cache_reach.induct)
  case (start r)
  then show ?case by (simp add: cache_inv_def l1_inv_new) (simp add: l1_cache_new_def)
next
  case (stored ops c op c')
  then show ?case using cache_inv_store assms(2-4) by blast
next
  case (remote ops c op l c')
  then show ?case using cache_inv_remote assms(2,3) by blast
next
  case (looked ops c t1 t2 mw route mth pth query h res c')
  then show ?case using cache_inv_lookup [OF assms(4)] by blast
next
  case (look_hung ops c t1 t2 mw route mth pth query h)
  then show ?case using cache_inv_look_l1 by (metis prod.collapse)
next
  case (invalidated ops c)
  then show ?case using cache_inv_invalidate assms(2) by blast
next
  case (time_passes ops c r)
  then show ?case using l2_get_later [OF assms(2)] by (auto simp: cache_inv_def)
qed

lemma entry_is_expired_nat: "entry_is_expired now e \<longleftrightarrow> unat (ce_ttl_secs e) \<le> unat now - unat (ce_stored_at_secs e)"
  by (simp add: entry_is_expired_def word_le_nat_alt unat_saturating_sub)

lemma plan_entry:
  assumes "plan_of L op = Some (k, e, p, ttl)"
  shows "200 \<le> ce_status e" "ce_status e < 300" "(n, v) \<in> set (ce_headers e) \<Longrightarrow> n \<notin> set HOP_BY_HOP"
    and "\<not> (\<exists>cc. cc_from_headers L (so_response_headers op) = Some cc \<and> is_uncacheable cc)"
proof -
  note plan = store_plan_Some [OF assms [unfolded plan_of_def]]
  from plan(2,5) show "200 \<le> ce_status e" "ce_status e < 300" by (auto simp: cached_response_new_def)
  from plan(5) show "(n, v) \<in> set (ce_headers e) \<Longrightarrow> n \<notin> set HOP_BY_HOP"
    by (auto simp: cached_response_new_def dest: storable_headers_safe(1))
  show "\<not> (\<exists>cc. cc_from_headers L (so_response_headers op) = Some cc \<and> is_uncacheable cc)" by (rule plan(3))
qed

section \<open>Concrete libraries for the closed examples\<close>

text \<open>A Redis server as a map without expiry, a serialiser that knows one entry, and the response it stores.\<close>

definition map_redis :: "(string \<Rightarrow> string option) redis_lib" where
  "map_redis = \<lparr>rd_get = (\<lambda>r k. Inr (r k)), rd_setex = (\<lambda>r k t v. r(k \<mapsto> v)), rd_del = (\<lambda>r k. r(k := None))\<rparr>"

definition sample_entry :: cached_response where
  "sample_entry = \<lparr>ce_status = 200, ce_headers = [(''vary'', '''')], ce_body = [111, 107], ce_ttl_secs = 60,
     ce_stored_at_secs = 1000, ce_vary_headers = []\<rparr>"

definition sample_json :: json_lib where
  "sample_json =
     \<lparr>js_to_string = (\<lambda>e. if e = sample_entry then Inr ''{}'' else Inl ''unknown''),
      js_from_str = (\<lambda>s. if s = ''{}'' then Inr sample_entry else Inl ''unknown'')\<rparr>"

definition sample_libs ::
  "((string \<times> string) list, string, string, string \<Rightarrow> string option) cache_libs" where
  "sample_libs = \<lparr>cx_http = alist_http, cx_redis = map_redis, cx_json = sample_json,
     cx_first = (\<lambda>m. case m of [] \<Rightarrow> None | (k, e) # _ \<Rightarrow> Some k)\<rparr>"

definition sample_cache_cfg :: cache_middleware_config where
  "sample_cache_cfg = \<lparr>cm_ttl = from_secs 60, cm_read_only = False\<rparr>"

definition sample_store :: "(string \<times> string) list store_op" where
  "sample_store = \<lparr>so_local = True, so_now = 1000, so_cfg = Some sample_cache_cfg, so_route = ''api'', so_method = ''GET'',
     so_path = ''/users'', so_query = None, so_status = 200, so_response_headers = [(''vary'', '''')],
     so_body = [111, 107], so_request_headers = []\<rparr>"

definition empty_cache :: "(string \<Rightarrow> string option) response_cache" where
  "empty_cache = \<lparr>rc_l1 = l1_cache_new 2, rc_l2 = (\<lambda>k. None)\<rparr>"

definition sample_cache :: "(string \<Rightarrow> string option) response_cache" where
  "sample_cache = \<lparr>rc_l1 = \<lparr>l1_store = [(''stateform:cache:GET:api:/users'', sample_entry)], l1_capacity = 2\<rparr>,
     rc_l2 = [''stateform:cache:GET:api:/users'' \<mapsto> ''{}'']\<rparr>"

lemma sample_laws:
  "redis_laws (cx_redis sample_libs) (=)" "json_laws (cx_json sample_libs)" "first_law (cx_first sample_libs)"
proof -
  show "redis_laws (cx_redis sample_libs) (=)"
    unfolding redis_laws_def sample_libs_def map_redis_def by (auto split: if_splits)
  show "json_laws (cx_json sample_libs)"
    unfolding json_laws_def sample_libs_def sample_json_def by (auto split: if_splits)
  show "first_law (cx_first sample_libs)"
    unfolding first_law_def sample_libs_def by (auto split: list.split)
qed

lemma alist_header_str: "header_str alist_http h n = al_get h n"
  by (cases "al_get h n") (simp_all add: header_str_def alist_http_def)

lemma sample_headers:
  "cc_from_headers alist_http [(''vary'', '''')] = None" "parse_vary alist_http [(''vary'', '''')] = Some []"
  "cc_from_headers alist_http [] = None" "storable_headers alist_http [(''vary'', '''')] = [(''vary'', '''')]"
proof -
  have a: "al_get [(''vary'', '''')] ''cache-control'' = None" by code_simp
  have v: "al_get [(''vary'', '''')] ''vary'' = Some ''''" by code_simp
  have s: "storable_headers alist_http h = List.map_filter (\<lambda>(name, value).
       if to_ascii_lowercase name \<in> set HOP_BY_HOP then None else Some (to_ascii_lowercase name, value)) h" for h
    by (simp add: storable_headers_def alist_http_def Let_def if_distrib cong: if_cong)
  show "cc_from_headers alist_http [(''vary'', '''')] = None" "cc_from_headers alist_http [] = None"
    using a by (simp_all add: cc_from_headers_def alist_header_str al_get_Nil)
  show "parse_vary alist_http [(''vary'', '''')] = Some []"
    using v by (simp add: parse_vary_def alist_header_str to_ascii_lowercase_def)
  show "storable_headers alist_http [(''vary'', '''')] = [(''vary'', '''')]"
    unfolding s by code_simp
qed

lemma sample_plan:
  "plan_of (cx_http sample_libs) sample_store =
     Some (''stateform:cache:GET:api:/users'', sample_entry, False, from_secs 60)"
proof -
  have "cache_key_new ''GET'' ''api'' ''/users'' None = ''stateform:cache:GET:api:/users''" by code_simp
  then show ?thesis
    by (simp add: plan_of_def store_plan_def sample_store_def sample_libs_def sample_headers sample_cache_cfg_def
        resolve_ttl_def cached_response_new_def sample_entry_def)
qed

lemma sample_stored: "do_store sample_libs sample_store empty_cache = Ret sample_cache"
proof -
  have "store_plan (cx_http sample_libs) (so_now sample_store) (so_cfg sample_store) (so_route sample_store) (so_method sample_store)
      (so_path sample_store) (so_query sample_store) (so_status sample_store) (so_response_headers sample_store) (so_body sample_store)
      (so_request_headers sample_store) = Some (''stateform:cache:GET:api:/users'', sample_entry, False, from_secs 60)"
    using sample_plan by (simp only: plan_of_def)
  moreover have "as_secs (from_secs 60) = 60" by (simp add: as_secs_from_secs)
  ultimately show ?thesis
    by (simp add: do_store_def store_def l1_put_def l1_len_def empty_cache_def l1_cache_new_def sample_cache_def l2_put_def)
      (simp add: sample_libs_def sample_json_def map_redis_def)
qed

lemma sample_reach: "cache_reach sample_libs (=) 2 [sample_store] sample_cache"
proof (rule cache_reach.stored [OF _ _ sample_stored])
  show "cache_reach sample_libs (=) 2 [] empty_cache"
    unfolding empty_cache_def
    by (rule cache_reach.start) (simp add: l2_get_def sample_libs_def map_redis_def)
qed (simp add: sample_store_def)

section \<open>Where a hit comes from\<close>

lemma lookup_hit_origin:
  assumes "redis_laws (cx_redis X) later" and "json_laws (cx_json X)" and "first_law (cx_first X)"
    and "cache_reach X later capacity ops c"
    and "lookup X t1 t2 mw route method path query h c = Ret (Hit e, c')"
  shows "\<exists>op \<in> set ops. \<exists>k p ttl ns. plan_of (cx_http X) op = Some (k, e, p, ttl) \<and> (p \<longrightarrow> so_local op) \<and>
      prefix k (with_vary (cx_http X) ns h (cache_key_new method route path query)) \<and>
      (ce_vary_headers e = [] \<longrightarrow> k = with_vary (cx_http X) ns h (cache_key_new method route path query)) \<and>
      \<not> (\<exists>cc. cc_from_headers (cx_http X) (so_response_headers op) = Some cc \<and> is_uncacheable cc)"
    and "200 \<le> ce_status e \<and> ce_status e < 300 \<and> (\<forall>(n, v) \<in> set (ce_headers e). n \<notin> set HOP_BY_HOP)"
    and "\<not> entry_is_expired t2 e \<or> (\<exists>k. l2_get (cx_redis X) (cx_json X) k (rc_l2 c) = Some e)"
proof -
  let ?base = "cache_key_new method route path query"
  note inv = cache_invD [OF cache_reach_inv [OF assms(4,1,2,3)]]
  have *: "(\<exists>k ns. origin (cx_http X) ops k e False \<and> promoted_from k e (with_vary (cx_http X) ns h ?base)) \<and>
      (\<not> entry_is_expired t2 e \<or> (\<exists>k. l2_get (cx_redis X) (cx_json X) k (rc_l2 c) = Some e))"
    using assms(5)
  proof (cases rule: lookup_outcome)
    case (l1_hit e')
    then show ?thesis using lookup_l1_Some [OF l1_hit(3)] inv(3) by blast
  next
    case (l2_hit k e' l)
    then obtain k1 where "l2_get (cx_redis X) (cx_json X) k1 (rc_l2 c) = Some e" "promoted_from k1 e k"
      using lookup_l2_Some(1) [OF l2_hit(5)] by blast
    with lookup_l2_Some(2) [OF l2_hit(5)] inv(4) origin_weaken show ?thesis by blast
  qed simp_all
  then obtain k ns op p ttl where o: "op \<in> set ops" "plan_of (cx_http X) op = Some (k, e, p, ttl)" "p \<longrightarrow> so_local op"
    "promoted_from k e (with_vary (cx_http X) ns h ?base)" by (auto simp: origin_def)
  from o plan_entry(4) [OF o(2)] show "\<exists>op \<in> set ops. \<exists>k p ttl ns. plan_of (cx_http X) op = Some (k, e, p, ttl) \<and>
      (p \<longrightarrow> so_local op) \<and> prefix k (with_vary (cx_http X) ns h ?base) \<and>
      (ce_vary_headers e = [] \<longrightarrow> k = with_vary (cx_http X) ns h ?base) \<and>
      \<not> (\<exists>cc. cc_from_headers (cx_http X) (so_response_headers op) = Some cc \<and> is_uncacheable cc)"
    unfolding promoted_from_def by blast
  show "200 \<le> ce_status e \<and> ce_status e < 300 \<and> (\<forall>(n, v) \<in> set (ce_headers e). n \<notin> set HOP_BY_HOP)"
    using plan_entry(1-3) [OF o(2)] by blast
  show "\<not> entry_is_expired t2 e \<or> (\<exists>k. l2_get (cx_redis X) (cx_json X) k (rc_l2 c) = Some e)" using * by blast
qed

section \<open>Properties\<close>

text \<open>C8: A cached response is served only if some store operation of this process, or of another replica sharing the
  Redis server, decided to store exactly that response, under the key of the request being served (for a
  response that does not vary; otherwise under a key that the request's key extends); a response
  marked private comes from this process; the response is a success without the forbidden directives and without
  hop-by-hop headers; and it is not expired unless it was read from Redis, which expires its own.
\<close>

theorem cache_hit_provenance:
  assumes "redis_laws (cx_redis X) later" and "json_laws (cx_json X)" and "first_law (cx_first X)"
    and "cache_reach X later capacity ops c"
    and "lookup X t1 t2 mw route method path query h c = Ret (Hit e, c')"
  shows "(\<exists>op \<in> set ops. \<exists>k p ttl ns. plan_of (cx_http X) op = Some (k, e, p, ttl) \<and> (p \<longrightarrow> so_local op) \<and>
      prefix k (with_vary (cx_http X) ns h (cache_key_new method route path query)) \<and>
      (ce_vary_headers e = [] \<longrightarrow> k = with_vary (cx_http X) ns h (cache_key_new method route path query)) \<and>
      \<not> (\<exists>cc. cc_from_headers (cx_http X) (so_response_headers op) = Some cc \<and> is_uncacheable cc)) \<and>
    200 \<le> ce_status e \<and> ce_status e < 300 \<and> (\<forall>(n, v) \<in> set (ce_headers e). n \<notin> set HOP_BY_HOP) \<and>
    (\<not> entry_is_expired t2 e \<or> (\<exists>k. l2_get (cx_redis X) (cx_json X) k (rc_l2 c) = Some e))"
  using lookup_hit_origin [OF assms] by (intro conjI) simp_all

lemma sample_lookup:
  "lookup sample_libs 1010 1010 (Some sample_cache_cfg) ''api'' ''GET'' ''/users'' None [] sample_cache =
     Ret (Hit sample_entry, sample_cache)"
proof -
  have k: "cache_key_new ''GET'' ''api'' ''/users'' None = ''stateform:cache:GET:api:/users''" by code_simp
  have m: "to_ascii_uppercase ''GET'' = ''GET''" by code_simp
  have e: "\<not> entry_is_expired 1010 sample_entry" by (simp add: entry_is_expired_nat sample_entry_def)
  have v: "ce_vary_headers sample_entry = []" by (simp add: sample_entry_def)
  have g: "l1_get 1010 ''stateform:cache:GET:api:/users'' (rc_l1 sample_cache) = (Some sample_entry, rc_l1 sample_cache)"
    by (rule l1_get_fresh [OF _ e]) (simp add: sample_cache_def)
  have c: "cc_from_headers (cx_http sample_libs) [] = None" by (simp add: sample_libs_def sample_headers)
  show ?thesis by (simp add: lookup_def lookup_l1_def k m c g v)
qed

theorem cache_hit_provenance_witness:
  "\<exists>op \<in> set [sample_store]. \<exists>k p ttl ns. plan_of (cx_http sample_libs) op = Some (k, sample_entry, p, ttl) \<and>
     k = with_vary (cx_http sample_libs) ns [] (cache_key_new ''GET'' ''api'' ''/users'' None)"
  using cache_hit_provenance [OF sample_laws sample_reach sample_lookup]
  by (fastforce simp: sample_entry_def)

text \<open>The in-process layer is bounded, though not by eviction: a put into a full layer does not return. It never holds more entries than its capacity (one entry when the capacity is zero), whatever
  sequence of stores, lookups and invalidations it goes through.
\<close>

theorem l1_cache_bounded:
  assumes "redis_laws (cx_redis X) later" and "json_laws (cx_json X)" and "first_law (cx_first X)"
    and "cache_reach X later capacity ops c"
  shows "l1_len (rc_l1 c) \<le> max (unat capacity) 1"
  using cache_invD(1,2) [OF cache_reach_inv [OF assms(4,1,2,3)]] by (simp add: l1_inv_def)

theorem l1_cache_bounded_witness: "l1_len (rc_l1 sample_cache) \<le> 2"
  using l1_cache_bounded [OF sample_laws sample_reach] by simp



text \<open>C40: Any other response is not found again: if neither layer holds anything under the request's key, then after the
  response has been stored a lookup of the same resource still misses, because a response without a \<open>Vary\<close>
  header (or with \<open>*\<close>) is not stored at all and one that lists names is stored under the extended key only, while the
  lookup starts from the bare key.
\<close>

theorem varying_response_not_found:
  assumes "redis_laws (cx_redis X) later" and "json_laws (cx_json X)"
    and "parse_vary (cx_http X) rh \<noteq> Some []"
    and "map_of (l1_store (rc_l1 c)) (cache_key_new method route path query) = None"
    and "l2_get (cx_redis X) (cx_json X) (cache_key_new method route path query) (rc_l2 c) = None"
    and "store X now cfg route method path query status rh body qh c = Ret c'"
  shows "\<exists>res c''. lookup X t1 t2 mw route method path query h c' = Ret (res, c'') \<and> res \<in> {Miss, Bypass}"
proof -
  let ?base = "cache_key_new method route path query"
  have "map_of (l1_store (rc_l1 c')) ?base = None \<and> l2_get (cx_redis X) (cx_json X) ?base (rc_l2 c') = None"
  proof (cases "store_plan (cx_http X) now cfg route method path query status rh body qh")
    case None
    with assms(4-6) show ?thesis by (simp add: store_def)
  next
    case (Some pl)
    obtain k e p ttl where pl: "pl = (k, e, p, ttl)" by (cases pl) auto
    obtain ns where "parse_vary (cx_http X) rh = Some ns" "k = with_vary (cx_http X) ns qh ?base"
      using store_plan_Some(5) [OF Some [unfolded pl]] by blast
    with assms(3) have k: "?base \<noteq> k" using with_vary_base_iff by metis
    from assms(6) Some pl have put: "l1_put (cx_first X) k e (rc_l1 c) = Ret (rc_l1 c')"
      and l2: "rc_l2 c' = (if p then rc_l2 c else l2_put (cx_redis X) (cx_json X) k e (as_secs ttl) (rc_l2 c))"
      by (auto simp: store_def Let_def rust_bind_eq)
    have "map_of (l1_store (rc_l1 c')) ?base = None"
      using l1_put_map(2) [OF put, of ?base] k assms(4) by (cases "map_of (l1_store (rc_l1 c')) ?base") auto
    moreover have "l2_get (cx_redis X) (cx_json X) ?base (rc_l2 c') = None"
      using l2_get_put [OF assms(1,2), of ?base k e "as_secs ttl" "rc_l2 c"] k assms(5) l2
      by (cases "l2_get (cx_redis X) (cx_json X) ?base (l2_put (cx_redis X) (cx_json X) k e (as_secs ttl) (rc_l2 c))") auto
    ultimately show ?thesis by blast
  qed
  then show ?thesis
    by (simp add: lookup_def lookup_l1_def l1_get_absent lookup_l2_def Let_def split: option.split)
qed

lemma no_headers_vary: "parse_vary alist_http [] = None"
  by (simp add: parse_vary_def alist_header_str al_get_Nil)

theorem varying_response_not_found_witness:
  "\<exists>c'. store sample_libs 1000 (Some sample_cache_cfg) ''api'' ''GET'' ''/users'' None 200 [] [1] [] empty_cache = Ret c' \<and>
     (\<exists>res c''. lookup sample_libs 1001 1001 (Some sample_cache_cfg) ''api'' ''GET'' ''/users'' None [] c' = Ret (res, c'') \<and>
        res \<in> {Miss, Bypass})"
proof -
  have "store_plan (cx_http sample_libs) 1000 (Some sample_cache_cfg) ''api'' ''GET'' ''/users'' None 200 [] [1] [] = None"
    by (rule store_without_vary) (simp add: sample_libs_def no_headers_vary)
  then obtain c' where s: "store sample_libs 1000 (Some sample_cache_cfg) ''api'' ''GET'' ''/users'' None 200 [] [1] [] empty_cache = Ret c'"
    by (simp add: store_def)
  have v: "parse_vary (cx_http sample_libs) [] \<noteq> Some []" by (simp add: sample_libs_def no_headers_vary)
  have "\<exists>res c''. lookup sample_libs 1001 1001 (Some sample_cache_cfg) ''api'' ''GET'' ''/users'' None [] c' = Ret (res, c'') \<and>
      res \<in> {Miss, Bypass}"
    by (rule varying_response_not_found [OF sample_laws(1,2) v _ _ s])
      (simp_all add: empty_cache_def l1_cache_new_def l2_get_def sample_libs_def map_redis_def)
  with s show ?thesis by blast
qed

text \<open>The key of a varying response is also the bare key of another path: the response stored for \<open>/data\<close> with
  \<open>Vary: accept\<close> and no such header lies under the key that a lookup of \<open>/data:accept=\<close> starts from, and an
  entry found in Redis under the bare key is served even when nothing lies under the extended one.\<close>

lemma cache_key_collision:
  "with_vary alist_http [''accept''] [] (cache_key_new ''GET'' ''api'' ''/data'' None) =
   cache_key_new ''GET'' ''api'' ''/data:accept='' None"
proof -
  have "vary_pairs alist_http [''accept''] [] = [(''accept'', [])]"
    by (simp add: vary_pairs_def alist_header_str al_get_Nil)
  then show ?thesis by (simp add: with_vary_def cache_key_new_def)
qed

lemma lookup_l2_fallback:
  assumes "l2_get R J base r = Some e" and "l2_get R J (with_vary L (ce_vary_headers e) h base) r = None"
  shows "\<exists>k. lookup_l2 L R J base h r = Some (k, e)"
  using assms by (simp add: lookup_l2_def Let_def)

end
