(* ===== verification/Metrics.thy ===== *)
theory Metrics
  imports RateLimit Cache Upstream
begin

text \<open>
  The crate \<open>gateway-metrics\<close>: the metric families that are registered, the calls each recorder method makes on
  them, and the routing of the scrape endpoint.

  The Prometheus client is not modelled: a recorder method is the list of calls it makes, each a family, the label
  values and the action. A call with the wrong number of label values panics there, so what the recorder owes
  the client is that every call fits the family it names (\<open>event_ok\<close>).
\<close>

section \<open>Families\<close>

datatype family_kind = CounterVec | HistogramKind | GaugeKind

record metric_family =
  mf_name :: string
  mf_kind :: family_kind
  mf_labels :: "string list"
  mf_buckets :: "(f64 \<times> f64 \<times> nat) option"

text \<open>The buckets of a histogram are given by the arguments of \<open>exponential_buckets\<close>: the lowest bound, the factor and the
  number of buckets.\<close>

definition latency_buckets :: "f64 \<times> f64 \<times> nat" where
  "latency_buckets = (5 / 10000, 2, 18)"

definition size_buckets :: "f64 \<times> f64 \<times> nat" where
  "size_buckets = (64, 4, 14)"

definition metric_families :: "metric_family list" where
  "metric_families =
     [\<lparr>mf_name = ''stateform_requests_total'', mf_kind = CounterVec, mf_labels = [''route_id'', ''method'', ''status''],
        mf_buckets = None\<rparr>,
      \<lparr>mf_name = ''stateform_request_duration_seconds'', mf_kind = HistogramKind, mf_labels = [''route_id'', ''method''],
        mf_buckets = Some latency_buckets\<rparr>,
      \<lparr>mf_name = ''stateform_request_size_bytes'', mf_kind = HistogramKind, mf_labels = [''route_id''],
        mf_buckets = Some size_buckets\<rparr>,
      \<lparr>mf_name = ''stateform_response_size_bytes'', mf_kind = HistogramKind, mf_labels = [''route_id''],
        mf_buckets = Some size_buckets\<rparr>,
      \<lparr>mf_name = ''stateform_upstream_requests_total'', mf_kind = CounterVec,
        mf_labels = [''route_id'', ''upstream'', ''status''],
        mf_buckets = None\<rparr>,
      \<lparr>mf_name = ''stateform_upstream_duration_seconds'', mf_kind = HistogramKind, mf_labels = [''route_id'', ''upstream''],
        mf_buckets = Some latency_buckets\<rparr>,
      \<lparr>mf_name = ''stateform_rate_limit_denied_total'', mf_kind = CounterVec, mf_labels = [''route_id'', ''layer''],
        mf_buckets = None\<rparr>,
      \<lparr>mf_name = ''stateform_cache_lookups_total'', mf_kind = CounterVec, mf_labels = [''route_id'', ''result''],
        mf_buckets = None\<rparr>,
      \<lparr>mf_name = ''stateform_auth_failures_total'', mf_kind = CounterVec, mf_labels = [''route_id'', ''mechanism''],
        mf_buckets = None\<rparr>,
      \<lparr>mf_name = ''stateform_active_connections'', mf_kind = GaugeKind, mf_labels = [],
        mf_buckets = None\<rparr>,
      \<lparr>mf_name = ''stateform_config_reloads_total'', mf_kind = CounterVec, mf_labels = [''status''],
        mf_buckets = None\<rparr>,
      \<lparr>mf_name = ''stateform_endpoint_health'', mf_kind = GaugeKind, mf_labels = [''upstream'', ''address''],
        mf_buckets = None\<rparr>,
      \<lparr>mf_name = ''stateform_concurrency_rejected_total'', mf_kind = CounterVec, mf_labels = [''route_id'', ''layer''],
        mf_buckets = None\<rparr>]"

datatype metrics_error =
    MePrometheus string
  | MeIo string
  | MeServer string
  | MeBind string string
  | MeRegister string string

text \<open>\<open>Metrics::new\<close>: making each family, then registering each; both may fail (\<open>mk\<close>, \<open>register\<close>).\<close>

fun make_families ::
  "(metric_family \<Rightarrow> string + 'c) \<Rightarrow> metric_family list \<Rightarrow> metrics_error + 'c list" where
  "make_families mk [] = Inr []"
| "make_families mk (f # fs) =
     try_bind (map_err (MeRegister (mf_name f)) (mk f)) (\<lambda>c.
     try_bind (make_families mk fs) (\<lambda>cs. Inr (c # cs)))"

fun register_all :: "('reg \<Rightarrow> 'c \<Rightarrow> string + 'reg) \<Rightarrow> 'reg \<Rightarrow> 'c list \<Rightarrow> metrics_error + 'reg" where
  "register_all register reg [] = Inr reg"
| "register_all register reg (c # cs) =
     try_bind (map_err (MeRegister ''collector'') (register reg c)) (\<lambda>reg'. register_all register reg' cs)"

definition metrics_new ::
  "(metric_family \<Rightarrow> string + 'c) \<Rightarrow> ('reg \<Rightarrow> 'c \<Rightarrow> string + 'reg) \<Rightarrow> 'reg \<Rightarrow> metrics_error + ('reg \<times> 'c list)" where
  "metrics_new mk register registry =
     try_bind (make_families mk metric_families) (\<lambda>cs.
     try_bind (register_all register registry cs) (\<lambda>reg. Inr (reg, cs)))"

section \<open>Recorder\<close>

datatype metric_action = Inc | Dec | Observe f64 | SetTo f64

record metric_event =
  me_family :: string
  me_labels :: "string list"
  me_action :: metric_action

definition event :: "string \<Rightarrow> string list \<Rightarrow> metric_action \<Rightarrow> metric_event" where
  "event f ls a = \<lparr>me_family = f, me_labels = ls, me_action = a\<rparr>"

definition status_class :: "u16 \<Rightarrow> string" where
  "status_class status =
     (if 100 \<le> status \<and> status \<le> 199 then ''1xx''
      else if 200 \<le> status \<and> status \<le> 299 then ''2xx''
      else if 300 \<le> status \<and> status \<le> 399 then ''3xx''
      else if 400 \<le> status \<and> status \<le> 499 then ''4xx''
      else if 500 \<le> status \<and> status \<le> 599 then ''5xx''
      else ''unknown'')"

definition record_request ::
  "string \<Rightarrow> string \<Rightarrow> u16 \<Rightarrow> duration \<Rightarrow> usize \<Rightarrow> usize \<Rightarrow> metric_event list" where
  "record_request route_id method status dur request_bytes response_bytes =
     (let method = to_ascii_uppercase method
      in [event ''stateform_requests_total'' [route_id, method, status_class status] Inc,
          event ''stateform_request_duration_seconds'' [route_id, method] (Observe (as_secs_f64 dur))]
         @ (if 0 < request_bytes
            then [event ''stateform_request_size_bytes'' [route_id] (Observe (u64_as_f64 request_bytes))] else [])
         @ (if 0 < response_bytes
            then [event ''stateform_response_size_bytes'' [route_id] (Observe (u64_as_f64 response_bytes))] else []))"

definition record_upstream :: "string \<Rightarrow> string \<Rightarrow> u16 \<Rightarrow> duration \<Rightarrow> metric_event list" where
  "record_upstream route_id upstream_name status dur =
     [event ''stateform_upstream_requests_total'' [route_id, upstream_name, status_class status] Inc,
      event ''stateform_upstream_duration_seconds'' [route_id, upstream_name] (Observe (as_secs_f64 dur))]"

definition record_rate_limit :: "string \<Rightarrow> rate_limit_outcome \<Rightarrow> metric_event list" where
  "record_rate_limit route_id outcome =
     (if ro_allowed outcome then []
      else
        (let layer = (case ro_denied_by outcome of
               Some L1Local \<Rightarrow> ''l1_local''
             | Some L2Distributed \<Rightarrow> ''l2_distributed''
             | None \<Rightarrow> ''unknown'')
         in [event ''stateform_rate_limit_denied_total'' [route_id, layer] Inc]))"

definition record_cache_lookup :: "string \<Rightarrow> cache_lookup \<Rightarrow> metric_event list" where
  "record_cache_lookup route_id result =
     [event ''stateform_cache_lookups_total''
        [route_id, case result of Hit _ \<Rightarrow> ''hit'' | Miss \<Rightarrow> ''miss'' | Bypass \<Rightarrow> ''bypass''] Inc]"

fun auth_mechanism_label :: "auth_error \<Rightarrow> string" where
  "auth_mechanism_label MissingToken = ''jwt''"
| "auth_mechanism_label (InvalidToken _) = ''jwt''"
| "auth_mechanism_label (JwksFetch _) = ''jwt''"
| "auth_mechanism_label (UnknownKid _) = ''jwt''"
| "auth_mechanism_label MissingApiKey = ''api_key''"
| "auth_mechanism_label InvalidApiKey = ''api_key''"
| "auth_mechanism_label (ApiKeyStore _) = ''api_key''"
| "auth_mechanism_label MissingClientCert = ''mtls''"
| "auth_mechanism_label (InvalidClientCert _) = ''mtls''"
| "auth_mechanism_label NoProviderEnabled = ''none''"
| "auth_mechanism_label (AuthConfigError _) = ''none''"

definition record_auth_failure :: "string \<Rightarrow> auth_error \<Rightarrow> metric_event list" where
  "record_auth_failure route_id err = [event ''stateform_auth_failures_total'' [route_id, auth_mechanism_label err] Inc]"

definition connection_open :: "metric_event list" where
  "connection_open = [event ''stateform_active_connections'' [] Inc]"

definition connection_close :: "metric_event list" where
  "connection_close = [event ''stateform_active_connections'' [] Dec]"

definition record_config_reload_success :: "metric_event list" where
  "record_config_reload_success = [event ''stateform_config_reloads_total'' [''success''] Inc]"

definition record_config_reload_failure :: "metric_event list" where
  "record_config_reload_failure = [event ''stateform_config_reloads_total'' [''failure''] Inc]"

definition record_endpoint_health :: "string \<Rightarrow> string \<Rightarrow> f64 \<Rightarrow> metric_event list" where
  "record_endpoint_health upstream address gauge_value =
     [event ''stateform_endpoint_health'' [upstream, address] (SetTo gauge_value)]"

definition record_concurrency_rejected :: "string \<Rightarrow> string \<Rightarrow> metric_event list" where
  "record_concurrency_rejected route_id layer =
     [event ''stateform_concurrency_rejected_total'' [route_id, layer] Inc]"

text \<open>\<open>RequestTimer\<close>: the observation made when the timer is dropped at \<open>now\<close>.\<close>

record request_timer =
  tmr_route_id :: string
  tmr_method :: string
  tmr_started :: nat

definition timer_start :: "nat \<Rightarrow> string \<Rightarrow> string \<Rightarrow> request_timer" where
  "timer_start now route_id method = \<lparr>tmr_route_id = route_id, tmr_method = method, tmr_started = now\<rparr>"

definition timer_elapsed :: "nat \<Rightarrow> request_timer \<Rightarrow> duration" where
  "timer_elapsed now t = now - tmr_started t"

definition timer_drop :: "nat \<Rightarrow> request_timer \<Rightarrow> metric_event list" where
  "timer_drop now t =
     [event ''stateform_request_duration_seconds'' [tmr_route_id t, tmr_method t] (Observe (as_secs_f64 (timer_elapsed now t)))]"

section \<open>Scrape endpoint\<close>

text \<open>\<open>encode\<close> is the text encoding of the gathered families, \<open>format_type\<close> its content type.\<close>

definition metrics_plain :: "('hm, 'hv, 'u) http_lib \<Rightarrow> u16 \<Rightarrow> (string \<times> string) list \<Rightarrow> bytes \<Rightarrow> 'hm http_response rust" where
  "metrics_plain L status headers body =
     rust_bind (builder_headers L (hm_new L) headers) (\<lambda>h. Ret \<lparr>rs_status = status, rs_headers = h, rs_body = body\<rparr>)"

definition metrics_handle ::
  "('hm, 'hv, 'u) http_lib \<Rightarrow> (string \<Rightarrow> bytes) \<Rightarrow> string + bytes \<Rightarrow> string \<Rightarrow> string \<Rightarrow> string \<Rightarrow> 'hm http_response rust" where
  "metrics_handle L utf8 encoded format_type method path =
     (if method = ''GET'' \<and> path = ''/metrics'' then
        (case encoded of
           Inr buf \<Rightarrow> metrics_plain L 200 [(''content-type'', format_type)] buf
         | Inl e \<Rightarrow> metrics_plain L 500 [] (utf8 ''internal error''))
      else if method = ''GET'' \<and> path = ''/healthz'' then
        metrics_plain L 200 [(''content-type'', ''text/plain'')] (utf8 ''ok'')
      else metrics_plain L 404 [] (utf8 ''not found''))"

section \<open>Calls fit their families\<close>

fun action_fits :: "family_kind \<Rightarrow> metric_action \<Rightarrow> bool" where
  "action_fits CounterVec a = (a = Inc)"
| "action_fits HistogramKind a = (case a of Observe _ \<Rightarrow> True | _ \<Rightarrow> False)"
| "action_fits GaugeKind a = (case a of Observe _ \<Rightarrow> False | _ \<Rightarrow> True)"

definition event_ok :: "metric_event \<Rightarrow> bool" where
  "event_ok ev \<longleftrightarrow>
     (case List.find (\<lambda>f. mf_name f = me_family ev) metric_families of
        None \<Rightarrow> False
      | Some f \<Rightarrow> length (me_labels ev) = length (mf_labels f) \<and> action_fits (mf_kind f) (me_action ev))"

lemma metric_names_distinct: "distinct (map mf_name metric_families)"
  by (simp add: metric_families_def)

named_theorems metric_ok \<open>the calls of the recorder fit their families\<close>

lemma event_families [metric_ok]:
  "event_ok (event ''stateform_requests_total'' [a, b, c] Inc)"
  "event_ok (event ''stateform_request_duration_seconds'' [a, b] (Observe x))"
  "event_ok (event ''stateform_request_size_bytes'' [a] (Observe x))"
  "event_ok (event ''stateform_response_size_bytes'' [a] (Observe x))"
  "event_ok (event ''stateform_upstream_requests_total'' [a, b, c] Inc)"
  "event_ok (event ''stateform_upstream_duration_seconds'' [a, b] (Observe x))"
  "event_ok (event ''stateform_rate_limit_denied_total'' [a, b] Inc)"
  "event_ok (event ''stateform_cache_lookups_total'' [a, b] Inc)"
  "event_ok (event ''stateform_auth_failures_total'' [a, b] Inc)"
  "event_ok (event ''stateform_active_connections'' [] Inc)"
  "event_ok (event ''stateform_active_connections'' [] Dec)"
  "event_ok (event ''stateform_config_reloads_total'' [a] Inc)"
  "event_ok (event ''stateform_endpoint_health'' [a, b] (SetTo x))"
  "event_ok (event ''stateform_concurrency_rejected_total'' [a, b] Inc)"
  by (simp_all add: event_ok_def event_def metric_families_def)

lemma recorder_ok [metric_ok]:
  "list_all event_ok (record_request r m s d x y)"
  "list_all event_ok (record_upstream r u s d)"
  "list_all event_ok (record_rate_limit r out)"
  "list_all event_ok (record_cache_lookup r res)"
  "list_all event_ok (record_auth_failure r err)"
  "list_all event_ok connection_open" "list_all event_ok connection_close"
  "list_all event_ok record_config_reload_success" "list_all event_ok record_config_reload_failure"
  "list_all event_ok (record_endpoint_health u a g)"
  "list_all event_ok (record_concurrency_rejected r l)"
  "list_all event_ok (timer_drop now t)"
  by (simp_all add: record_request_def record_upstream_def record_rate_limit_def record_cache_lookup_def
      record_auth_failure_def connection_open_def connection_close_def record_config_reload_success_def
      record_config_reload_failure_def record_endpoint_health_def record_concurrency_rejected_def timer_drop_def
      Let_def metric_ok)

text \<open>The class of a status is its hundreds digit.\<close>

lemma status_class_hundreds:
  assumes "100 \<le> s" and "s < 600"
  shows "status_class s = nat_to_string (unat s div 100) @ ''xx''"
proof -
  have s: "100 \<le> unat s" "unat s < 600" using assms by (simp_all add: word_le_nat_alt word_less_nat_alt)
  have d: "nat_to_string 1 = ''1''" "nat_to_string 2 = ''2''" "nat_to_string 3 = ''3''" "nat_to_string 4 = ''4''"
    "nat_to_string 5 = ''5''" by code_simp+
  consider "unat s div 100 = 1" | "unat s div 100 = 2" | "unat s div 100 = 3" | "unat s div 100 = 4" | "unat s div 100 = 5"
    using s by linarith
  then show ?thesis
  proof cases
    case 1
    then have "100 \<le> unat s" "unat s \<le> 199" using s by linarith+
    with 1 d show ?thesis by (simp add: status_class_def word_le_nat_alt)
  next
    case 2
    then have "200 \<le> unat s" "unat s \<le> 299" using s by linarith+
    with 2 d show ?thesis by (simp add: status_class_def word_le_nat_alt)
  next
    case 3
    then have "300 \<le> unat s" "unat s \<le> 399" using s by linarith+
    with 3 d show ?thesis by (simp add: status_class_def word_le_nat_alt)
  next
    case 4
    then have "400 \<le> unat s" "unat s \<le> 499" using s by linarith+
    with 4 d show ?thesis by (simp add: status_class_def word_le_nat_alt)
  next
    case 5
    then have "500 \<le> unat s" "unat s \<le> 599" using s by linarith+
    with 5 d show ?thesis by (simp add: status_class_def word_le_nat_alt)
  qed
qed

end
