(* ===== verification/Pipeline.thy ===== *)
theory Pipeline
  imports Router Concurrency Metrics
begin

text \<open>
  The request pipeline (\<open>gateway-core/src/pipeline.rs\<close>): how one request passes the router, the concurrency gate,
  authentication, rate limiting, the cache and the upstream pool, and which response it gets on every path.

  The shared state is the record \<open>gateway_state\<close>. Everything one request meets from outside is the record
  \<open>request_env\<close>: the libraries, the outcomes of its waits, the clock readings, the answers of Redis, of the key
  endpoint and of the upstream, and \<open>pe_others n\<close>, what other requests do to the shared state while this one is
  suspended for the \<open>n\<close>-th time. The result is the response, the effects (metric calls and the requests
  that were put on the wire, as the pool reports them) in order, and the state.
\<close>

section \<open>State and surroundings\<close>

record ('re, 'sem, 'r) gateway_state =
  gs_router :: "'re router_handle"
  gs_keys :: "key_cache option"
  gs_ratelimit :: rate_limiter
  gs_cache :: "'r response_cache"
  gs_upstreams :: upstream_registry
  gs_concurrency :: "'sem concurrency_limiter"

record ('hm, 'hv, 'u, 're, 'cap, 'key, 'j, 'sem, 'r) request_env =
  pe_libs :: "('hm, 'hv, 'u, 'r) cache_libs"
  pe_regex :: "('re, 'cap) regex_lib"
  pe_sem :: "'sem semaphore_lib"
  pe_json_error :: "string \<Rightarrow> bytes"
  pe_auth :: "('key, 'j) auth_env"
  pe_auth_config :: auth_config
  pe_cert :: "bytes option"
  pe_uuid :: string
  pe_wait_global :: wait_outcome
  pe_wait_route :: wait_outcome
  pe_rl_times :: rl_times
  pe_script :: l2_env
  pe_cache_t1 :: u64
  pe_cache_t2 :: u64
  pe_age_now :: u64
  pe_store_now :: u64
  pe_client :: "('hm, 'u) http_client"
  pe_nanos :: "nat \<Rightarrow> u64"
  pe_upstream_elapsed :: duration
  pe_pool_others :: "upstream_pool \<Rightarrow> upstream_pool"
  pe_total_elapsed :: duration
  pe_others :: "nat \<Rightarrow> ('re, 'sem, 'r) gateway_state \<Rightarrow> ('re, 'sem, 'r) gateway_state"

abbreviation pe_http :: "('hm, 'hv, 'u, 're, 'cap, 'key, 'j, 'sem, 'r) request_env \<Rightarrow> ('hm, 'hv, 'u) http_lib" where
  "pe_http E \<equiv> cx_http (pe_libs E)"

datatype ('hm, 'u) effect =
    Metric metric_event
  | Sent "('hm, 'u) http_request"

type_synonym ('hm, 'u, 're, 'sem, 'r) handled =
  "('hm http_response \<times> ('hm, 'u) effect list \<times> ('re, 'sem, 'r) gateway_state) rust"

section \<open>Responses\<close>

definition inject_request_id :: "('hm, 'hv, 'u) http_lib \<Rightarrow> string \<Rightarrow> 'hm \<Rightarrow> 'hm" where
  "inject_request_id L request_id headers =
     (if \<not> hm_contains_key L headers ''x-request-id'' then
        (case hv_from_str L request_id of
           Some val \<Rightarrow> hm_insert L headers ''x-request-id'' val
         | None \<Rightarrow> headers)
      else headers)"

definition error_response ::
  "('hm, 'hv, 'u) http_lib \<Rightarrow> (string \<Rightarrow> bytes) \<Rightarrow> u16 \<Rightarrow> string \<Rightarrow> string \<Rightarrow> 'hm http_response rust" where
  "error_response L json_error status message request_id =
     rust_bind (builder_headers L (hm_new L) [(''content-type'', ''application/json'')]) (\<lambda>h.
       Ret \<lparr>rs_status = status, rs_headers = inject_request_id L request_id h, rs_body = json_error message\<rparr>)"

text \<open>A status code has three digits; the builder turns any other into an error, which \<open>unwrap\<close> makes a panic.\<close>

definition valid_status :: "u16 \<Rightarrow> bool" where
  "valid_status s \<longleftrightarrow> 100 \<le> s \<and> s < 1000"

definition append_parsed :: "('hm, 'hv, 'u) http_lib \<Rightarrow> 'hm \<Rightarrow> string \<times> string \<Rightarrow> 'hm" where
  "append_parsed L h kv =
     (case (hn_from_bytes L (fst kv), hv_from_str L (snd kv)) of
        (Some name, Some val) \<Rightarrow> hm_append L h name val
      | _ \<Rightarrow> h)"

definition build_cached_response ::
  "('hm, 'hv, 'u) http_lib \<Rightarrow> u64 \<Rightarrow> cached_response \<Rightarrow> 'hm http_response rust" where
  "build_cached_response L now cached =
     (if \<not> valid_status (ce_status cached) then Panic
      else rust_bind (builder_headers L (hm_new L) [(''X-Cache'', ''HIT''), (''Age'', age_header now cached)]) (\<lambda>h.
        Ret \<lparr>rs_status = ce_status cached, rs_headers = foldl (append_parsed L) h (ce_headers cached),
             rs_body = ce_body cached\<rparr>))"

text \<open>\<open>HeaderValue::from_static\<close> panics on a string that is no value.\<close>

definition build_upstream_response ::
  "('hm, 'hv, 'u) http_lib \<Rightarrow> header_mutations \<Rightarrow> 'hm http_response \<Rightarrow> 'hm http_response rust" where
  "build_upstream_response L mutations resp =
     (let h = foldl (insert_parsed L) (rs_headers resp) (hdm_response_set mutations)
      in case hv_from_str L ''MISS'' of
           None \<Rightarrow> Panic
         | Some v \<Rightarrow> Ret (resp\<lparr>rs_headers := hm_insert L h ''X-Cache'' v\<rparr>))"

definition apply_request_mutations ::
  "('hm, 'hv, 'u) http_lib \<Rightarrow> header_mutations \<Rightarrow> ('hm, 'u) http_request \<Rightarrow> ('hm, 'u) http_request" where
  "apply_request_mutations L mutations req =
     (let h = foldl (hm_remove L) (rq_headers req) (hdm_request_remove mutations);
          h = foldl (insert_parsed L) h (hdm_request_set mutations)
      in req\<lparr>rq_headers := h\<rparr>)"

section \<open>Errors as text\<close>

fun config_error_display :: "config_error \<Rightarrow> string" where
  "config_error_display (Io m) = ''io error: '' @ m"
| "config_error_display (Parse m) = ''yaml parse error: '' @ m"
| "config_error_display (Validation m) = ''validation error: '' @ m"

fun core_error_display :: "core_error \<Rightarrow> string" where
  "core_error_display (CoreIo m) = ''io error: '' @ m"
| "core_error_display (CoreTls m) = ''tls error: '' @ m"
| "core_error_display (UpstreamError u m) = ''upstream error at '' @ u @ '': '' @ m"
| "core_error_display (UpstreamTimeout secs) = ''upstream timed out after '' @ u64_to_string secs @ ''s''"
| "core_error_display (NoHealthyEndpoints n) = ''no healthy endpoints for upstream '' @ quoted n"
| "core_error_display (BindError a m) = ''failed to bind listener on '' @ a @ '': '' @ m"
| "core_error_display (HyperError m) = ''hyper error: '' @ m"
| "core_error_display (HttpError m) = ''http error: '' @ m"
| "core_error_display (CoreMetrics m) = ''metrics error: '' @ m"
| "core_error_display (CoreConfig e) = ''config error: '' @ config_error_display e"
| "core_error_display DrainTimeout = ''shutdown timeout: in-flight requests did not drain in time''"
| "core_error_display (BodyTooLarge n) = ''request body too large: exceeded '' @ u64_to_string n @ '' byte limit''"
| "core_error_display (ConcurrencyLimitExceeded r) = ''concurrency limit exceeded for route '' @ quoted r"

section \<open>Handling a request\<close>

definition request_id_of :: "('hm, 'hv, 'u, 're, 'cap, 'key, 'j, 'sem, 'r) request_env \<Rightarrow> 'hm \<Rightarrow> string" where
  "request_id_of E headers =
     (case header_str (pe_http E) headers ''x-request-id'' of Some i \<Rightarrow> i | None \<Rightarrow> pe_uuid E)"

definition fail ::
  "('hm, 'hv, 'u, 're, 'cap, 'key, 'j, 'sem, 'r) request_env \<Rightarrow> u16 \<Rightarrow> string \<Rightarrow> string \<Rightarrow> ('hm, 'u) effect list \<Rightarrow>
   ('re, 'sem, 'r) gateway_state \<Rightarrow> ('hm, 'u, 're, 'sem, 'r) handled" where
  "fail E status message request_id effects st =
     rust_bind (error_response (pe_http E) (pe_json_error E) status message request_id) (\<lambda>r. Ret (r, effects, st))"

definition hash_key_of ::
  "('hm, 'hv, 'u) http_lib \<Rightarrow> route_config \<Rightarrow> upstream_pool \<Rightarrow> 'hm \<Rightarrow> string option" where
  "hash_key_of L route upstream headers =
     (case (case rt_load_balancing route of Some lb \<Rightarrow> lb | None \<Rightarrow> uc_load_balancing (up_config upstream)) of
        ConsistentHashing hash_header _ \<Rightarrow> header_str L headers hash_header
      | _ \<Rightarrow> None)"

text \<open>Steps 5 to 7: proxying, storing, recording.\<close>

definition proxy ::
  "('hm, 'hv, 'u, 're, 'cap, 'key, 'j, 'sem, 'r) request_env \<Rightarrow> string \<Rightarrow> matched_route \<Rightarrow> ('hm, 'u) http_request \<Rightarrow>
   ('hm, 'u) effect list \<Rightarrow> ('re, 'sem, 'r) gateway_state \<Rightarrow> ('hm, 'u, 're, 'sem, 'r) handled" where
  "proxy E request_id matched req effects st =
     (let L = pe_http E; route = mr_route matched; route_id = mr_route_id matched; upstream_name = mr_upstream matched;
          method = rq_method req; path = uri_path L (rq_uri req); query = uri_query L (rq_uri req)
      in case registry_get (gs_upstreams st) upstream_name of
           None \<Rightarrow> fail E 502 ''upstream not configured'' request_id effects st
         | Some upstream \<Rightarrow>
             (let hash_key = hash_key_of L route upstream (rq_headers req);
                  upstream_req = apply_request_mutations L (rt_headers route) req
              in rust_bind (send L (pe_client E) (pe_nanos E) (pe_upstream_elapsed E) (pe_pool_others E) upstream
                     upstream_req hash_key) (\<lambda>(upstream_result, attempts, upstream').
                   let effects = effects @ map Sent attempts;
                       st = pe_others E 5
                         (st\<lparr>gs_upstreams := \<lparr>ur_pools = AList.update upstream_name upstream' (ur_pools (gs_upstreams st))\<rparr>\<rparr>)
                   in case upstream_result of
                        Inl e \<Rightarrow>
                          fail E (case e of UpstreamTimeout _ \<Rightarrow> 504 | _ \<Rightarrow> 502) (core_error_display e) request_id effects st
                      | Inr (upstream_resp, upstream_duration) \<Rightarrow>
                          (let status = rs_status upstream_resp;
                               effects = effects @ map Metric (record_upstream route_id upstream_name status upstream_duration)
                           in rust_bind (store (pe_libs E) (pe_store_now E) (mw_cache (rt_middleware route)) route_id method path
                                  query status (rs_headers upstream_resp) (rs_body upstream_resp) (rs_headers upstream_resp)
                                  (gs_cache st)) (\<lambda>cache.
                                let st = pe_others E 6 (st\<lparr>gs_cache := cache\<rparr>);
                                    effects = effects @ map Metric (record_request route_id method status (pe_total_elapsed E)
                                      (word_of_nat (length (rq_body req))) (word_of_nat (length (rs_body upstream_resp))))
                                in rust_bind (build_upstream_response L (rt_headers route) upstream_resp) (\<lambda>resp.
                                     Ret (resp\<lparr>rs_headers := inject_request_id L request_id (rs_headers resp)\<rparr>, effects, st)))))))"

text \<open>Steps 2 to 4: authentication, rate limit, cache lookup.\<close>

definition rl_fail_open :: rate_limit_outcome where
  "rl_fail_open =
     \<lparr>ro_allowed = True, ro_remaining = 0, ro_limit = 0, ro_retry_after_ms = 0, ro_denied_by = None\<rparr>"

definition after_auth ::
  "('hm, 'hv, 'u, 're, 'cap, 'key, 'j, 'sem, 'r) request_env \<Rightarrow> string \<Rightarrow> matched_route \<Rightarrow> ('hm, 'u) http_request \<Rightarrow>
   'j auth_context option \<Rightarrow> ('re, 'sem, 'r) gateway_state \<Rightarrow> ('hm, 'u, 're, 'sem, 'r) handled" where
  "after_auth E request_id matched req auth_ctx st =
     (let L = pe_http E; route = mr_route matched; route_id = mr_route_id matched;
          (checked, rl) = rate_limit_check L (pe_rl_times E) (pe_script E) (mw_rate_limit (rt_middleware route)) route_id
             auth_ctx (rq_headers req) (gs_ratelimit st);
          st = pe_others E 3 (st\<lparr>gs_ratelimit := rl\<rparr>);
          rl_outcome = (case checked of Inr out \<Rightarrow> out | Inl e \<Rightarrow> rl_fail_open);
          effects = map Metric (record_rate_limit route_id rl_outcome)
      in if \<not> ro_allowed rl_outcome then
           rust_bind (error_response L (pe_json_error E) 429 ''rate limit exceeded'' request_id) (\<lambda>resp.
             Ret (resp\<lparr>rs_headers := foldl (insert_parsed L) (rs_headers resp) (to_headers rl_outcome)\<rparr>, effects, st))
         else
           rust_bind (lookup (pe_libs E) (pe_cache_t1 E) (pe_cache_t2 E) (mw_cache (rt_middleware route)) route_id
               (rq_method req) (uri_path L (rq_uri req)) (uri_query L (rq_uri req)) (rq_headers req) (gs_cache st))
             (\<lambda>(cache_lookup, cache).
            let st = pe_others E 4 (st\<lparr>gs_cache := cache\<rparr>);
                effects = effects @ map Metric (record_cache_lookup route_id cache_lookup)
            in case cache_lookup of
                 Hit cached \<Rightarrow>
                   rust_bind (build_cached_response L (pe_age_now E) cached) (\<lambda>resp.
                     Ret (resp\<lparr>rs_headers := inject_request_id L request_id (rs_headers resp)\<rparr>, effects, st))
               | _ \<Rightarrow> proxy E request_id matched req effects st))"

definition admitted ::
  "('hm, 'hv, 'u, 're, 'cap, 'key, 'j, 'sem, 'r) request_env \<Rightarrow> string \<Rightarrow> matched_route \<Rightarrow> ('hm, 'u) http_request \<Rightarrow>
   ('re, 'sem, 'r) gateway_state \<Rightarrow> ('hm, 'u, 're, 'sem, 'r) handled" where
  "admitted E request_id matched req st =
     (let route_id = mr_route_id matched;
          (result, keys) = auth_pipeline_run (pe_http E) (pe_auth E) (pe_auth_config E)
             (mw_auth (rt_middleware (mr_route matched))) (rq_headers req) (pe_cert E) (gs_keys st);
          st = pe_others E 2 (st\<lparr>gs_keys := keys\<rparr>)
      in case result of
           Inl e \<Rightarrow>
             fail E (if valid_status (auth_status_code e) then auth_status_code e else 401) (auth_error_display e) request_id
               (map Metric (record_auth_failure route_id e)) st
         | Inr auth_ctx \<Rightarrow> after_auth E request_id matched req auth_ctx st)"

text \<open>The whole of \<open>handle\<close>. The permit is dropped when the function returns.\<close>

definition drop_permit ::
  "('hm, 'hv, 'u, 're, 'cap, 'key, 'j, 'sem, 'r) request_env \<Rightarrow> concurrency_permit \<Rightarrow>
   'hm http_response \<times> ('hm, 'u) effect list \<times> ('re, 'sem, 'r) gateway_state \<Rightarrow> ('hm, 'u, 're, 'sem, 'r) handled" where
  "drop_permit E permit = (\<lambda>(resp, effects, st).
     Ret (resp, effects, st\<lparr>gs_concurrency := permit_drop (pe_sem E) permit (gs_concurrency st)\<rparr>))"

definition handle ::
  "('hm, 'hv, 'u, 're, 'cap, 'key, 'j, 'sem, 'r) request_env \<Rightarrow> ('re, 'sem, 'r) gateway_state \<Rightarrow> ('hm, 'u) http_request \<Rightarrow>
   ('hm, 'u, 're, 'sem, 'r) handled" where
  "handle E st req =
     (let L = pe_http E; request_id = request_id_of E (rq_headers req)
      in case match_request L (pe_regex E) (router_current (gs_router st)) (uri_path L (rq_uri req)) (rq_method req)
                (rq_headers req) of
           Inl _ \<Rightarrow> fail E 404 ''no route matched'' request_id [] st
         | Inr matched \<Rightarrow>
             (let route_id = mr_route_id matched;
                  (acquired, limiter) = acquire (pe_sem E) (pe_wait_global E)
                     (\<lambda>l. gs_concurrency (pe_others E 0 (st\<lparr>gs_concurrency := l\<rparr>))) (pe_wait_route E) (gs_concurrency st) route_id;
                  st = pe_others E 1 (st\<lparr>gs_concurrency := limiter\<rparr>)
              in case acquired of
                   Inl msg \<Rightarrow>
                     rust_bind (service_unavailable L (pe_json_error E) msg) (\<lambda>resp.
                       Ret (resp, map Metric (record_concurrency_rejected route_id ''limit''), st))
                 | Inr permit \<Rightarrow> rust_bind (admitted E request_id matched req st) (drop_permit E permit)))"

section \<open>Stages\<close>

text \<open>What a request asks at each stage and the state it finds there, each stage on the state the stage before left and
  others changed. \<open>at_check\<close>, \<open>at_lookup\<close> and \<open>at_proxy\<close> are the requests that get as far as the rate limiter, the cache
  and the upstream: the route was matched, the gate granted a permit, the authentication of the route succeeded, the
  rate limiter allowed the request or failed open, and the cache had no answer.\<close>

abbreviation routed ::
  "('hm, 'hv, 'u, 're, 'cap, 'key, 'j, 'sem, 'r) request_env \<Rightarrow> ('re, 'sem, 'r) gateway_state \<Rightarrow> ('hm, 'u) http_request \<Rightarrow>
   router_error + matched_route" where
  "routed E st req \<equiv> match_request (pe_http E) (pe_regex E) (router_current (gs_router st)) (uri_path (pe_http E) (rq_uri req))
     (rq_method req) (rq_headers req)"

abbreviation acquired ::
  "('hm, 'hv, 'u, 're, 'cap, 'key, 'j, 'sem, 'r) request_env \<Rightarrow> matched_route \<Rightarrow> ('re, 'sem, 'r) gateway_state \<Rightarrow>
   (string + concurrency_permit) \<times> 'sem concurrency_limiter" where
  "acquired E m st \<equiv> acquire (pe_sem E) (pe_wait_global E) (\<lambda>l. gs_concurrency (pe_others E 0 (st\<lparr>gs_concurrency := l\<rparr>)))
     (pe_wait_route E) (gs_concurrency st) (mr_route_id m)"

abbreviation request_auth ::
  "('hm, 'hv, 'u, 're, 'cap, 'key, 'j, 'sem, 'r) request_env \<Rightarrow> ('hm, 'u) http_request \<Rightarrow> matched_route \<Rightarrow>
   key_cache option \<Rightarrow> (auth_error + 'j auth_context option) \<times> key_cache option" where
  "request_auth E req m keys \<equiv> auth_pipeline_run (pe_http E) (pe_auth E) (pe_auth_config E)
     (mw_auth (rt_middleware (mr_route m))) (rq_headers req) (pe_cert E) keys"

abbreviation request_check ::
  "('hm, 'hv, 'u, 're, 'cap, 'key, 'j, 'sem, 'r) request_env \<Rightarrow> ('hm, 'u) http_request \<Rightarrow> matched_route \<Rightarrow>
   'j auth_context option \<Rightarrow> rate_limiter \<Rightarrow> (rate_limit_error + rate_limit_outcome) \<times> rate_limiter" where
  "request_check E req m ctx rl \<equiv> rate_limit_check (pe_http E) (pe_rl_times E) (pe_script E)
     (mw_rate_limit (rt_middleware (mr_route m))) (mr_route_id m) ctx (rq_headers req) rl"

abbreviation request_lookup ::
  "('hm, 'hv, 'u, 're, 'cap, 'key, 'j, 'sem, 'r) request_env \<Rightarrow> ('hm, 'u) http_request \<Rightarrow> matched_route \<Rightarrow>
   'r response_cache \<Rightarrow> (cache_lookup \<times> 'r response_cache) rust" where
  "request_lookup E req m c \<equiv> lookup (pe_libs E) (pe_cache_t1 E) (pe_cache_t2 E) (mw_cache (rt_middleware (mr_route m)))
     (mr_route_id m) (rq_method req) (uri_path (pe_http E) (rq_uri req)) (uri_query (pe_http E) (rq_uri req)) (rq_headers req) c"

abbreviation request_send ::
  "('hm, 'hv, 'u, 're, 'cap, 'key, 'j, 'sem, 'r) request_env \<Rightarrow> ('hm, 'u) http_request \<Rightarrow> matched_route \<Rightarrow> upstream_pool \<Rightarrow>
   ((core_error + ('hm http_response \<times> duration)) \<times> ('hm, 'u) http_request list \<times> upstream_pool) rust" where
  "request_send E req m pool \<equiv> send (pe_http E) (pe_client E) (pe_nanos E) (pe_upstream_elapsed E) (pe_pool_others E) pool
     (apply_request_mutations (pe_http E) (rt_headers (mr_route m)) req)
     (hash_key_of (pe_http E) (mr_route m) pool (rq_headers req))"

abbreviation request_store ::
  "('hm, 'hv, 'u, 're, 'cap, 'key, 'j, 'sem, 'r) request_env \<Rightarrow> ('hm, 'u) http_request \<Rightarrow> matched_route \<Rightarrow>
   'hm http_response \<Rightarrow> 'r response_cache \<Rightarrow> 'r response_cache rust" where
  "request_store E req m r c \<equiv> store (pe_libs E) (pe_store_now E) (mw_cache (rt_middleware (mr_route m))) (mr_route_id m)
     (rq_method req) (uri_path (pe_http E) (rq_uri req)) (uri_query (pe_http E) (rq_uri req)) (rs_status r) (rs_headers r)
     (rs_body r) (rs_headers r) c"

definition at_check ::
  "('hm, 'hv, 'u, 're, 'cap, 'key, 'j, 'sem, 'r) request_env \<Rightarrow> ('re, 'sem, 'r) gateway_state \<Rightarrow> ('hm, 'u) http_request \<Rightarrow>
   (matched_route \<times> 'j auth_context option \<times> ('re, 'sem, 'r) gateway_state) option" where
  "at_check E st req =
     (case routed E st req of
        Inl _ \<Rightarrow> None
      | Inr m \<Rightarrow>
          (case acquired E m st of
             (Inl _, _) \<Rightarrow> None
           | (Inr _, l) \<Rightarrow>
               (let st1 = pe_others E 1 (st\<lparr>gs_concurrency := l\<rparr>)
                in case request_auth E req m (gs_keys st1) of
                     (Inl _, _) \<Rightarrow> None
                   | (Inr ctx, keys) \<Rightarrow> Some (m, ctx, pe_others E 2 (st1\<lparr>gs_keys := keys\<rparr>)))))"

definition at_lookup ::
  "('hm, 'hv, 'u, 're, 'cap, 'key, 'j, 'sem, 'r) request_env \<Rightarrow> ('re, 'sem, 'r) gateway_state \<Rightarrow> ('hm, 'u) http_request \<Rightarrow>
   (matched_route \<times> ('re, 'sem, 'r) gateway_state) option" where
  "at_lookup E st req =
     (case at_check E st req of
        None \<Rightarrow> None
      | Some (m, ctx, st2) \<Rightarrow>
          (case request_check E req m ctx (gs_ratelimit st2) of
             (Inl _, rl) \<Rightarrow> Some (m, pe_others E 3 (st2\<lparr>gs_ratelimit := rl\<rparr>))
           | (Inr out, rl) \<Rightarrow> (if ro_allowed out then Some (m, pe_others E 3 (st2\<lparr>gs_ratelimit := rl\<rparr>)) else None)))"

definition at_proxy ::
  "('hm, 'hv, 'u, 're, 'cap, 'key, 'j, 'sem, 'r) request_env \<Rightarrow> ('re, 'sem, 'r) gateway_state \<Rightarrow> ('hm, 'u) http_request \<Rightarrow>
   (matched_route \<times> ('re, 'sem, 'r) gateway_state) option" where
  "at_proxy E st req =
     (case at_lookup E st req of
        None \<Rightarrow> None
      | Some (m, st3) \<Rightarrow>
          (case request_lookup E req m (gs_cache st3) of
             Ret (Hit _, _) \<Rightarrow> None
           | Ret (_, cache) \<Rightarrow> Some (m, pe_others E 4 (st3\<lparr>gs_cache := cache\<rparr>))
           | _ \<Rightarrow> None))"

text \<open>The state after the call of the pool.\<close>

definition after_send ::
  "('hm, 'hv, 'u, 're, 'cap, 'key, 'j, 'sem, 'r) request_env \<Rightarrow> string \<Rightarrow> upstream_pool \<Rightarrow> ('re, 'sem, 'r) gateway_state \<Rightarrow>
   ('re, 'sem, 'r) gateway_state" where
  "after_send E n pool st = pe_others E 5 (st\<lparr>gs_upstreams := \<lparr>ur_pools = AList.update n pool (ur_pools (gs_upstreams st))\<rparr>\<rparr>)"

lemma at_proxy_lookup:
  assumes "at_proxy E st req = Some (m, st4)"
  obtains st3 look cache where "at_lookup E st req = Some (m, st3)" "request_lookup E req m (gs_cache st3) = Ret (look, cache)"
    "\<forall>e. look \<noteq> Hit e" "st4 = pe_others E 4 (st3\<lparr>gs_cache := cache\<rparr>)"
  using assms by (auto simp: at_proxy_def split: option.splits rust.splits cache_lookup.splits)

lemma at_lookup_check:
  assumes "at_lookup E st req = Some (m, st3)"
  obtains ctx st2 r rl where "at_check E st req = Some (m, ctx, st2)" "request_check E req m ctx (gs_ratelimit st2) = (r, rl)"
    "\<And>out. r = Inr out \<Longrightarrow> ro_allowed out" "st3 = pe_others E 3 (st2\<lparr>gs_ratelimit := rl\<rparr>)"
  using assms by (auto simp: at_lookup_def split: option.splits sum.splits prod.splits if_splits)

lemma at_check_gate:
  assumes "at_check E st req = Some (m, ctx, st2)"
  obtains permit l keys where "routed E st req = Inr m" "acquired E m st = (Inr permit, l)"
    "request_auth E req m (gs_keys (pe_others E 1 (st\<lparr>gs_concurrency := l\<rparr>))) = (Inr ctx, keys)"
    "st2 = pe_others E 2 ((pe_others E 1 (st\<lparr>gs_concurrency := l\<rparr>))\<lparr>gs_keys := keys\<rparr>)"
  using assms by (auto simp: at_check_def Let_def split: sum.splits prod.splits)

lemma stage_routed:
  "at_check E st req = Some (m, ctx, st2) \<Longrightarrow> routed E st req = Inr m"
  "at_lookup E st req = Some (m, st3) \<Longrightarrow> routed E st req = Inr m"
  "at_proxy E st req = Some (m, st4) \<Longrightarrow> routed E st req = Inr m"
  by (blast elim: at_check_gate at_lookup_check at_proxy_lookup)+

section \<open>How a request ends\<close>

abbreviation metrics_ok :: "('hm, 'u) effect list \<Rightarrow> bool" where
  "metrics_ok effs \<equiv> \<exists>evs. effs = map Metric evs \<and> list_all event_ok evs"

lemma handle_cases:
  fixes E st req defines "i \<equiv> request_id_of E (rq_headers req)"
  obtains
    (unrouted) e where "routed E st req = Inl e" "handle E st req = fail E 404 ''no route matched'' i [] st"
  | (refused) m msg l where "routed E st req = Inr m" "acquired E m st = (Inl msg, l)"
      "handle E st req = rust_bind (service_unavailable (pe_http E) (pe_json_error E) msg) (\<lambda>resp.
         Ret (resp, map Metric (record_concurrency_rejected (mr_route_id m) ''limit''), pe_others E 1 (st\<lparr>gs_concurrency := l\<rparr>)))"
  | (unauthenticated) m permit l e keys where "routed E st req = Inr m" "acquired E m st = (Inr permit, l)"
      "request_auth E req m (gs_keys (pe_others E 1 (st\<lparr>gs_concurrency := l\<rparr>))) = (Inl e, keys)"
      "handle E st req = rust_bind
         (fail E (if valid_status (auth_status_code e) then auth_status_code e else 401) (auth_error_display e) i
            (map Metric (record_auth_failure (mr_route_id m) e))
            (pe_others E 2 ((pe_others E 1 (st\<lparr>gs_concurrency := l\<rparr>))\<lparr>gs_keys := keys\<rparr>))) (drop_permit E permit)"
  | (limited) m ctx st2 permit l out rl where "at_check E st req = Some (m, ctx, st2)" "acquired E m st = (Inr permit, l)"
      "request_check E req m ctx (gs_ratelimit st2) = (Inr out, rl)" "\<not> ro_allowed out"
      "handle E st req = rust_bind (rust_bind (error_response (pe_http E) (pe_json_error E) 429 ''rate limit exceeded'' i) (\<lambda>resp.
         Ret (resp\<lparr>rs_headers := foldl (insert_parsed (pe_http E)) (rs_headers resp) (to_headers out)\<rparr>,
           map Metric (record_rate_limit (mr_route_id m) out), pe_others E 3 (st2\<lparr>gs_ratelimit := rl\<rparr>)))) (drop_permit E permit)"
  | (look_hung) m st3 where "at_lookup E st req = Some (m, st3)" "request_lookup E req m (gs_cache st3) = Hang"
      "handle E st req = Hang"
  | (cached) m st3 permit l e cache effs where "at_lookup E st req = Some (m, st3)" "acquired E m st = (Inr permit, l)"
      "request_lookup E req m (gs_cache st3) = Ret (Hit e, cache)" "metrics_ok effs"
      "handle E st req = rust_bind (rust_bind (build_cached_response (pe_http E) (pe_age_now E) e) (\<lambda>resp.
         Ret (resp\<lparr>rs_headers := inject_request_id (pe_http E) i (rs_headers resp)\<rparr>, effs,
           pe_others E 4 (st3\<lparr>gs_cache := cache\<rparr>)))) (drop_permit E permit)"
  | (proxied) m st4 permit l effs where "at_proxy E st req = Some (m, st4)" "acquired E m st = (Inr permit, l)"
      "metrics_ok effs" "handle E st req = rust_bind (proxy E i m req effs st4) (drop_permit E permit)"
proof (cases "routed E st req")
  case (Inl e)
  with unrouted show thesis by (simp add: handle_def Let_def i_def)
next
  case m: (Inr m)
  obtain a l where a: "acquired E m st = (a, l)" by fastforce
  show thesis
  proof (cases a)
    case (Inl msg)
    with a m refused show thesis by (simp add: handle_def Let_def)
  next
    case (Inr permit)
    let ?st1 = "pe_others E 1 (st\<lparr>gs_concurrency := l\<rparr>)"
    have run: "handle E st req = rust_bind (admitted E i m req ?st1) (drop_permit E permit)"
      using m a Inr by (simp add: handle_def Let_def i_def)
    obtain r keys where r: "request_auth E req m (gs_keys ?st1) = (r, keys)" by fastforce
    let ?st2 = "pe_others E 2 (?st1\<lparr>gs_keys := keys\<rparr>)"
    show thesis
    proof (cases r)
      case (Inl e)
      with unauthenticated [OF m a [unfolded Inr]] r run show thesis by (simp add: admitted_def Let_def)
    next
      case ctx: (Inr ctx)
      have check: "at_check E st req = Some (m, ctx, ?st2)" using m a Inr r ctx by (simp add: at_check_def Let_def)
      obtain c rl where c: "request_check E req m ctx (gs_ratelimit ?st2) = (c, rl)" by fastforce
      let ?st3 = "pe_others E 3 (?st2\<lparr>gs_ratelimit := rl\<rparr>)"
      let ?out = "case c of Inr out \<Rightarrow> out | Inl e \<Rightarrow> rl_fail_open"
      have run2: "handle E st req = rust_bind (after_auth E i m req ctx ?st2) (drop_permit E permit)"
        using run r ctx by (simp add: admitted_def Let_def)
      show thesis
      proof (cases "ro_allowed ?out")
        case False
        then obtain out where out: "c = Inr out" "\<not> ro_allowed out" by (cases c) (simp_all add: rl_fail_open_def)
        with limited [OF check a [unfolded Inr]] c run2 show thesis by (simp add: after_auth_def Let_def)
      next
        case True
        have look: "at_lookup E st req = Some (m, ?st3)"
          using check c True by (cases c) (simp_all add: at_lookup_def)
        show thesis
        proof (cases "request_lookup E req m (gs_cache ?st3)")
          case Panic
          then show thesis by simp
        next
          case Hang
          with look_hung [OF look] run2 c True show thesis by (simp add: after_auth_def Let_def)
        next
          case (Ret x)
          obtain res cache where x: "x = (res, cache)" by fastforce
          let ?effs = "map Metric (record_rate_limit (mr_route_id m) ?out) @ map Metric (record_cache_lookup (mr_route_id m) res)"
          have ok: "metrics_ok ?effs"
            by (rule exI [of _ "record_rate_limit (mr_route_id m) ?out @ record_cache_lookup (mr_route_id m) res"]) (simp add: recorder_ok)
          show thesis
          proof (cases res)
            case (Hit e)
            with cached [OF look a [unfolded Inr] _ ok] Ret x run2 c True show thesis by (simp add: after_auth_def Let_def)
          next
            case Miss
            then have "at_proxy E st req = Some (m, pe_others E 4 (?st3\<lparr>gs_cache := cache\<rparr>))"
              using look Ret x by (simp add: at_proxy_def)
            with proxied [OF _ a [unfolded Inr] ok] Ret x run2 c True Miss show thesis by (simp add: after_auth_def Let_def)
          next
            case Bypass
            then have "at_proxy E st req = Some (m, pe_others E 4 (?st3\<lparr>gs_cache := cache\<rparr>))"
              using look Ret x by (simp add: at_proxy_def)
            with proxied [OF _ a [unfolded Inr] ok] Ret x run2 c True Bypass show thesis by (simp add: after_auth_def Let_def)
          qed
        qed
      qed
    qed
  qed
qed

lemma store_not_Panic [simp]: "store X now mw route me path query s rh body qh c \<noteq> Panic"
  by (simp add: store_def Let_def rust_bind_eq split: option.split)

lemma proxy_cases:
  fixes E m req effs st i
  obtains
    (no_pool) "registry_get (gs_upstreams st) (mr_upstream m) = None"
      "proxy E i m req effs st = fail E 502 ''upstream not configured'' i effs st"
  | (pool_panics) pool where "registry_get (gs_upstreams st) (mr_upstream m) = Some pool" "request_send E req m pool = Panic"
      "proxy E i m req effs st = Panic"
  | (send_failed) pool e attempts pool' where "registry_get (gs_upstreams st) (mr_upstream m) = Some pool"
      "request_send E req m pool = Ret (Inl e, attempts, pool')"
      "proxy E i m req effs st = fail E (case e of UpstreamTimeout _ \<Rightarrow> 504 | _ \<Rightarrow> 502) (core_error_display e) i
         (effs @ map Sent attempts) (after_send E (mr_upstream m) pool' st)"
  | (store_hung) pool r el attempts pool' where "registry_get (gs_upstreams st) (mr_upstream m) = Some pool"
      "request_send E req m pool = Ret (Inr (r, el), attempts, pool')"
      "request_store E req m r (gs_cache (after_send E (mr_upstream m) pool' st)) = Hang" "proxy E i m req effs st = Hang"
  | (answered) pool r el attempts pool' cache effs' where "registry_get (gs_upstreams st) (mr_upstream m) = Some pool"
      "request_send E req m pool = Ret (Inr (r, el), attempts, pool')"
      "request_store E req m r (gs_cache (after_send E (mr_upstream m) pool' st)) = Ret cache" "metrics_ok effs'"
      "proxy E i m req effs st = rust_bind (build_upstream_response (pe_http E) (rt_headers (mr_route m)) r) (\<lambda>resp.
         Ret (resp\<lparr>rs_headers := inject_request_id (pe_http E) i (rs_headers resp)\<rparr>, effs @ map Sent attempts @ effs',
           pe_others E 6 ((after_send E (mr_upstream m) pool' st)\<lparr>gs_cache := cache\<rparr>)))"
proof (cases "registry_get (gs_upstreams st) (mr_upstream m)")
  case None
  with no_pool show thesis by (simp add: proxy_def Let_def)
next
  case (Some pool)
  show thesis
  proof (cases "request_send E req m pool")
    case Panic
    with pool_panics [OF Some] Some show thesis by (simp add: proxy_def Let_def)
  next
    case (Ret x)
    obtain result attempts pool' where x: "x = (result, attempts, pool')" by (cases x)
    show thesis
    proof (cases result)
      case (Inl e)
      with send_failed [OF Some] Some Ret x show thesis by (simp add: proxy_def Let_def after_send_def)
    next
      case (Inr y)
      obtain r el where y: "y = (r, el)" by fastforce
      let ?st5 = "after_send E (mr_upstream m) pool' st"
      let ?evs = "record_upstream (mr_route_id m) (mr_upstream m) (rs_status r) el"
      let ?evs' = "record_request (mr_route_id m) (rq_method req) (rs_status r) (pe_total_elapsed E)
        (word_of_nat (length (rq_body req))) (word_of_nat (length (rs_body r)))"
      have ok: "metrics_ok (map Metric ?evs @ map Metric ?evs')"
        by (rule exI [of _ "?evs @ ?evs'"]) (simp add: recorder_ok)
      show thesis
      proof (cases "request_store E req m r (gs_cache ?st5)")
        case Hang
        with store_hung [OF Some] Some Ret x Inr y show thesis by (simp add: proxy_def Let_def after_send_def)
      next
        case (Ret cache)
        with answered [OF Some _ _ ok] Some \<open>request_send E req m pool = Ret x\<close> x Inr y show thesis
          by (simp add: proxy_def Let_def after_send_def)
      qed simp
    qed
  qed simp
qed

section \<open>Postconditions\<close>

text \<open>A postcondition of a computation that may panic or hang.\<close>

fun rust_all :: "('a \<Rightarrow> bool) \<Rightarrow> 'a rust \<Rightarrow> bool" where
  "rust_all P Panic = True"
| "rust_all P Hang = True"
| "rust_all P (Ret x) = P x"

lemma rust_all_bind: "rust_all P (rust_bind r f) \<longleftrightarrow> rust_all (\<lambda>x. rust_all P (f x)) r"
  by (cases r) simp_all

lemma rust_all_mono: "rust_all P r \<Longrightarrow> (\<And>x. P x \<Longrightarrow> Q x) \<Longrightarrow> rust_all Q r"
  by (cases r) simp_all

lemma rust_all_True: "(\<And>x. P x) \<Longrightarrow> rust_all P r"
  by (cases r) simp_all

lemma bind_drop_permit:
  "rust_bind r (drop_permit E permit) = Ret (resp, effs, st') \<longleftrightarrow>
     (\<exists>st. r = Ret (resp, effs, st) \<and> st' = st\<lparr>gs_concurrency := permit_drop (pe_sem E) permit (gs_concurrency st)\<rparr>)"
  "rust_bind r (drop_permit E permit) = Panic \<longleftrightarrow> r = Panic"
  "rust_bind r (drop_permit E permit) = Hang \<longleftrightarrow> r = Hang"
  by (auto simp: rust_bind_eq drop_permit_def)

section \<open>Request identifiers\<close>

text \<open>A value that reads as a string is also accepted back from it, and the generated identifier is visible ASCII.\<close>

definition value_law :: "('hm, 'hv, 'u) http_lib \<Rightarrow> bool" where
  "value_law L \<longleftrightarrow> (\<forall>v s. hv_to_str L v = Some s \<longrightarrow> hv_from_str L s \<noteq> None)"

definition has_id :: "('hm, 'hv, 'u) http_lib \<Rightarrow> 'hm \<Rightarrow> bool" where
  "has_id L h \<longleftrightarrow> hm_get L h ''x-request-id'' \<noteq> None"

lemma request_id_parses:
  assumes "value_law (pe_http E)" and "header_laws (pe_http E)" and "visible_ascii (pe_uuid E)"
  shows "hv_from_str (pe_http E) (request_id_of E h) \<noteq> None"
proof (cases "header_str (pe_http E) h ''x-request-id''")
  case None
  then show ?thesis using header_laws_rules(9) [OF assms(2,3)] by (simp add: request_id_of_def)
next
  case (Some i)
  then obtain v where "hv_to_str (pe_http E) v = Some i" by (auto simp: header_str_def bind_eq_Some_conv)
  with assms(1) Some show ?thesis by (simp add: request_id_of_def value_law_def)
qed

lemma has_id_inject:
  assumes "header_laws L" and "hv_from_str L i \<noteq> None"
  shows "has_id L (inject_request_id L i h)"
proof (cases "hm_contains_key L h ''x-request-id''")
  case True
  then show ?thesis using header_laws_rules(2) [OF assms(1)] by (simp add: inject_request_id_def has_id_def)
next
  case False
  with assms(2) show ?thesis
    by (auto simp: inject_request_id_def has_id_def header_laws_rules(3) [OF assms(1)] eq_ignore_ascii_case_def)
qed

lemma has_id_insert_parsed:
  assumes "header_laws L" and "has_id L h"
  shows "has_id L (foldl (insert_parsed L) h kvs)"
proof -
  have "has_id L (insert_parsed L g kv)" if "has_id L g" for g kv
    using that unfolding has_id_def insert_parsed_def
    by (auto split: option.splits simp: header_laws_rules(3) [OF assms(1)])
  with assms(2) show ?thesis by (induction kvs arbitrary: h) simp_all
qed

text \<open>The error response: never a panic, and the request's identifier unchanged.\<close>

lemma visible_ascii_texts:
  "visible_ascii ''application/json''" "visible_ascii ''1''" "visible_ascii ''HIT''" "visible_ascii ''MISS''"
  by (simp_all add: visible_ascii_def)

lemma builder_headers_Ret:
  assumes "header_laws L" and "\<forall>(n, v) \<in> set kvs. visible_ascii v"
  shows "\<exists>h'. builder_headers L h kvs = Ret h'"
  using assms(2)
proof (induction kvs arbitrary: h)
  case (Cons kv kvs)
  obtain n v where kv: "kv = (n, v)" by fastforce
  with Cons.prems have "hv_from_str L v \<noteq> None" using header_laws_rules(9) [OF assms(1)] by simp
  with Cons kv show ?case by (auto split: option.split)
qed simp

lemma error_response_Ret:
  assumes "header_laws L" and "hv_from_str L i \<noteq> None"
  obtains resp where "error_response L j s m i = Ret resp" and "rs_status resp = s" and "has_id L (rs_headers resp)"
proof -
  obtain h where "builder_headers L (hm_new L) [(''content-type'', ''application/json'')] = Ret h"
    using builder_headers_Ret [OF assms(1), of "[(''content-type'', ''application/json'')]"] visible_ascii_texts by auto
  with that has_id_inject [OF assms] show ?thesis by (simp add: error_response_def)
qed

lemma fail_Ret:
  assumes "header_laws (pe_http E)" and "hv_from_str (pe_http E) i \<noteq> None"
  obtains resp where "fail E s m i effs st = Ret (resp, effs, st)" and "rs_status resp = s"
    and "has_id (pe_http E) (rs_headers resp)"
proof -
  obtain resp where "error_response (pe_http E) (pe_json_error E) s m i = Ret resp" "rs_status resp = s"
    "has_id (pe_http E) (rs_headers resp)" by (rule error_response_Ret [OF assms])
  with that show ?thesis by (simp add: fail_def)
qed

lemma fail_parts: "fail E s m i effs st = Ret (resp, effs', st') \<Longrightarrow> effs' = effs \<and> st' = st \<and> rs_status resp = s"
  by (auto simp: fail_def rust_bind_eq error_response_def)

section \<open>Effects\<close>

definition is_sent :: "('hm, 'u) effect \<Rightarrow> bool" where
  "is_sent e \<longleftrightarrow> (case e of Sent _ \<Rightarrow> True | Metric _ \<Rightarrow> False)"

abbreviation no_sends :: "('hm, 'u) effect list \<Rightarrow> bool" where
  "no_sends effs \<equiv> filter is_sent effs = []"

lemma filter_sent [simp]:
  "filter is_sent (map Metric evs) = []" "filter is_sent (map Sent rqs) = map Sent rqs"
  "is_sent (Sent rq)" "\<not> is_sent (Metric ev)"
proof -
  show "filter is_sent (map Metric evs) = []" by (induction evs) (simp_all add: is_sent_def)
  show "filter is_sent (map Sent rqs) = map Sent rqs" by (induction rqs) (simp_all add: is_sent_def)
qed (simp_all add: is_sent_def)

lemma metrics_ok_sends [simp]: "metrics_ok effs \<Longrightarrow> no_sends effs"
  by auto

lemma metrics_ok_fits: "metrics_ok effs \<Longrightarrow> Metric ev \<in> set effs \<Longrightarrow> event_ok ev"
  by (auto simp: list_all_iff)

text \<open>The requests a proxied request puts on the wire: those of the pool of its route, as the pool reports them.\<close>

definition wire_effects ::
  "('hm, 'hv, 'u, 're, 'cap, 'key, 'j, 'sem, 'r) request_env \<Rightarrow> matched_route \<Rightarrow> ('hm, 'u) http_request \<Rightarrow>
   ('re, 'sem, 'r) gateway_state \<Rightarrow> ('hm, 'u) effect list \<Rightarrow> bool" where
  "wire_effects E m req st effs \<longleftrightarrow> no_sends effs \<or>
     (\<exists>pool result attempts pool'. registry_get (gs_upstreams st) (mr_upstream m) = Some pool \<and>
        request_send E req m pool = Ret (result, attempts, pool') \<and> filter is_sent effs = map Sent attempts)"

lemma proxy_effects:
  assumes "proxy E i m req effs st = Ret (resp, effs', st')" and "metrics_ok effs"
  shows "wire_effects E m req st effs' \<and> (\<forall>ev. Metric ev \<in> set effs' \<longrightarrow> event_ok ev)"
proof -
  note fits = metrics_ok_fits [OF assms(2)]
  have none: "no_sends effs" using assms(2) by auto
  show ?thesis
  proof (cases rule: proxy_cases [of st m E i req effs])
    case no_pool
    with assms(1) fits none show ?thesis by (auto simp: wire_effects_def dest!: fail_parts)
  next
    case (send_failed pool e attempts pool')
    with assms(1) fits none have "effs' = effs @ map Sent attempts" by (auto dest!: fail_parts)
    with send_failed fits none show ?thesis by (auto simp: wire_effects_def)
  next
    case (answered pool r el attempts pool' cache effs2)
    have "effs' = effs @ map Sent attempts @ effs2" using assms(1) unfolding answered(5) by (auto simp: rust_bind_eq)
    with answered fits none metrics_ok_fits [OF answered(4)] show ?thesis by (auto simp: wire_effects_def)
  qed (use assms(1) in simp_all)
qed

text \<open>A handled request makes metric calls that fit, and puts requests on the wire only at the proxy stage.\<close>

lemma handle_effects:
  assumes "handle E st req = Ret (resp, effs, st')"
  shows "(no_sends effs \<or> (\<exists>m st4. at_proxy E st req = Some (m, st4) \<and> wire_effects E m req st4 effs)) \<and>
    (\<forall>ev. Metric ev \<in> set effs \<longrightarrow> event_ok ev)"
proof -
  have rec: "metrics_ok (map Metric evs)" if "list_all event_ok evs" for evs using that by blast
  have quiet: ?thesis if "metrics_ok effs" using metrics_ok_fits [OF that] that by auto
  show ?thesis
  proof (cases rule: handle_cases [of E st req])
    case unrouted
    with assms have "effs = []" by (auto dest!: fail_parts)
    then show ?thesis by simp
  next
    case (refused m msg l)
    with assms have "effs = map Metric (record_concurrency_rejected (mr_route_id m) ''limit'')" by (auto simp: rust_bind_eq)
    with quiet rec [OF recorder_ok(11)] show ?thesis by blast
  next
    case (unauthenticated m permit l e keys)
    with assms have "effs = map Metric (record_auth_failure (mr_route_id m) e)"
      by (auto simp: bind_drop_permit dest!: fail_parts)
    with quiet rec [OF recorder_ok(5)] show ?thesis by blast
  next
    case (limited m ctx st2 permit l out rl)
    have "effs = map Metric (record_rate_limit (mr_route_id m) out)"
      using assms unfolding limited(5) by (auto simp: rust_bind_eq drop_permit_def)
    with quiet rec [OF recorder_ok(3)] show ?thesis by blast
  next
    case (cached m st3 permit l e cache effs')
    have "effs = effs'" using assms unfolding cached(5) by (auto simp: rust_bind_eq drop_permit_def)
    with quiet cached(4) show ?thesis by blast
  next
    case (proxied m st4 permit l effs')
    with assms obtain x where "proxy E (request_id_of E (rq_headers req)) m req effs' st4 = Ret (resp, effs, x)"
      by (auto simp: bind_drop_permit)
    from proxy_effects [OF this proxied(3)] proxied(1) show ?thesis by blast
  qed (use assms in simp)
qed

text \<open>What is on the wire: a copy of the request with the headers changed and the URI of an endpoint of the pool that was
  available.\<close>

definition sent_to ::
  "('hm, 'hv, 'u) http_lib \<Rightarrow> matched_route \<Rightarrow> ('hm, 'u) http_request \<Rightarrow> upstream_pool \<Rightarrow> ('hm, 'u) http_request \<Rightarrow> bool" where
  "sent_to L m req pool rq \<longleftrightarrow>
     (\<exists>i uri. rq = clone_request L ((apply_request_mutations L (rt_headers (mr_route m)) req)\<lparr>rq_uri := uri\<rparr>) \<and>
        (length (up_endpoints pool) < 2 ^ 64 \<longrightarrow> i < length (up_endpoints pool) \<and> is_available (up_endpoints pool ! i) \<and>
           addressed_to L (es_address (up_endpoints pool ! i)) (rq_uri req) uri))"

lemma mutations_keep [simp]:
  "rq_uri (apply_request_mutations L h req) = rq_uri req" "rq_body (apply_request_mutations L h req) = rq_body req"
  "rq_method (apply_request_mutations L h req) = rq_method req"
  by (simp_all add: apply_request_mutations_def Let_def)

lemma request_send_wire:
  assumes "request_send E req m pool = Ret (result, attempts, pool')" and "attempts \<noteq> []"
  obtains n rq where "attempts = replicate n rq" "1 \<le> n" "n \<le> pool_max_attempts pool" "sent_to (pe_http E) m req pool rq"
proof -
  obtain i uri n where n: "n \<le> pool_max_attempts pool"
    and a: "attempts = replicate n (clone_request (pe_http E)
      ((apply_request_mutations (pe_http E) (rt_headers (mr_route m)) req)\<lparr>rq_uri := uri\<rparr>))" (is "_ = replicate n ?rq")
    and e: "length (up_endpoints pool) < 2 ^ 64 \<Longrightarrow> i < length (up_endpoints pool) \<and> is_available (up_endpoints pool ! i) \<and>
       addressed_to (pe_http E) (es_address (up_endpoints pool ! i)) (rq_uri req) uri"
    using send_attempts [OF assms(1)] assms(2) by auto
  have "sent_to (pe_http E) m req pool ?rq" unfolding sent_to_def using e by blast
  moreover have "1 \<le> n" using assms(2) a by (cases n) simp_all
  ultimately show thesis using that [OF a _ n] by blast
qed

lemma sent_to_parts: "sent_to L m req pool rq \<Longrightarrow> rq_body rq = rq_body req \<and> rq_method rq = rq_method req"
  by (auto simp: sent_to_def clone_request_def)

section \<open>Identifiers on every response\<close>

lemma visible_u64: "visible_ascii (u64_to_string n)"
proof -
  have "list_all is_ascii_digit (u64_to_string n)" by (simp add: u64_to_string_def nat_to_string_digits)
  then show ?thesis unfolding visible_ascii_def is_ascii_digit_def by (rule list.pred_mono_strong) simp
qed

lemma cached_response_ok:
  assumes "header_laws L" and "valid_status (ce_status e)"
  shows "\<exists>resp. build_cached_response L now e = Ret resp"
proof -
  obtain h where "builder_headers L (hm_new L) [(''X-Cache'', ''HIT''), (''Age'', age_header now e)] = Ret h"
    using builder_headers_Ret [OF assms(1), of "[(''X-Cache'', ''HIT''), (''Age'', age_header now e)]"]
      visible_ascii_texts(3) visible_u64 by (auto simp: age_header_def)
  with assms(2) show ?thesis by (simp add: build_cached_response_def)
qed

lemma upstream_response_ok:
  assumes "header_laws L"
  shows "\<exists>resp. build_upstream_response L h r = Ret resp"
  using header_laws_rules(9) [OF assms visible_ascii_texts(4)] by (auto simp: build_upstream_response_def Let_def)

lemma valid_auth_status [simp]: "valid_status (auth_status_code e)"
  by (cases e) (simp_all add: valid_status_def)

text \<open>The response of the gate: it always exists, and it has no identifier.\<close>

lemma service_unavailable_Ret:
  assumes "header_laws L"
  obtains resp where "service_unavailable L j msg = Ret resp" "rs_status resp = 503" "\<not> has_id L (rs_headers resp)"
proof -
  obtain v1 where v1: "hv_from_str L ''application/json'' = Some v1" using header_laws_rules(9) [OF assms visible_ascii_texts(1)] by auto
  obtain v2 where v2: "hv_from_str L ''1'' = Some v2" using header_laws_rules(9) [OF assms visible_ascii_texts(2)] by auto
  have "\<not> eq_ignore_ascii_case ''content-type'' ''x-request-id''" "\<not> eq_ignore_ascii_case ''Retry-After'' ''x-request-id''"
    by code_simp+
  then have "hm_get L (hm_append L (hm_append L (hm_new L) ''content-type'' v1) ''Retry-After'' v2) ''x-request-id'' = None"
    by (simp add: header_laws_rules(1,4) [OF assms])
  with that v1 v2 show thesis by (simp add: service_unavailable_def has_id_def)
qed

end
