(* ===== verification/Responses.thy ===== *)
theory Responses
  imports Pipeline
begin

text \<open>
  Where a response comes from and what its headers are. \<open>mutated_get\<close> is the meaning of a route's header
  changes: for every header name, what a lookup finds after them. \<open>gateway_made\<close>, \<open>made_of_entry\<close> and
  \<open>made_of_answer\<close> describe the three kinds of responses; the lemmas show that the functions of the pipeline that
  build responses make these.
\<close>

section \<open>Header changes\<close>

text \<open>The value of a header after removing some names and then setting some pairs: of the pairs that name the
  header and parse, the last one counts; else the header is gone if it was removed, and unchanged if not.\<close>

definition mutated_get ::
  "('hm, 'hv, 'u) http_lib \<Rightarrow> string list \<Rightarrow> (string \<times> string) list \<Rightarrow> 'hm \<Rightarrow> string \<Rightarrow> 'hv option" where
  "mutated_get L removed sets h n =
     (case List.find (\<lambda>(k, v). eq_ignore_ascii_case k n \<and> hn_from_bytes L k \<noteq> None \<and> hv_from_str L v \<noteq> None) (rev sets) of
        Some (k, v) \<Rightarrow> hv_from_str L v
      | None \<Rightarrow> if list_ex (\<lambda>k. eq_ignore_ascii_case k n) removed then None else hm_get L h n)"

lemma hm_get_insert_parsed:
  assumes "header_laws L"
  shows "hm_get L (insert_parsed L h (k, v)) n =
    (if eq_ignore_ascii_case k n \<and> hn_from_bytes L k \<noteq> None \<and> hv_from_str L v \<noteq> None then hv_from_str L v
     else hm_get L h n)"
proof (cases "hn_from_bytes L k")
  case (Some name)
  then have "eq_ignore_ascii_case name n \<longleftrightarrow> eq_ignore_ascii_case k n"
    using header_laws_rules(7) [OF assms Some] by (auto simp: eq_ignore_ascii_case_def)
  with Some show ?thesis
    by (auto simp: insert_parsed_def header_laws_rules(3) [OF assms] split: option.split)
qed (simp add: insert_parsed_def)

lemma hm_get_inserts:
  assumes "header_laws L"
  shows "hm_get L (foldl (insert_parsed L) h sets) n = mutated_get L [] sets h n"
proof (induction sets rule: rev_induct)
  case Nil
  then show ?case by (simp add: mutated_get_def)
next
  case (snoc kv sets)
  obtain k v where kv: "kv = (k, v)" by fastforce
  with snoc show ?case by (auto simp: hm_get_insert_parsed [OF assms] mutated_get_def simp del: not_None_eq)
qed

lemma hm_get_removes:
  assumes "header_laws L"
  shows "hm_get L (foldl (hm_remove L) h removed) n =
    (if list_ex (\<lambda>k. eq_ignore_ascii_case k n) removed then None else hm_get L h n)"
  by (induction removed arbitrary: h) (simp_all add: header_laws_rules(5) [OF assms])

text \<open>The request that is sent upstream differs from the one received in its URI and in these headers only.\<close>

definition request_changed ::
  "('hm, 'hv, 'u) http_lib \<Rightarrow> header_mutations \<Rightarrow> ('hm, 'u) http_request \<Rightarrow> ('hm, 'u) http_request \<Rightarrow> bool" where
  "request_changed L mutations req rq \<longleftrightarrow>
     rq_method rq = rq_method req \<and> rq_version rq = rq_version req \<and> rq_body rq = rq_body req \<and>
     (\<forall>n. hm_get L (rq_headers rq) n =
        mutated_get L (hdm_request_remove mutations) (hdm_request_set mutations) (rq_headers req) n)"

lemma sent_to_changed:
  assumes "header_laws L" and "sent_to L m req pool rq"
  shows "request_changed L (rt_headers (mr_route m)) req rq"
proof -
  let ?mut = "rt_headers (mr_route m)"
  obtain uri where "rq = clone_request L ((apply_request_mutations L ?mut req)\<lparr>rq_uri := uri\<rparr>)"
    using assms(2) by (auto simp: sent_to_def)
  moreover have "hm_get L (rq_headers (apply_request_mutations L ?mut req)) n =
      mutated_get L (hdm_request_remove ?mut) (hdm_request_set ?mut) (rq_headers req) n" for n
    by (auto simp: apply_request_mutations_def Let_def hm_get_inserts [OF assms(1)] mutated_get_def
        hm_get_removes [OF assms(1)] split: option.split)
  ultimately show ?thesis
    by (simp add: request_changed_def hm_get_clone [OF assms(1)])
      (simp add: clone_request_def apply_request_mutations_def Let_def)
qed

section \<open>Origins\<close>

definition gateway_made :: "('hm, 'hv, 'u, 're, 'cap, 'key, 'j, 'sem, 'r) request_env \<Rightarrow> 'hm http_response \<Rightarrow> bool" where
  "gateway_made E resp \<longleftrightarrow> rs_status resp \<in> {401, 403, 404, 429, 500, 502, 503, 504} \<and> (\<exists>msg. rs_body resp = pe_json_error E msg)"

text \<open>A response made of a stored entry: its status and its body, and of its headers those the entry has.\<close>

definition entry_get :: "('hm, 'hv, 'u) http_lib \<Rightarrow> (string \<times> string) list \<Rightarrow> string \<Rightarrow> 'hv option" where
  "entry_get L kvs n =
     (case List.find (\<lambda>(k, v). eq_ignore_ascii_case k n \<and> hn_from_bytes L k \<noteq> None \<and> hv_from_str L v \<noteq> None) kvs of
        Some (k, v) \<Rightarrow> hv_from_str L v
      | None \<Rightarrow> None)"

definition made_of_entry :: "('hm, 'hv, 'u) http_lib \<Rightarrow> cached_response \<Rightarrow> 'hm http_response \<Rightarrow> bool" where
  "made_of_entry L e resp \<longleftrightarrow>
     rs_status resp = ce_status e \<and> rs_body resp = ce_body e \<and>
     header_str L (rs_headers resp) ''X-Cache'' = Some ''HIT'' \<and>
     (\<forall>n. \<not> eq_ignore_ascii_case n ''x-cache'' \<and> \<not> eq_ignore_ascii_case n ''age'' \<and> \<not> eq_ignore_ascii_case n ''x-request-id'' \<longrightarrow>
        hm_get L (rs_headers resp) n = entry_get L (ce_headers e) n)"

text \<open>A response made of what the client of the pool received: status and body, and the headers but those the route sets.\<close>

definition made_of_answer ::
  "('hm, 'hv, 'u) http_lib \<Rightarrow> header_mutations \<Rightarrow> 'hm attempt \<Rightarrow> 'hm http_response \<Rightarrow> bool" where
  "made_of_answer L mutations answer resp \<longleftrightarrow>
     (case answer of
        Received status headers (Inr body) \<Rightarrow>
          rs_status resp = status \<and> rs_body resp = body \<and> header_str L (rs_headers resp) ''X-Cache'' = Some ''MISS'' \<and>
          (\<forall>n. \<not> eq_ignore_ascii_case n ''x-cache'' \<and> \<not> eq_ignore_ascii_case n ''x-request-id'' \<longrightarrow>
             hm_get L (rs_headers resp) n = mutated_get L [] (hdm_response_set mutations) headers n)
      | _ \<Rightarrow> False)"

lemma inject_get:
  assumes "header_laws L" and "\<not> eq_ignore_ascii_case n ''x-request-id''"
  shows "hm_get L (inject_request_id L i h) n = hm_get L h n"
  using assms(2)
  by (auto simp: inject_request_id_def header_laws_rules(3) [OF assms(1)] eq_ignore_ascii_case_def split: option.split)

lemma error_response_made:
  assumes "error_response (pe_http E) (pe_json_error E) s msg i = Ret resp"
    and "s \<in> {401, 403, 404, 429, 500, 502, 503, 504}"
  shows "gateway_made E (resp\<lparr>rs_headers := h\<rparr>)" "gateway_made E resp"
  using assms by (auto simp: error_response_def rust_bind_eq gateway_made_def)

lemma fail_made:
  assumes "fail E s msg i effs st = Ret (resp, effs', st')" and "s \<in> {401, 403, 404, 429, 500, 502, 503, 504}"
  shows "gateway_made E resp"
proof -
  from assms(1) have "error_response (pe_http E) (pe_json_error E) s msg i = Ret resp" by (auto simp: fail_def rust_bind_eq)
  then show ?thesis by (rule error_response_made(2) [OF _ assms(2)])
qed

section \<open>What the builders make\<close>

lemma entry_get_simps:
  "entry_get L ((k, v) # kvs) n =
    (if eq_ignore_ascii_case k n \<and> hn_from_bytes L k \<noteq> None \<and> hv_from_str L v \<noteq> None then hv_from_str L v else entry_get L kvs n)"
  "entry_get L [] n = None"
  by (simp_all add: entry_get_def del: not_None_eq)

lemma append_parsed_once:
  assumes "header_laws L"
  shows "hm_get L (append_parsed L h (k, v)) n =
    (case hm_get L h n of Some w \<Rightarrow> Some w | None \<Rightarrow> entry_get L [(k, v)] n)"
proof (cases "hn_from_bytes L k")
  case (Some name)
  then have "eq_ignore_ascii_case name n \<longleftrightarrow> eq_ignore_ascii_case k n"
    using header_laws_rules(7) [OF assms Some] by (auto simp: eq_ignore_ascii_case_def)
  with Some show ?thesis
    by (auto simp: append_parsed_def entry_get_def header_laws_rules(4) [OF assms] split: option.splits)
qed (simp add: append_parsed_def entry_get_def split: option.split)

lemma append_parsed_get:
  assumes "header_laws L"
  shows "hm_get L (foldl (append_parsed L) h kvs) n =
    (case hm_get L h n of Some v \<Rightarrow> Some v | None \<Rightarrow> entry_get L kvs n)"
proof (induction kvs arbitrary: h)
  case (Cons kv kvs)
  obtain k v where kv: "kv = (k, v)" by fastforce
  have "hm_get L (foldl (append_parsed L) h (kv # kvs)) n =
      (case hm_get L (append_parsed L h (k, v)) n of Some w \<Rightarrow> Some w | None \<Rightarrow> entry_get L kvs n)"
    by (simp only: foldl_Cons kv Cons.IH)
  then show ?case
    by (auto simp: kv append_parsed_once [OF assms] entry_get_simps split: option.splits)
qed (simp add: entry_get_simps split: option.split)

lemma x_cache_names:
  "eq_ignore_ascii_case ''X-Cache'' n \<longleftrightarrow> eq_ignore_ascii_case n ''x-cache''"
  "\<not> eq_ignore_ascii_case ''X-Cache'' ''x-request-id''"
  "\<not> eq_ignore_ascii_case ''Age'' ''X-Cache''"
  "eq_ignore_ascii_case ''X-Cache'' ''X-Cache''"
  "eq_ignore_ascii_case ''Age'' n \<longleftrightarrow> eq_ignore_ascii_case n ''age''"
proof -
  have lower: "to_ascii_lowercase ''X-Cache'' = ''x-cache''" "to_ascii_lowercase ''x-cache'' = ''x-cache''"
    "to_ascii_lowercase ''Age'' = ''age''" "to_ascii_lowercase ''age'' = ''age''" by code_simp+
  then show "eq_ignore_ascii_case ''X-Cache'' n \<longleftrightarrow> eq_ignore_ascii_case n ''x-cache''" "eq_ignore_ascii_case ''Age'' n \<longleftrightarrow> eq_ignore_ascii_case n ''age''"
    unfolding eq_ignore_ascii_case_def by metis+
qed (code_simp+)

lemma cached_response_made:
  assumes "header_laws L" and "build_cached_response L now e = Ret r"
  shows "made_of_entry L e (r\<lparr>rs_headers := inject_request_id L i (rs_headers r)\<rparr>)"
proof -
  obtain hit where hit: "hv_from_str L ''HIT'' = Some hit" using header_laws_rules(9) [OF assms(1) visible_ascii_texts(3)] by auto
  obtain h where h: "builder_headers L (hm_new L) [(''X-Cache'', ''HIT''), (''Age'', age_header now e)] = Ret h"
    and r: "r = \<lparr>rs_status = ce_status e, rs_headers = foldl (append_parsed L) h (ce_headers e), rs_body = ce_body e\<rparr>"
    using assms(2) by (auto simp: build_cached_response_def rust_bind_eq simp del: builder_headers.simps split: if_splits)
  have x: "hm_get L h ''X-Cache'' = Some hit"
    using h hit x_cache_names(3,4) by (auto simp: header_laws_rules(1,4) [OF assms(1)] split: option.splits)
  have o: "hm_get L h n = None" if "\<not> eq_ignore_ascii_case n ''x-cache''" "\<not> eq_ignore_ascii_case n ''age''" for n
    using h that by (auto simp: header_laws_rules(1,4) [OF assms(1)] x_cache_names(1,5) split: option.splits)
  show ?thesis
    using x o header_laws_rules(8) [OF assms(1) hit]
    by (simp add: made_of_entry_def r header_str_def inject_get [OF assms(1)] x_cache_names(2) append_parsed_get [OF assms(1)])
qed

lemma upstream_response_made:
  assumes "header_laws L" and "build_upstream_response L mutations r = Ret resp"
  shows "made_of_answer L mutations (Received (rs_status r) (rs_headers r) (Inr (rs_body r)))
    (resp\<lparr>rs_headers := inject_request_id L i (rs_headers resp)\<rparr>)"
proof -
  obtain miss where miss: "hv_from_str L ''MISS'' = Some miss"
    using assms(2) by (auto simp: build_upstream_response_def Let_def split: option.splits)
  with assms(2) have resp: "resp = r\<lparr>rs_headers := hm_insert L (foldl (insert_parsed L) (rs_headers r) (hdm_response_set mutations)) ''X-Cache'' miss\<rparr>"
    by (simp add: build_upstream_response_def Let_def)
  show ?thesis
    using header_laws_rules(8) [OF assms(1) miss] x_cache_names
    by (simp add: made_of_answer_def resp header_str_def inject_get [OF assms(1)] header_laws_rules(3) [OF assms(1)]
        hm_get_inserts [OF assms(1)])
qed

end
