(* ===== verification/Router_Props.thy ===== *)
theory Router_Props
  imports Router Examples
begin

text \<open>
  What the router guarantees, read off the reference: equivalence with it, soundness and
  completeness of matching, the priority of prefix routes, how paths are compared, and that a
  validated configuration always builds.
\<close>

section \<open>Lemmas on the order of prefix routes\<close>

lemma prefix_order_snoc:
  "prefix_order routes (key @ [s]) =
     rev (filter (\<lambda>r. prefix_key (rpath r) = Some (key @ [s])) routes) @ prefix_order routes key"
  by (simp add: prefix_order_def)

lemma prefix_order_Nil:
  "prefix_order routes [] = rev (filter (\<lambda>r. prefix_key (rpath r) = Some []) routes)"
  by (simp add: prefix_order_def)

lemma find_rev_last:
  "List.find P (rev (filter Q xs)) = Some x \<Longrightarrow>
     Q x \<and> P x \<and> (\<exists>ys zs. xs = ys @ x # zs \<and> (\<forall>z \<in> set zs. Q z \<longrightarrow> \<not> P z))"
proof (induction xs rule: rev_induct)
  case (snoc y xs)
  show ?case
  proof (cases "Q y \<and> P y")
    case True
    with snoc.prems have "x = y" by simp
    with True show ?thesis by (metis append_Nil2 empty_iff empty_set)
  next
    case False
    with snoc.prems have "List.find P (rev (filter Q xs)) = Some x" by (auto split: if_splits)
    from snoc.IH [OF this] obtain ys zs where *: "Q x" "P x" "xs = ys @ x # zs"
      "\<forall>z \<in> set zs. Q z \<longrightarrow> \<not> P z" by blast
    then have "xs @ [y] = ys @ x # (zs @ [y])" "\<forall>z \<in> set (zs @ [y]). Q z \<longrightarrow> \<not> P z"
      using False by auto
    with * show ?thesis by blast
  qed
qed simp

text \<open>The prefix route that wins: of the longest matching key, and the last declared of that key.\<close>

definition wins_prefix :: "(route_config \<Rightarrow> bool) \<Rightarrow> route_config list \<Rightarrow> string list \<Rightarrow> route_config \<Rightarrow> bool" where
  "wins_prefix ok routes key r \<longleftrightarrow>
     (\<exists>k. prefix_key (rpath r) = Some k \<and> prefix k key \<and> ok r \<and>
        (\<forall>r' \<in> set routes. \<forall>k'. prefix_key (rpath r') = Some k' \<and> prefix k' key \<and> ok r' \<longrightarrow>
           length k' \<le> length k) \<and>
        (\<exists>ys zs. routes = ys @ r # zs \<and> (\<forall>z \<in> set zs. prefix_key (rpath z) = Some k \<longrightarrow> \<not> ok z)))"

lemma find_prefix_order_wins:
  "List.find ok (prefix_order routes key) = Some r \<Longrightarrow> wins_prefix ok routes key r"
proof (induction key rule: rev_induct)
  case Nil
  from find_rev_last [OF Nil [unfolded prefix_order_Nil]] show ?case
    unfolding wins_prefix_def by (auto intro: exI [of _ "[]"])
next
  case (snoc s key)
  let ?Q = "\<lambda>r. prefix_key (rpath r) = Some (key @ [s])"
  show ?case
  proof (cases "List.find ok (rev (filter ?Q routes))")
    case (Some r')
    with snoc.prems have "r' = r" by (simp add: prefix_order_snoc find_append)
    from find_rev_last [OF Some [unfolded this]] show ?thesis
      unfolding wins_prefix_def
      by (intro exI [of _ "key @ [s]"]) (auto dest: prefix_length_le)
  next
    case None
    with snoc.prems have "List.find ok (prefix_order routes key) = Some r"
      by (simp add: prefix_order_snoc find_append)
    from snoc.IH [OF this] obtain k where k: "prefix_key (rpath r) = Some k" "prefix k key" "ok r"
      "\<forall>r' \<in> set routes. \<forall>k'. prefix_key (rpath r') = Some k' \<and> prefix k' key \<and> ok r' \<longrightarrow> length k' \<le> length k"
      "\<exists>ys zs. routes = ys @ r # zs \<and> (\<forall>z \<in> set zs. prefix_key (rpath z) = Some k \<longrightarrow> \<not> ok z)"
      unfolding wins_prefix_def by blast
    have none: "\<forall>r' \<in> set routes. ?Q r' \<longrightarrow> \<not> ok r'" using None by (auto simp: find_None_iff)
    then have "\<forall>r' \<in> set routes. \<forall>k'. prefix_key (rpath r') = Some k' \<and> prefix k' (key @ [s]) \<and> ok r' \<longrightarrow>
        length k' \<le> length k"
      using k(4) by (metis prefix_snoc)
    with k show ?thesis unfolding wins_prefix_def by (metis prefix_prefix)
  qed
qed

lemma set_prefix_order:
  "set (prefix_order routes key) =
     {r \<in> set routes. \<exists>k. prefix_key (rpath r) = Some k \<and> prefix k key}"
  by (auto simp: prefix_order_def)

lemma prefix_key_Some: "prefix_key p = Some k \<longleftrightarrow> (\<exists>v. p = Prefix v \<and> k = path_key v)"
  by (cases p) auto

lemma exact_key_Some: "exact_key p = Some k \<longleftrightarrow> (\<exists>v. p = Exact v \<and> k = path_key v)"
  by (cases p) auto

lemma regex_captures_Some:
  "regex_captures RE p path \<noteq> None \<longleftrightarrow>
     (\<exists>v re. p = Regex v \<and> re_new RE v = Inr re \<and> re_captures RE re path \<noteq> None)"
  by (cases p) (auto split: sum.split)

text \<open>When a route's path pattern covers a request path.\<close>

definition route_covers :: "('re, 'cap) regex_lib \<Rightarrow> route_config \<Rightarrow> string \<Rightarrow> bool" where
  "route_covers RE r path =
     (case rpath r of
        Exact v \<Rightarrow> path_key v = path_key path
      | Prefix v \<Rightarrow> prefix (path_key v) (path_key path)
      | Regex p \<Rightarrow> (case re_new RE p of Inl _ \<Rightarrow> False | Inr re \<Rightarrow> re_captures RE re path \<noteq> None))"

lemma reference_match_cases:
  assumes "reference_match L RE routes path m h = Inr mt"
  obtains (exact) "List.find (\<lambda>r. exact_key (rpath r) = Some (path_key path)) routes = Some (mr_route mt)"
      "route_predicates L RE m h (mr_route mt)"
  | (longest) "List.find (route_predicates L RE m h) (prefix_order routes (path_key path)) = Some (mr_route mt)"
  | (regex) "List.find (\<lambda>r. regex_captures RE (rpath r) path \<noteq> None \<and> route_predicates L RE m h r) routes
       = Some (mr_route mt)"
proof -
  let ?e = "List.find (\<lambda>r. exact_key (rpath r) = Some (path_key path)) routes"
  let ?p = "List.find (route_predicates L RE m h) (prefix_order routes (path_key path))"
  let ?x = "List.find (\<lambda>r. regex_captures RE (rpath r) path \<noteq> None \<and> route_predicates L RE m h r) routes"
  show ?thesis
  proof (cases "?e \<noteq> None \<and> route_predicates L RE m h (the ?e)")
    case True
    with assms have "mr_route mt = the ?e" by (auto simp: reference_match_def Let_def)
    with True show ?thesis by (intro exact) auto
  next
    case False
    show ?thesis
    proof (cases ?p)
      case (Some r)
      with assms False have "mt = \<lparr>mr_route = r, mr_path_params = []\<rparr>"
        unfolding reference_match_def Let_def by (simp only: if_False option.case sum.inject)
      with Some show ?thesis by (intro longest) simp
    next
      case None
      note n = this
      show ?thesis
      proof (cases ?x)
        case (Some r)
        with assms False n have "mr_route mt = r"
          unfolding reference_match_def Let_def
          by (auto simp only: if_False option.case sum.inject
              matched_route.select_convs split: prod.splits)
        with Some show ?thesis by (intro regex) simp
      next
        case None
        with assms False n show ?thesis
          unfolding reference_match_def Let_def by (simp only: if_False option.case sum.distinct)
      qed
    qed
  qed
qed

text \<open>The path parameters a route gives for a path: those of its regex, none for the other patterns.\<close>

definition route_params :: "('re, 'cap) regex_lib \<Rightarrow> route_config \<Rightarrow> string \<Rightarrow> (string \<times> string) list" where
  "route_params RE r path =
     (case regex_captures RE (rpath r) path of None \<Rightarrow> [] | Some (re, caps) \<Rightarrow> named_captures RE re caps)"

lemma route_params_plain:
  "exact_key (rpath r) = Some k \<Longrightarrow> route_params RE r path = []"
  "prefix_key (rpath r) = Some k \<Longrightarrow> route_params RE r path = []"
  by (cases "rpath r"; simp add: route_params_def)+

lemma reference_match_params:
  assumes "reference_match L RE routes path m h = Inr mt"
  shows "mr_path_params mt = route_params RE (mr_route mt) path"
proof -
  let ?e = "List.find (\<lambda>r. exact_key (rpath r) = Some (path_key path)) routes"
  let ?p = "List.find (route_predicates L RE m h) (prefix_order routes (path_key path))"
  have e: "route_params RE r path = []" if "?e = Some r" for r
    using find_SomeD [OF that] route_params_plain(1) by blast
  have p: "route_params RE r path = []" if "?p = Some r" for r
    using find_SomeD [OF that] route_params_plain(2) unfolding set_prefix_order by blast
  let ?x = "List.find (\<lambda>r. regex_captures RE (rpath r) path \<noteq> None \<and> route_predicates L RE m h r) routes"
  have x: "\<exists>re caps. regex_captures RE (rpath r) path = Some (re, caps)" if "?x = Some r" for r
    using find_SomeD [OF that] by auto
  consider r where "?e = Some r" "mt = \<lparr>mr_route = r, mr_path_params = []\<rparr>"
    | r where "?p = Some r" "mt = \<lparr>mr_route = r, mr_path_params = []\<rparr>"
    | r where "?x = Some r" "mt = (case the (regex_captures RE (rpath r) path) of
        (re, caps) \<Rightarrow> \<lparr>mr_route = r, mr_path_params = named_captures RE re caps\<rparr>)"
    using assms unfolding reference_match_def Let_def
    by (cases ?p; cases ?x) (auto split: if_splits prod.splits simp del: find_Some_iff)
  then show ?thesis
  proof cases
    case 3
    with x obtain re caps where "regex_captures RE (rpath r) path = Some (re, caps)" by blast
    with 3 show ?thesis by (simp add: route_params_def)
  qed (use e p in simp_all)
qed

lemma reference_match_error:
  "reference_match L RE routes path m h = Inl e \<longleftrightarrow>
     e = NoMatch path \<and>
     (\<forall>r. List.find (\<lambda>r. exact_key (rpath r) = Some (path_key path)) routes = Some r \<longrightarrow>
        \<not> route_predicates L RE m h r) \<and>
     (\<forall>r \<in> set routes. exact_key (rpath r) = None \<longrightarrow> route_covers RE r path \<longrightarrow>
        \<not> route_predicates L RE m h r)" (is "?l \<longleftrightarrow> ?r")
proof -
  let ?ok = "route_predicates L RE m h"
  have nonexact: "(List.find ?ok (prefix_order routes (path_key path)) = None \<and>
      List.find (\<lambda>r. regex_captures RE (rpath r) path \<noteq> None \<and> ?ok r) routes = None) \<longleftrightarrow>
      (\<forall>r \<in> set routes. exact_key (rpath r) = None \<longrightarrow> route_covers RE r path \<longrightarrow> \<not> ?ok r)"
    (is "?a \<longleftrightarrow> ?b")
  proof -
    have covers: "exact_key (rpath r) = None \<and> route_covers RE r path \<longleftrightarrow>
        (\<exists>k. prefix_key (rpath r) = Some k \<and> prefix k (path_key path)) \<or>
        regex_captures RE (rpath r) path \<noteq> None" for r
      by (cases "rpath r") (auto simp: route_covers_def split: sum.split)
    show ?thesis unfolding find_None_iff set_prefix_order using covers by blast
  qed
  show ?thesis
    unfolding nonexact [symmetric] reference_match_def Let_def
    by (auto split: option.splits prod.splits)
qed

section \<open>Examples for the properties\<close>

text \<open>Two prefix routes and an exact one, as in the crate's tests, and two exact routes of one path
  that differ in the method.\<close>

definition ex_routes :: "route_config list" where
  "ex_routes = [sample_route ''root'' (Prefix ''/'') None, sample_route ''api'' (Prefix ''/api'') None,
     sample_route ''status'' (Exact ''/api/status'') None]"

definition ex_exact_routes :: "route_config list" where
  "ex_exact_routes = [sample_route ''get'' (Exact ''/users'') (Some ''GET''),
     sample_route ''post'' (Exact ''/users'') (Some ''POST'')]"

definition ex_router :: "route_config list \<Rightarrow> string router" where
  "ex_router routes =
     \<lparr>exact_trie = insert_all trie_default (exact_entries routes),
      prefix_trie = insert_all trie_default (prefix_entries routes),
      regex_routes = compiled_routes literal_regex routes\<rparr>"

lemma ex_router_built: "router_build literal_regex (sample_config routes) = Inr (ex_router routes)"
proof -
  have "regexes_ok literal_regex routes"
    by (simp add: regexes_ok_def literal_regex_def split: path_match.split)
  then show ?thesis by (simp add: router_build_def build_loop_ok ex_router_def)
qed

lemma ex_path_keys:
  "path_key ''/'' = []" "path_key ''/api'' = [''api'']" "path_key ''/api/status'' = [''api'', ''status'']"
  "path_key ''/API//users/7'' = [''api'', ''users'', ''7'']" "path_key ''/API//status/'' = [''api'', ''status'']"
  "path_key ''/users'' = [''users'']"
  by code_simp+

lemma ex_predicates:
  "route_predicates alist_http literal_regex m h (sample_route i p None)"
  "route_predicates alist_http literal_regex m h (sample_route i p (Some m')) \<longleftrightarrow> eq_ignore_ascii_case m' m"
  by (simp_all add: route_predicates_def matches_predicates_def method_matches_def)

lemmas ex_eval = reference_match_def prefix_order_def ex_path_keys ex_predicates ex_routes_def
  ex_exact_routes_def matched_new_def wins_prefix_def

lemma ex_match:
  "match_request alist_http literal_regex (ex_router rs) path m h =
     reference_match alist_http literal_regex rs path m h"
  using match_request_built [OF ex_router_built] by simp

lemma ex_status: "reference_match alist_http literal_regex ex_routes ''/API//status/'' ''GET'' [] =
   Inr (matched_new (sample_route ''status'' (Exact ''/api/status'') None))"
  by (simp add: ex_eval)

lemma ex_users: "reference_match alist_http literal_regex ex_routes ''/API//users/7'' ''GET'' h =
   Inr (matched_new (sample_route ''api'' (Prefix ''/api'') None))"
  by (simp add: ex_eval)

lemma ex_post: "reference_match alist_http literal_regex ex_exact_routes ''/users'' ''POST'' [] = Inl (NoMatch ''/users'')"
  by (simp add: ex_eval eq_ignore_ascii_case_def char_lower_def is_ascii_upper_def)

lemma ex_config_ok: "validate (re_new literal_regex) (sample_config ex_routes) = Inr ()"
proof -
  have ids: "str_trim ''root'' \<noteq> []" "str_trim ''api'' \<noteq> []" "str_trim ''status'' \<noteq> []" by code_simp+
  show ?thesis
    by (simp add: validate_Inr config_ok_def route_ok_def upstream_ok_def ex_routes_def
        sample_upstream_def middleware_config_default_def ids)
qed

section \<open>Properties\<close>

text \<open>C2: For every configuration that builds, matching a request with the two tries and the compiled
  regexes gives exactly what the reference gives on the declared routes: the first exact route of the
  path when its method and header predicates hold, else the winning prefix route, else the first
  regex route in declaration order with its captured parameters, else \<open>NoMatch\<close>.\<close>

theorem match_request_reference:
  assumes "router_build RE cfg = Inr rt"
  shows "match_request L RE rt path m h = reference_match L RE (gc_routes cfg) path m h"
  using assms by (rule match_request_built)

theorem match_request_reference_witness:
  "router_build literal_regex (sample_config ex_routes) = Inr (ex_router ex_routes) \<and>
   match_request alist_http literal_regex (ex_router ex_routes) ''/API//status/'' ''GET'' [] =
     Inr (matched_new (sample_route ''status'' (Exact ''/api/status'') None))"
  using match_request_reference [OF ex_router_built, of alist_http ex_routes "''/API//status/''" "''GET''" "[]"]
  by (simp add: ex_status ex_router_built)

text \<open>C37: A route returned by the router is one of the configured routes, its path pattern covers the
  request path, its method and header predicates hold for the request, and the path parameters handed on are exactly the
  named groups of its regex that took part in the match, none for an exact or a prefix route. A prefix route that is
  returned is of the longest prefix: no configured prefix route that covers the path and accepts the request has more
  segments, and among routes of the same prefix the last declared one that accepts the request is returned.\<close>

theorem match_request_sound:
  assumes "router_build RE cfg = Inr rt" and "match_request L RE rt path m h = Inr mt"
  shows "mr_route mt \<in> set (gc_routes cfg) \<and> route_covers RE (mr_route mt) path \<and>
    route_predicates L RE m h (mr_route mt) \<and> mr_path_params mt = route_params RE (mr_route mt) path \<and>
    (\<forall>v. rpath (mr_route mt) = Prefix v \<longrightarrow>
       wins_prefix (route_predicates L RE m h) (gc_routes cfg) (path_key path) (mr_route mt))"
proof -
  from assms have ref: "reference_match L RE (gc_routes cfg) path m h = Inr mt"
    by (simp add: match_request_built)
  note params = reference_match_params [OF ref]
  note wins = find_prefix_order_wins [of "route_predicates L RE m h" "gc_routes cfg" "path_key path" "mr_route mt"]
  from ref show ?thesis
  proof (cases rule: reference_match_cases)
    case exact
    from find_SomeD [OF exact(1)] exact(2) params show ?thesis
      by (auto simp: exact_key_Some route_covers_def)
  next
    case longest
    from find_SomeD [OF this] params wins [OF this] show ?thesis
      by (auto simp: set_prefix_order prefix_key_Some route_covers_def)
  next
    case regex
    from find_SomeD [OF this] params show ?thesis
      by (auto simp: regex_captures_Some route_covers_def simp del: not_None_eq)
  qed
qed

theorem match_request_sound_witness:
  "sample_route ''api'' (Prefix ''/api'') None \<in> set ex_routes \<and>
   route_covers literal_regex (sample_route ''api'' (Prefix ''/api'') None) ''/API//users/7'' \<and>
   wins_prefix (route_predicates alist_http literal_regex ''GET'' []) ex_routes
     (path_key ''/API//users/7'') (sample_route ''api'' (Prefix ''/api'') None)"
proof -
  have "match_request alist_http literal_regex (ex_router ex_routes) ''/API//users/7'' ''GET'' [] =
      Inr (matched_new (sample_route ''api'' (Prefix ''/api'') None))"
    by (simp add: ex_match ex_users)
  from match_request_sound [OF ex_router_built this] show ?thesis by (simp add: matched_new_def)
qed

text \<open>C38: Matching fails only with \<open>NoMatch\<close> of the request path, and exactly when the first exact
  route declared for the path, if any, rejects the request by its predicates and so does every prefix
  or regex route that covers the path.\<close>

theorem match_request_complete:
  assumes "router_build RE cfg = Inr rt"
  shows "match_request L RE rt path m h = Inl e \<longleftrightarrow>
     e = NoMatch path \<and>
     (\<forall>r. List.find (\<lambda>r. exact_key (rpath r) = Some (path_key path)) (gc_routes cfg) = Some r \<longrightarrow>
        \<not> route_predicates L RE m h r) \<and>
     (\<forall>r \<in> set (gc_routes cfg). exact_key (rpath r) = None \<longrightarrow> route_covers RE r path \<longrightarrow>
        \<not> route_predicates L RE m h r)"
  by (simp only: match_request_built [OF assms] reference_match_error)

theorem match_request_complete_witness:
  "match_request alist_http literal_regex (ex_router ex_exact_routes) ''/users'' ''POST'' [] =
     Inl (NoMatch ''/users'')"
  by (subst match_request_complete [OF ex_router_built])
    (simp add: ex_eval eq_ignore_ascii_case_def char_lower_def is_ascii_upper_def)

text \<open>Paths are compared by their non-empty segments after ASCII lower-casing: leading, trailing and
  duplicate slashes and letter case never matter.\<close>

theorem path_key_segments:
  "path_key p = filter (\<lambda>s. s \<noteq> []) (str_split (CHR ''/'') (to_ascii_lowercase p))"
  by (simp add: path_key_eq nonempty_segments_def)

text \<open>Every configuration that passes validation builds a router, so a reload of a validated
  configuration never fails in the router and replaces the active router.\<close>

theorem validated_config_builds:
  assumes "validate (re_new RE) cfg = Inr ()"
  shows "\<exists>rt. router_build RE cfg = Inr rt \<and> router_rebuild RE rh cfg = (Inr (), rh\<lparr>rh_inner := rt\<rparr>)"
proof -
  from assms have "config_ok (re_new RE) cfg" by (simp add: validate_Inr)
  then have "regexes_ok RE (gc_routes cfg)"
    by (auto simp: regexes_ok_def route_ok_def dest!: config_ok_route split: path_match.splits)
  then obtain rt where "router_build RE cfg = Inr rt" using router_build_Inr_iff by blast
  then show ?thesis by (simp add: router_rebuild_def)
qed

theorem validated_config_builds_witness:
  "validate (re_new literal_regex) (sample_config ex_routes) = Inr () \<and>
   (\<exists>rt. router_build literal_regex (sample_config ex_routes) = Inr rt)"
  using validated_config_builds [OF ex_config_ok] ex_config_ok by blast

text \<open>Of several exact routes declared for one path only the first can ever be returned: whatever
  the request's method and headers, an exact route that is returned is the first one declared for the
  path, although the later ones may be the only ones whose predicates accept the request.\<close>

theorem exact_route_is_first:
  assumes "router_build RE cfg = Inr rt" and "match_request L RE rt path m h = Inr mt"
    and "rpath (mr_route mt) = Exact v"
  shows "List.find (\<lambda>r. exact_key (rpath r) = Some (path_key path)) (gc_routes cfg) = Some (mr_route mt)"
proof -
  from assms have "reference_match L RE (gc_routes cfg) path m h = Inr mt"
    by (simp add: match_request_built)
  then show ?thesis
  proof (cases rule: reference_match_cases)
    case longest
    from find_SomeD [OF this] assms(3) show ?thesis by (simp add: set_prefix_order)
  next
    case regex
    from find_SomeD [OF this] assms(3) show ?thesis by simp
  qed
qed

theorem exact_route_is_first_witness:
  "List.find (\<lambda>r. exact_key (rpath r) = Some (path_key ''/API//status/'')) ex_routes =
     Some (sample_route ''status'' (Exact ''/api/status'') None)"
proof -
  have "match_request alist_http literal_regex (ex_router ex_routes) ''/API//status/'' ''GET'' [] =
      Inr (matched_new (sample_route ''status'' (Exact ''/api/status'') None))"
    by (simp add: ex_match ex_status)
  from exact_route_is_first [OF ex_router_built this] show ?thesis by (simp add: matched_new_def)
qed

end
