(* ===== verification/Pipeline_Props.thy ===== *)
theory Pipeline_Props
  imports Responses Router_Props
begin

text \<open>
  What the pipeline guarantees for every request: an upstream is contacted only after all checks, at an endpoint of the
  pool of the route and with the route's header changes; every response is an error, the entry found or the upstream's
  answer; when handling panics or hangs, and that every other response made past the gate carries a request identifier;
  the permit of the gate is given back; metric calls fit their families.
\<close>

section \<open>The gate's permits\<close>

text \<open>Other requests leave the gate alone while this one runs.\<close>

definition quiet :: "('hm, 'hv, 'u, 're, 'cap, 'key, 'j, 'sem, 'r) request_env \<Rightarrow> bool" where
  "quiet E \<longleftrightarrow> (\<forall>n s. gs_concurrency (pe_others E n s) = gs_concurrency s)"

definition availability :: "'sem semaphore_lib \<Rightarrow> 'sem concurrency_limiter \<Rightarrow> nat \<times> (string \<Rightarrow> nat option)" where
  "availability S l = (sem_available S (cl_global l), \<lambda>r. map_option (sem_available S) (cl_routes l r))"

lemma acquire_parts:
  "acquire S Granted others w2 l r = acquire_route S w2 r (others (l\<lparr>cl_global := sem_take S (cl_global l)\<rparr>))"
  "w1 \<noteq> Granted \<Longrightarrow> \<exists>msg. acquire S w1 others w2 l r = (Inl msg, l)"
  by (simp add: acquire_def acquire_global_def split: unit.split)
    (cases w1; simp add: acquire_def acquire_global_def)

lemma acquire_drop_availability:
  assumes "semaphore_laws S" and "w1 = Granted \<longrightarrow> 0 < sem_available S (cl_global l)"
    and "\<And>sem. w2 = Granted \<Longrightarrow> cl_routes l r = Some sem \<Longrightarrow> 0 < sem_available S sem"
    and "acquire S w1 (\<lambda>l. l) w2 l r = (res, l')"
  shows "case res of Inl msg \<Rightarrow> availability S l' = availability S l
    | Inr p \<Rightarrow> availability S (permit_drop S p l') = availability S l"
proof (cases "w1 = Granted")
  case False
  with acquire_parts(2) [OF False, of S "\<lambda>l. l" w2 l r] assms(4) show ?thesis by auto
next
  case True
  let ?l = "l\<lparr>cl_global := sem_take S (cl_global l)\<rparr>"
  have put: "sem_available S (sem_put S (sem_take S s)) = sem_available S s" if "0 < sem_available S s" for s
    using that semaphore_rules(2,3) [OF assms(1)] by simp
  have g: "sem_available S (sem_put S (sem_take S (cl_global l))) = sem_available S (cl_global l)"
    using True assms(2) put by blast
  have a: "acquire_route S w2 r ?l = (res, l')" using True assms(4) by (simp add: acquire_parts(1))
  show ?thesis
  proof (cases "cl_routes l r")
    case None
    then have "res = Inr \<lparr>cp_route = None\<rparr>" "l' = ?l" using a by (auto simp: acquire_route_def)
    with g show ?thesis by (simp add: permit_drop_def release_global_def availability_def)
  next
    case (Some sem)
    show ?thesis
    proof (cases "w2 = Granted")
      case w2: True
      then have "sem_available S (sem_put S (sem_take S sem)) = sem_available S sem" using Some assms(3) put by blast
      moreover have "res = Inr \<lparr>cp_route = Some r\<rparr>" "l' = ?l\<lparr>cl_routes := (cl_routes l)(r \<mapsto> sem_take S sem)\<rparr>"
        using a w2 Some by (auto simp: acquire_route_def)
      ultimately show ?thesis using g Some
        by (simp add: permit_drop_def release_global_def availability_def fun_eq_iff)
    next
      case False
      with a Some g show ?thesis
        by (cases w2) (auto simp: acquire_route_def release_global_def availability_def)
    qed
  qed
qed

lemma proxy_gate:
  assumes "quiet E" and "proxy E i m req effs st = Ret (resp, effs', st')"
  shows "gs_concurrency st' = gs_concurrency st"
proof -
  note q = assms(1) [unfolded quiet_def, rule_format]
  show ?thesis
  proof (cases rule: proxy_cases [of st m E i req effs])
    case no_pool
    with assms(2) show ?thesis by (auto dest!: fail_parts)
  next
    case (send_failed pool e attempts pool')
    with assms(2) q show ?thesis by (auto simp: after_send_def dest!: fail_parts)
  next
    case (answered pool r el attempts pool' cache effs2)
    show ?thesis using assms(2) q unfolding answered(5) by (auto simp: rust_bind_eq after_send_def)
  qed (use assms(2) in simp_all)
qed

text \<open>The gate is as \<open>acquire\<close> left it at every stage.\<close>

lemma stage_gate:
  assumes "quiet E" and "acquired E m st = (Inr permit, l)"
  shows "at_check E st req = Some (m, ctx, st2) \<Longrightarrow> gs_concurrency st2 = l"
    and "at_lookup E st req = Some (m, st3) \<Longrightarrow> gs_concurrency st3 = l"
    and "at_proxy E st req = Some (m, st4) \<Longrightarrow> gs_concurrency st4 = l"
proof -
  note q = assms(1) [unfolded quiet_def, rule_format]
  show check: "gs_concurrency st2 = l" if "at_check E st req = Some (m, ctx, st2)" for ctx st2
    using that by (rule at_check_gate) (use q assms(2) in simp)
  show look: "gs_concurrency st3 = l" if "at_lookup E st req = Some (m, st3)" for st3
    using that by (rule at_lookup_check) (use q check in simp)
  show "gs_concurrency st4 = l" if "at_proxy E st req = Some (m, st4)"
    using that by (rule at_proxy_lookup) (use q look in simp)
qed

text \<open>A returning request drops the permit it got, if it got one, on the gate as \<open>acquire\<close> left it.\<close>

lemma handle_gate_cases:
  assumes "quiet E" and "handle E st req = Ret (resp, effs, st')"
  obtains (same) "gs_concurrency st' = gs_concurrency st"
  | (no_permit) m msg where "acquired E m st = (Inl msg, gs_concurrency st')"
  | (dropped) m permit l where "acquired E m st = (Inr permit, l)" "gs_concurrency st' = permit_drop (pe_sem E) permit l"
proof -
  note q = assms(1) [unfolded quiet_def, rule_format]
  show thesis
  proof (cases rule: handle_cases [of E st req])
    case unrouted
    with assms(2) show thesis by (intro same) (auto dest!: fail_parts)
  next
    case (refused m msg l)
    show thesis using assms(2) no_permit refused(2) q unfolding refused(3) by (auto simp: rust_bind_eq)
  next
    case (unauthenticated m permit l e keys)
    show thesis using assms(2) dropped [OF unauthenticated(2)] q unfolding unauthenticated(4)
      by (auto simp: bind_drop_permit dest!: fail_parts)
  next
    case (limited m ctx st2 permit l out rl)
    show thesis using assms(2) dropped [OF limited(2)] stage_gate(1) [OF assms(1) limited(2,1)] q unfolding limited(5)
      by (auto simp: rust_bind_eq drop_permit_def)
  next
    case (cached m st3 permit l e cache effs')
    show thesis using assms(2) dropped [OF cached(2)] stage_gate(2) [OF assms(1) cached(2,1)] q unfolding cached(5)
      by (auto simp: rust_bind_eq drop_permit_def)
  next
    case (proxied m st4 permit l effs')
    with assms(2) obtain x where p: "proxy E (request_id_of E (rq_headers req)) m req effs' st4 = Ret (resp, effs, x)"
      and x: "st' = x\<lparr>gs_concurrency := permit_drop (pe_sem E) permit (gs_concurrency x)\<rparr>" by (auto simp: bind_drop_permit)
    from proxy_gate [OF assms(1) p] stage_gate(3) [OF assms(1) proxied(2,1)] x dropped [OF proxied(2)] show thesis by simp
  qed (use assms(2) in simp)
qed

lemma handle_gate:
  assumes "quiet E" and "semaphore_laws (pe_sem E)"
    and "pe_wait_global E = Granted \<longrightarrow> 0 < sem_available (pe_sem E) (cl_global (gs_concurrency st))"
    and "\<And>r sem. pe_wait_route E = Granted \<Longrightarrow> cl_routes (gs_concurrency st) r = Some sem \<Longrightarrow> 0 < sem_available (pe_sem E) sem"
    and "handle E st req = Ret (resp, effs, st')"
  shows "availability (pe_sem E) (gs_concurrency st') = availability (pe_sem E) (gs_concurrency st)"
proof -
  have route: "0 < sem_available (pe_sem E) sem"
    if "pe_wait_route E = Granted" "cl_routes (gs_concurrency st) r = Some sem" for r sem
    using assms(4) that by blast
  have avail: "case res of Inl msg \<Rightarrow> availability (pe_sem E) l = availability (pe_sem E) (gs_concurrency st)
      | Inr p \<Rightarrow> availability (pe_sem E) (permit_drop (pe_sem E) p l) = availability (pe_sem E) (gs_concurrency st)"
    if "acquired E m st = (res, l)" for m res l
  proof (rule acquire_drop_availability [OF assms(2,3) route])
    show "acquire (pe_sem E) (pe_wait_global E) (\<lambda>l. l) (pe_wait_route E) (gs_concurrency st) (mr_route_id m) = (res, l)"
      using that assms(1) by (simp add: quiet_def)
  qed
  show ?thesis
    by (rule handle_gate_cases [OF assms(1,5)]) (use avail in fastforce)+
qed

section \<open>A concrete request\<close>


definition sample_env ::
  "((string \<times> string) list, string, string, string, string, unit, unit, nat, string \<Rightarrow> string option) request_env" where
  "sample_env =
     \<lparr>pe_libs = sample_libs, pe_regex = literal_regex, pe_sem = nat_semaphore, pe_json_error = (\<lambda>m. []),
      pe_auth = ex_auth_env, pe_auth_config = ex_auth_config, pe_cert = None, pe_uuid = ''id-1'',
      pe_wait_global = Granted, pe_wait_route = Granted, pe_rl_times = \<lparr>tm_new = 0, tm_consume = 0, tm_remaining = 0\<rparr>,
      pe_script = down_redis, pe_cache_t1 = 0, pe_cache_t2 = 0, pe_age_now = 0, pe_store_now = 0,
      pe_client = (\<lambda>rq k. Received 200 [] (Inr [111, 107])), pe_nanos = (\<lambda>k. 0), pe_upstream_elapsed = 0,
      pe_pool_others = id, pe_total_elapsed = 0, pe_others = (\<lambda>n s. s)\<rparr>"

definition sample_state :: "(string, nat, string \<Rightarrow> string option) gateway_state" where
  "sample_state =
     \<lparr>gs_router = \<lparr>rh_inner = ex_router ex_routes\<rparr>, gs_keys = None, gs_ratelimit = \<lparr>rlim_policies = Map.empty\<rparr>,
      gs_cache = empty_cache, gs_upstreams = registry_build (sample_config ex_routes),
      gs_concurrency = sample_limiter\<rparr>"

definition sample_with :: "(string \<times> string) list \<Rightarrow> ((string \<times> string) list, string) http_request" where
  "sample_with h = \<lparr>rq_method = ''GET'', rq_uri = ''/API//users/7'', rq_version = Http11, rq_headers = h, rq_body = []\<rparr>"

abbreviation sample_request :: "((string \<times> string) list, string) http_request" where
  "sample_request \<equiv> sample_with []"

definition sample_api :: route_config where
  "sample_api = sample_route ''api'' (Prefix ''/api'') None"

lemma sample_match:
  "match_request (pe_http sample_env) (pe_regex sample_env) (router_current (gs_router sample_state))
     (uri_path (pe_http sample_env) (rq_uri (sample_with h))) (rq_method (sample_with h)) (rq_headers (sample_with h)) =
   Inr (matched_new sample_api)"
  using ex_users by (simp add: sample_env_def sample_libs_def sample_state_def sample_with_def sample_api_def
      router_current_def ex_match) (simp add: alist_http_def)

lemma sample_env_sel:
  "pe_http sample_env = alist_http" "pe_wait_global sample_env = Granted" "pe_wait_route sample_env = Granted"
  "pe_sem sample_env = nat_semaphore" "pe_others sample_env n = (\<lambda>s. s)" "pe_pool_others sample_env = id"
  "pe_uuid sample_env = ''id-1''" "pe_client sample_env = (\<lambda>rq k. Received 200 [] (Inr [111, 107]))"
  by (simp_all add: sample_env_def sample_libs_def)

text \<open>What the request is on the wire.\<close>

definition sample_wire :: "(string \<times> string) list \<Rightarrow> ((string \<times> string) list, string) http_request" where
  "sample_wire h = clone_request alist_http ((apply_request_mutations alist_http header_mutations_default (sample_with h))
     \<lparr>rq_uri := ''http://127.0.0.1:9000/API//users/7''\<rparr>)"

lemma sample_send:
  assumes "rq = apply_request_mutations alist_http header_mutations_default (sample_with h)"
  shows "\<exists>pool'. send alist_http (pe_client sample_env) (pe_nanos sample_env) (pe_upstream_elapsed sample_env) id
      (pool_new ''backend'' sample_upstream) rq key =
      Ret (Inr (\<lparr>rs_status = 200, rs_headers = [], rs_body = [111, 107]\<rparr>, pe_upstream_elapsed sample_env), [sample_wire h], pool')"
proof -
  have retry: "retry_loop (\<lambda>rq k. Received 200 [] (Inr [111, 107])) ns nm ad t [] b r (Suc 0) 0 =
      (Inr \<lparr>rs_status = 200, rs_headers = [], rs_body = [111, 107]\<rparr>, [r], [])" for ns nm ad t b r
    by (subst retry_loop_stop) simp_all
  have uri: "rewrite_uri alist_http a x = Ret (''http://'' @ a @ x)" for a x by (simp add: rewrite_uri_def alist_http_def)
  have u: "rq_uri (sample_with h) = ''/API//users/7''" by (simp add: sample_with_def)
  show ?thesis
    by (simp add: retry uri send_def send_begin_def pool_new_def sample_upstream_def select_endpoint_def select_with_def
        available_endpoints_def is_available_def endpoint_new_def health_state_def health_from_u8_def wrr_pick_def
        effective_weight_def send_with_retry_def sample_env_sel Let_def update_endpoint_def conns_add_def assms u sample_wire_def)
qed

lemma sample_acquire:
  "\<exists>permit l. acquire nat_semaphore Granted (\<lambda>l. l) Granted (gs_concurrency sample_state) r = (Inr permit, l)"
  by (auto simp: acquire_parts acquire_route_def split: option.split)

lemma sample_registry: "registry_get (gs_upstreams sample_state) ''backend'' = Some (pool_new ''backend'' sample_upstream)"
  by (simp add: sample_state_def registry_build_def registry_get_def)

lemma sample_proxy:
  assumes "gs_upstreams st = gs_upstreams sample_state" and "rt_upstream rt = ''backend''" and "rt_load_balancing rt = None"
    and "rt_headers rt = header_mutations_default" and "mw_cache (rt_middleware rt) = None"
  shows "\<exists>resp st' evs. rs_status resp = 200 \<and> proxy sample_env i (matched_new rt) (sample_with h) effs st =
    Ret (resp, effs @ Sent (sample_wire h) # map Metric evs, st')"
proof -
  have k: "hash_key_of alist_http rt (pool_new ''backend'' sample_upstream) (rq_headers (sample_with h)) = None"
    by (simp add: hash_key_of_def assms(3) pool_new_def sample_upstream_def)
  have r: "registry_get (gs_upstreams st) ''backend'' = Some (pool_new ''backend'' sample_upstream)"
    using assms(1) sample_registry by simp
  let ?rq = "apply_request_mutations alist_http header_mutations_default (sample_with h)"
  let ?resp = "\<lparr>rs_status = 200, rs_headers = [], rs_body = [111, 107]\<rparr> :: (string \<times> string) list http_response"
  obtain pool' where s: "send alist_http (\<lambda>rq k. Received 200 [] (Inr [111, 107])) (pe_nanos sample_env)
      (pe_upstream_elapsed sample_env) id (pool_new ''backend'' sample_upstream) ?rq None =
      Ret (Inr (?resp, pe_upstream_elapsed sample_env), [sample_wire h], pool')"
    using sample_send [of ?rq h None] by (auto simp: sample_env_sel)
  obtain final where f: "build_upstream_response alist_http header_mutations_default ?resp = Ret final" and "rs_status final = 200"
    by (simp add: build_upstream_response_def alist_http_def)
  then show ?thesis
    by (auto simp: proxy_def Let_def matched_new_def mr_upstream_def mr_route_id_def sample_env_sel r store_def store_plan_def
        k s f assms(2,4,5) simp flip: map_append)
qed

lemma sample_handled:
  "\<exists>resp st' evs. rs_status resp = 200 \<and> handle sample_env sample_state (sample_with h) =
     Ret (resp, map Metric (record_cache_lookup ''api'' Bypass) @ Sent (sample_wire h) # map Metric evs, st')"
proof -
  obtain permit l where a: "acquire nat_semaphore Granted (\<lambda>l. l) Granted (gs_concurrency sample_state) ''api'' = (Inr permit, l)"
    using sample_acquire by blast
  let ?st = "sample_state\<lparr>gs_concurrency := l\<rparr>"
  let ?i = "request_id_of sample_env (rq_headers (sample_with h))"
  have mw: "rt_middleware sample_api = \<lparr>mw_auth = None, mw_rate_limit = None, mw_cache = None\<rparr>" "rt_id sample_api = ''api''"
    by (simp_all add: sample_api_def middleware_config_default_def)
  have api: "rt_upstream sample_api = ''backend''" "rt_load_balancing sample_api = None"
    "rt_headers sample_api = header_mutations_default" by (simp_all add: sample_api_def)
  obtain resp st' evs where ok: "rs_status resp = 200" and p: "proxy sample_env ?i (matched_new sample_api) (sample_with h)
      (map Metric (record_cache_lookup ''api'' Bypass)) ?st =
    Ret (resp, map Metric (record_cache_lookup ''api'' Bypass) @ Sent (sample_wire h) # map Metric evs, st')"
    using sample_proxy [of ?st sample_api ?i h "map Metric (record_cache_lookup ''api'' Bypass)"] mw(1) api by auto
  have "after_auth sample_env ?i (matched_new sample_api) (sample_with h) None ?st =
    proxy sample_env ?i (matched_new sample_api) (sample_with h) (map Metric (record_cache_lookup ''api'' Bypass)) ?st"
    by (simp add: after_auth_def Let_def rate_limit_check_def lookup_def matched_new_def mr_route_id_def mw sample_env_sel
        record_rate_limit_def)
  then have "admitted sample_env ?i (matched_new sample_api) (sample_with h) ?st =
    proxy sample_env ?i (matched_new sample_api) (sample_with h) (map Metric (record_cache_lookup ''api'' Bypass)) ?st"
    by (simp add: admitted_def Let_def auth_pipeline_run_def auth_run_def matched_new_def mw sample_env_sel)
  moreover have "mr_route_id (matched_new sample_api) = ''api''" by (simp add: mr_route_id_def matched_new_def mw)
  ultimately show ?thesis
    using sample_match a p ok by (auto simp: handle_def Let_def sample_env_sel drop_permit_def)
qed

section \<open>How a request ends\<close>

text \<open>The gate refuses.\<close>

definition gate_refuses ::
  "('hm, 'hv, 'u, 're, 'cap, 'key, 'j, 'sem, 'r) request_env \<Rightarrow> ('re, 'sem, 'r) gateway_state \<Rightarrow> ('hm, 'u) http_request \<Rightarrow> bool" where
  "gate_refuses E st req \<longleftrightarrow> (\<exists>m msg l. routed E st req = Inr m \<and> acquired E m st = (Inl msg, l))"

text \<open>The lookup finds an entry whose status is not a three-digit code.\<close>

definition bad_hit ::
  "('hm, 'hv, 'u, 're, 'cap, 'key, 'j, 'sem, 'r) request_env \<Rightarrow> ('re, 'sem, 'r) gateway_state \<Rightarrow> ('hm, 'u) http_request \<Rightarrow> bool" where
  "bad_hit E st req \<longleftrightarrow> (\<exists>m st3 e c. at_lookup E st req = Some (m, st3) \<and>
     request_lookup E req m (gs_cache st3) = Ret (Hit e, c) \<and> \<not> valid_status (ce_status e))"

text \<open>The pool of the route, as the request finds it, panics: its consistent-hash ring has no place, or the endpoint
  it selects has an address that makes no URI.\<close>

definition bad_pool ::
  "('hm, 'hv, 'u, 're, 'cap, 'key, 'j, 'sem, 'r) request_env \<Rightarrow> ('re, 'sem, 'r) gateway_state \<Rightarrow> ('hm, 'u) http_request \<Rightarrow> bool" where
  "bad_pool E st req \<longleftrightarrow> (\<exists>m st4 pool. at_proxy E st req = Some (m, st4) \<and>
     registry_get (gs_upstreams st4) (mr_upstream m) = Some pool \<and>
     ((\<exists>h v. uc_load_balancing (up_config pool) = ConsistentHashing h v \<and> filter is_available (up_endpoints pool) \<noteq> [] \<and>
         word_of_nat (length (filter is_available (up_endpoints pool))) * v = 0) \<or>
      (\<exists>i pool1. send_begin pool (hash_key_of (pe_http E) (mr_route m) pool (rq_headers req)) = Ret (Inr i, pool1) \<and>
         rewrite_uri (pe_http E) (es_address (up_endpoints pool1 ! i)) (rq_uri req) = Panic)))"

text \<open>The lookup hangs, or the store of the response does: the local store is full and its eviction waits for a lock the
  task holds itself.\<close>

definition lookup_hangs ::
  "('hm, 'hv, 'u, 're, 'cap, 'key, 'j, 'sem, 'r) request_env \<Rightarrow> ('re, 'sem, 'r) gateway_state \<Rightarrow> ('hm, 'u) http_request \<Rightarrow> bool" where
  "lookup_hangs E st req \<longleftrightarrow> (\<exists>m st3. at_lookup E st req = Some (m, st3) \<and> request_lookup E req m (gs_cache st3) = Hang)"

definition store_hangs ::
  "('hm, 'hv, 'u, 're, 'cap, 'key, 'j, 'sem, 'r) request_env \<Rightarrow> ('re, 'sem, 'r) gateway_state \<Rightarrow> ('hm, 'u) http_request \<Rightarrow> bool" where
  "store_hangs E st req \<longleftrightarrow> (\<exists>m st4 pool r el attempts pool'. at_proxy E st req = Some (m, st4) \<and>
     registry_get (gs_upstreams st4) (mr_upstream m) = Some pool \<and>
     request_send E req m pool = Ret (Inr (r, el), attempts, pool') \<and>
     request_store E req m r (gs_cache (after_send E (mr_upstream m) pool' st4)) = Hang)"

lemma request_send_panics:
  "request_send E req m pool = Panic \<longleftrightarrow>
     (\<exists>h v. uc_load_balancing (up_config pool) = ConsistentHashing h v \<and> filter is_available (up_endpoints pool) \<noteq> [] \<and>
        word_of_nat (length (filter is_available (up_endpoints pool))) * v = 0) \<or>
     (\<exists>i pool1. send_begin pool (hash_key_of (pe_http E) (mr_route m) pool (rq_headers req)) = Ret (Inr i, pool1) \<and>
        rewrite_uri (pe_http E) (es_address (up_endpoints pool1 ! i)) (rq_uri req) = Panic)"
proof -
  have "select_endpoint es lb key c = Panic \<longleftrightarrow> (\<exists>h v. lb = ConsistentHashing h v \<and> filter is_available es \<noteq> [] \<and>
      word_of_nat (length (filter is_available es)) * v = 0)" for es lb key c
    by (cases lb)
      (auto simp: select_endpoint_def select_with_def wrr_pick_def lc_pick_def ch_pick_def Let_def
        simp flip: length_available_filter length_greater_0_conv)
  then show ?thesis by (simp add: send_panics_iff)
qed

text \<open>The three outcomes of the proxy stage.\<close>

lemma proxy_ends:
  assumes "header_laws (pe_http E)" and "hv_from_str (pe_http E) i \<noteq> None"
  shows "proxy E i m req effs st = Panic \<longleftrightarrow>
      (\<exists>pool. registry_get (gs_upstreams st) (mr_upstream m) = Some pool \<and> request_send E req m pool = Panic)"
    and "proxy E i m req effs st = Hang \<longleftrightarrow>
      (\<exists>pool r el attempts pool'. registry_get (gs_upstreams st) (mr_upstream m) = Some pool \<and>
         request_send E req m pool = Ret (Inr (r, el), attempts, pool') \<and>
         request_store E req m r (gs_cache (after_send E (mr_upstream m) pool' st)) = Hang)"
    and "proxy E i m req effs st = Ret (resp, effs', st') \<Longrightarrow> has_id (pe_http E) (rs_headers resp)"
proof -
  have f: "fail E s msg i effs st \<noteq> Panic" "fail E s msg i effs st \<noteq> Hang"
    "fail E s msg i effs st = Ret (resp, effs', st') \<Longrightarrow> has_id (pe_http E) (rs_headers resp)" for s msg effs st resp effs' st'
    by (rule fail_Ret [OF assms, of s msg effs st], simp)+
  have b: "build_upstream_response (pe_http E) mut r \<noteq> Panic" "build_upstream_response (pe_http E) mut r \<noteq> Hang" for mut r
    using upstream_response_ok [OF assms(1), of mut r] by auto
  note all = f b has_id_inject [OF assms]
  show "proxy E i m req effs st = Panic \<longleftrightarrow>
      (\<exists>pool. registry_get (gs_upstreams st) (mr_upstream m) = Some pool \<and> request_send E req m pool = Panic)"
    by (cases rule: proxy_cases [of st m E i req effs]) (use all in \<open>auto simp: rust_bind_eq\<close>)
  show "proxy E i m req effs st = Hang \<longleftrightarrow>
      (\<exists>pool r el attempts pool'. registry_get (gs_upstreams st) (mr_upstream m) = Some pool \<and>
         request_send E req m pool = Ret (Inr (r, el), attempts, pool') \<and>
         request_store E req m r (gs_cache (after_send E (mr_upstream m) pool' st)) = Hang)"
    by (cases rule: proxy_cases [of st m E i req effs]) (use all in \<open>auto simp: rust_bind_eq\<close>)
  show "has_id (pe_http E) (rs_headers resp)" if run: "proxy E i m req effs st = Ret (resp, effs', st')"
  proof (cases rule: proxy_cases [of st m E i req effs])
    case no_pool
    with run f show ?thesis by metis
  next
    case (send_failed pool e attempts pool')
    with run f show ?thesis by metis
  next
    case (answered pool r el attempts pool' cache effs2)
    show ?thesis using run has_id_inject [OF assms] unfolding answered(5) by (auto simp: rust_bind_eq)
  qed (use run in simp_all)
qed

text \<open>Every outcome of a request, by the stage it got to.\<close>

lemma handle_ends:
  assumes "header_laws (pe_http E)" and "value_law (pe_http E)" and "visible_ascii (pe_uuid E)"
  shows "(handle E st req = Panic \<longleftrightarrow> bad_hit E st req \<or> bad_pool E st req) \<and>
    (handle E st req = Hang \<longleftrightarrow> lookup_hangs E st req \<or> store_hangs E st req) \<and>
    (\<forall>resp effs st'. handle E st req = Ret (resp, effs, st') \<longrightarrow>
       (has_id (pe_http E) (rs_headers resp) \<longleftrightarrow> \<not> gate_refuses E st req))"
proof -
  let ?i = "request_id_of E (rq_headers req)"
  note i = request_id_parses [OF assms(2,1,3), of "rq_headers req"]
  note inject = has_id_inject [OF assms(1) i]
  note stages = bad_hit_def bad_pool_def lookup_hangs_def store_hangs_def gate_refuses_def
  show ?thesis
  proof (cases rule: handle_cases [of E st req])
    case (unrouted e)
    obtain resp where "handle E st req = Ret (resp, [], st)" "has_id (pe_http E) (rs_headers resp)"
      using fail_Ret [OF assms(1) i, of 404 "''no route matched''" "[]" st] unrouted(2) by metis
    moreover have "at_lookup E st req = None" "at_proxy E st req = None"
      using unrouted(1) by (simp_all add: at_proxy_def at_lookup_def at_check_def)
    ultimately show ?thesis using unrouted(1) by (simp add: stages)
  next
    case (refused m msg l)
    obtain resp where "service_unavailable (pe_http E) (pe_json_error E) msg = Ret resp" "\<not> has_id (pe_http E) (rs_headers resp)"
      using service_unavailable_Ret [OF assms(1)] by metis
    moreover have "at_lookup E st req = None" "at_proxy E st req = None"
      using refused(1,2) by (simp_all add: at_proxy_def at_lookup_def at_check_def)
    ultimately show ?thesis using refused by (auto simp: stages)
  next
    case (unauthenticated m permit l e keys)
    let ?st2 = "pe_others E 2 ((pe_others E 1 (st\<lparr>gs_concurrency := l\<rparr>))\<lparr>gs_keys := keys\<rparr>)"
    obtain resp where "fail E (if valid_status (auth_status_code e) then auth_status_code e else 401) (auth_error_display e) ?i
        (map Metric (record_auth_failure (mr_route_id m) e)) ?st2 = Ret (resp, map Metric (record_auth_failure (mr_route_id m) e), ?st2)"
      "has_id (pe_http E) (rs_headers resp)" by (rule fail_Ret [OF assms(1) i])
    moreover have "at_lookup E st req = None" "at_proxy E st req = None"
      using unauthenticated(1-3) by (simp_all add: at_proxy_def at_lookup_def at_check_def Let_def)
    ultimately show ?thesis using unauthenticated by (auto simp: stages drop_permit_def)
  next
    case (limited m ctx st2 permit l out rl)
    obtain resp where "error_response (pe_http E) (pe_json_error E) 429 ''rate limit exceeded'' ?i = Ret resp"
      "has_id (pe_http E) (rs_headers resp)" by (rule error_response_Ret [OF assms(1) i])
    moreover note has_id_insert_parsed [OF assms(1) this(2)]
    moreover have "at_lookup E st req = None" "at_proxy E st req = None"
      using limited(1,3,4) by (simp_all add: at_proxy_def at_lookup_def)
    ultimately show ?thesis using limited(2,5) stage_routed(1) [OF limited(1)] by (auto simp: stages drop_permit_def)
  next
    case (look_hung m st3)
    then have "at_proxy E st req = None" by (simp add: at_proxy_def)
    with look_hung show ?thesis by (auto simp: stages)
  next
    case (cached m st3 permit l e cache effs)
    have none: "at_proxy E st req = None" using cached(1,3) by (simp add: at_proxy_def)
    have gate: "\<not> gate_refuses E st req" using stage_routed(2) [OF cached(1)] cached(2) by (simp add: gate_refuses_def)
    have panics: "bad_hit E st req \<longleftrightarrow> \<not> valid_status (ce_status e)" using cached(1,3) by (auto simp: bad_hit_def)
    have hangs: "\<not> lookup_hangs E st req" using cached(1,3) by (auto simp: lookup_hangs_def)
    show ?thesis
    proof (cases "valid_status (ce_status e)")
      case True
      with cached_response_ok [OF assms(1)] obtain resp where "build_cached_response (pe_http E) (pe_age_now E) e = Ret resp" by blast
      then show ?thesis using True none gate panics hangs cached(5) inject by (auto simp: bad_pool_def store_hangs_def drop_permit_def)
    next
      case False
      then have "build_cached_response (pe_http E) (pe_age_now E) e = Panic" by (simp add: build_cached_response_def)
      then show ?thesis using False none panics hangs cached(5) by (simp add: store_hangs_def)
    qed
  next
    case (proxied m st4 permit l effs)
    obtain st3 look cache where look: "at_lookup E st req = Some (m, st3)" "request_lookup E req m (gs_cache st3) = Ret (look, cache)"
      "\<forall>e. look \<noteq> Hit e" using proxied(1) by (rule at_proxy_lookup) blast
    then have "\<not> bad_hit E st req" "\<not> lookup_hangs E st req" by (auto simp: bad_hit_def lookup_hangs_def)
    moreover have "\<not> gate_refuses E st req" using stage_routed(3) [OF proxied(1)] proxied(2) by (simp add: gate_refuses_def)
    moreover have "bad_pool E st req \<longleftrightarrow>
        (\<exists>pool. registry_get (gs_upstreams st4) (mr_upstream m) = Some pool \<and> request_send E req m pool = Panic)"
      using proxied(1) by (simp add: bad_pool_def request_send_panics)
    ultimately show ?thesis
      using proxied(1,4) proxy_ends [OF assms(1) i, of m req effs st4]
      by (auto simp: bind_drop_permit store_hangs_def)
  qed
qed

lemma request_send_wired:
  assumes "header_laws (pe_http E)" and "request_send E req m pool = Ret (result, attempts, pool')" and "attempts \<noteq> []"
  obtains n rq where "attempts = replicate n rq" "1 \<le> n" "n \<le> pool_max_attempts pool"
    "request_changed (pe_http E) (rt_headers (mr_route m)) req rq"
    "length (up_endpoints pool) < 2 ^ 64 \<Longrightarrow> \<exists>e \<in> set (up_endpoints pool). is_available e \<and>
       addressed_to (pe_http E) (es_address e) (rq_uri req) (rq_uri rq)"
proof -
  obtain n rq where n: "attempts = replicate n rq" "1 \<le> n" "n \<le> pool_max_attempts pool" and rq: "sent_to (pe_http E) m req pool rq"
    by (rule request_send_wire [OF assms(2,3)])
  have "\<exists>e \<in> set (up_endpoints pool). is_available e \<and> addressed_to (pe_http E) (es_address e) (rq_uri req) (rq_uri rq)"
    if "length (up_endpoints pool) < 2 ^ 64"
  proof -
    from rq that obtain i where "i < length (up_endpoints pool)" "is_available (up_endpoints pool ! i)"
      "addressed_to (pe_http E) (es_address (up_endpoints pool ! i)) (rq_uri req) (rq_uri rq)"
      by (auto simp: sent_to_def clone_request_def)
    then show ?thesis using nth_mem by blast
  qed
  with that [OF n sent_to_changed [OF assms(1) rq]] show thesis by blast
qed

text \<open>The three kinds of responses, for the proxy stage.\<close>

lemma proxy_origin:
  assumes "header_laws (pe_http E)" and "metrics_ok effs" and "proxy E i m req effs st = Ret (resp, effs', st')"
  shows "gateway_made E resp \<and> (no_sends effs' \<or> rs_status resp \<in> {502, 504}) \<or>
    (\<exists>pool rq k. registry_get (gs_upstreams st) (mr_upstream m) = Some pool \<and>
       request_changed (pe_http E) (rt_headers (mr_route m)) req rq \<and>
       filter is_sent effs' = replicate (Suc k) (Sent rq) \<and>
       made_of_answer (pe_http E) (rt_headers (mr_route m)) (pe_client E rq k) resp)"
proof (cases rule: proxy_cases [of st m E i req effs])
  case no_pool
  with assms(3) have run: "fail E 502 ''upstream not configured'' i effs st = Ret (resp, effs', st')" by simp
  have "gateway_made E resp" by (rule fail_made [OF run]) simp
  with fail_parts [OF run] show ?thesis by simp
next
  case (send_failed pool e attempts pool')
  let ?s = "(case e of UpstreamTimeout _ \<Rightarrow> 504 | _ \<Rightarrow> 502) :: u16"
  have s: "?s \<in> {502, 504}" by (cases e) simp_all
  from send_failed assms(3) have run: "fail E ?s (core_error_display e) i (effs @ map Sent attempts)
      (after_send E (mr_upstream m) pool' st) = Ret (resp, effs', st')" by simp
  have "gateway_made E resp" by (rule fail_made [OF run]) (use s in auto)
  with fail_parts [OF run] s show ?thesis by simp
next
  case (answered pool r el attempts pool' cache effs2)
  obtain rq k where rq: "attempts = replicate (Suc k) rq"
    "pe_client E rq k = Received (rs_status r) (rs_headers r) (Inr (rs_body r))" using answered(2) by (rule send_answered)
  have ne: "attempts \<noteq> []" using rq(1) by simp
  obtain n rq' where "attempts = replicate n rq'" "1 \<le> n" and changed: "request_changed (pe_http E) (rt_headers (mr_route m)) req rq'"
    by (rule request_send_wired [OF assms(1) answered(2) ne]) blast
  with rq(1) have "rq' = rq" by (cases n) auto
  obtain resp0 where b: "build_upstream_response (pe_http E) (rt_headers (mr_route m)) r = Ret resp0"
    and resp: "resp = resp0\<lparr>rs_headers := inject_request_id (pe_http E) i (rs_headers resp0)\<rparr>"
    and effs': "effs' = effs @ map Sent attempts @ effs2"
    using assms(3) unfolding answered(5) by (auto simp: rust_bind_eq)
  have "filter is_sent effs' = map Sent attempts" using metrics_ok_sends [OF assms(2)] metrics_ok_sends [OF answered(4)] effs' by simp
  then have "filter is_sent effs' = replicate (Suc k) (Sent rq)" by (simp add: rq(1))
  with answered(1) changed \<open>rq' = rq\<close> upstream_response_made [OF assms(1) b, of i] rq(2) resp show ?thesis by metis
qed (use assms(3) in simp_all)

section \<open>Properties\<close>



text \<open>C12: What a client receives. Every response is one of three. It is an error of the gateway itself, with an error
  status and a JSON error body; then no upstream was contacted, or the status is 502 or 504. Or it is made of the very
  entry that the lookup found in the cache at that moment: its status, its body and its headers, marked \<open>X-Cache: HIT\<close>,
  and then no upstream was contacted. Or it is made of what the client of the upstream received for the last request on the
  wire, which went to the pool of the matched route: its status and its body unchanged, marked \<open>X-Cache: MISS\<close>, and every
  header but that one and \<open>x-request-id\<close> is the upstream's or the one the route sets.\<close>

theorem response_origin:
  assumes "handle E st req = Ret (resp, effs, st')" and "header_laws (pe_http E)"
  shows "gateway_made E resp \<and> (no_sends effs \<or> rs_status resp \<in> {502, 504}) \<or>
    (\<exists>m st3 cached c. at_lookup E st req = Some (m, st3) \<and> request_lookup E req m (gs_cache st3) = Ret (Hit cached, c) \<and>
       no_sends effs \<and> made_of_entry (pe_http E) cached resp) \<or>
    (\<exists>m st4 pool rq k. at_proxy E st req = Some (m, st4) \<and> registry_get (gs_upstreams st4) (mr_upstream m) = Some pool \<and>
       request_changed (pe_http E) (rt_headers (mr_route m)) req rq \<and>
       filter is_sent effs = replicate (Suc k) (Sent rq) \<and>
       made_of_answer (pe_http E) (rt_headers (mr_route m)) (pe_client E rq k) resp)"
proof (cases rule: handle_cases [of E st req])
  case (unrouted e)
  with assms(1) have run: "fail E 404 ''no route matched'' (request_id_of E (rq_headers req)) [] st = Ret (resp, effs, st')" by simp
  have "gateway_made E resp" by (rule fail_made [OF run]) simp
  with fail_parts [OF run] show ?thesis by simp
next
  case (refused m msg l)
  show ?thesis using assms(1) unfolding refused(3) by (auto simp: rust_bind_eq gateway_made_def service_unavailable_def)
next
  case (unauthenticated m permit l e keys)
  have s: "auth_status_code e \<in> {401, 403, 404, 429, 500, 502, 503, 504}" by (cases e) simp_all
  obtain x where run: "fail E (auth_status_code e) (auth_error_display e) (request_id_of E (rq_headers req))
      (map Metric (record_auth_failure (mr_route_id m) e))
      (pe_others E 2 ((pe_others E 1 (st\<lparr>gs_concurrency := l\<rparr>))\<lparr>gs_keys := keys\<rparr>)) = Ret (resp, effs, x)"
    using assms(1) unfolding unauthenticated(4) by (auto simp: bind_drop_permit)
  have "gateway_made E resp" by (rule fail_made [OF run s])
  with fail_parts [OF run] show ?thesis by simp
next
  case (limited m ctx st2 permit l out rl)
  obtain r where r: "error_response (pe_http E) (pe_json_error E) 429 ''rate limit exceeded'' (request_id_of E (rq_headers req)) = Ret r"
    and resp: "resp = r\<lparr>rs_headers := foldl (insert_parsed (pe_http E)) (rs_headers r) (to_headers out)\<rparr>"
    and effs: "effs = map Metric (record_rate_limit (mr_route_id m) out)"
    using assms(1) unfolding limited(5) by (auto simp: rust_bind_eq drop_permit_def)
  have "gateway_made E resp" unfolding resp by (rule error_response_made(1) [OF r]) simp
  with effs show ?thesis by simp
next
  case (cached m st3 permit l e cache effs')
  obtain r where r: "build_cached_response (pe_http E) (pe_age_now E) e = Ret r" and effs: "effs = effs'"
    and resp: "resp = r\<lparr>rs_headers := inject_request_id (pe_http E) (request_id_of E (rq_headers req)) (rs_headers r)\<rparr>"
    using assms(1) unfolding cached(5) by (auto simp: rust_bind_eq drop_permit_def)
  have "made_of_entry (pe_http E) e resp" unfolding resp by (rule cached_response_made [OF assms(2) r])
  with cached(1,3) metrics_ok_sends [OF cached(4)] effs show ?thesis by blast
next
  case (proxied m st4 permit l effs')
  obtain x where "proxy E (request_id_of E (rq_headers req)) m req effs' st4 = Ret (resp, effs, x)"
    using assms(1) unfolding proxied(4) by (auto simp: bind_drop_permit)
  from proxy_origin [OF assms(2) proxied(3) this] proxied(1) show ?thesis by blast
qed (use assms(1) in simp)

theorem response_origin_witness:
  "\<exists>resp effs st' (m :: matched_route). handle sample_env sample_state sample_request = Ret (resp, effs, st') \<and>
     filter is_sent effs = [Sent (sample_wire [])] \<and>
     made_of_answer alist_http (rt_headers (mr_route m)) (Received 200 [] (Inr [111, 107])) resp"
proof -
  obtain resp st' evs where ok: "rs_status resp = 200" and h: "handle sample_env sample_state sample_request =
     Ret (resp, map Metric (record_cache_lookup ''api'' Bypass) @ Sent (sample_wire []) # map Metric evs, st')"
    using sample_handled by blast
  have laws: "header_laws (pe_http sample_env)" by (simp add: alist_http_laws sample_env_sel)
  from ok have "\<not> gateway_made sample_env resp" by (simp add: gateway_made_def)
  with response_origin [OF h laws] obtain m :: matched_route where
    "made_of_answer (pe_http sample_env) (rt_headers (mr_route m)) (pe_client sample_env (sample_wire []) 0) resp" by fastforce
  with h show ?thesis by (auto simp: sample_env_sel)
qed



text \<open>C25: Handling a request gives back what it took from the gate: if no other request uses the gate meanwhile, the global
  semaphore and every route's semaphore have as many permits afterwards as before, on every path, refusals and
  errors included.
\<close>

theorem handle_releases_permit:
  assumes "quiet E" and "semaphore_laws (pe_sem E)"
    and "pe_wait_global E = Granted \<longrightarrow> 0 < sem_available (pe_sem E) (cl_global (gs_concurrency st))"
    and "\<And>r sem. pe_wait_route E = Granted \<Longrightarrow> cl_routes (gs_concurrency st) r = Some sem \<Longrightarrow> 0 < sem_available (pe_sem E) sem"
    and "handle E st req = Ret (resp, effs, st')"
  shows "sem_available (pe_sem E) (cl_global (gs_concurrency st')) = sem_available (pe_sem E) (cl_global (gs_concurrency st)) \<and>
    (\<forall>r. map_option (sem_available (pe_sem E)) (cl_routes (gs_concurrency st') r) =
       map_option (sem_available (pe_sem E)) (cl_routes (gs_concurrency st) r))"
  using handle_gate [OF assms] by (simp add: availability_def fun_eq_iff)

theorem handle_releases_permit_witness:
  "\<exists>resp effs st'. handle sample_env sample_state sample_request = Ret (resp, effs, st') \<and>
     sem_available nat_semaphore (cl_global (gs_concurrency st')) = 10000"
proof -
  obtain resp effs st' where h: "handle sample_env sample_state sample_request = Ret (resp, effs, st')"
    using sample_handled by blast
  have g: "sem_available nat_semaphore (cl_global (gs_concurrency sample_state)) = 10000"
    by (simp add: sample_state_def sample_limiter_def nat_semaphore_def)
  have r: "cl_routes (gs_concurrency sample_state) r = None" for r by (simp add: sample_state_def sample_limiter_def)
  have q: "quiet sample_env" by (simp add: quiet_def sample_env_sel)
  have "sem_available (pe_sem sample_env) (cl_global (gs_concurrency st')) = 10000"
    using handle_releases_permit [OF q _ _ _ h] nat_semaphore_laws g r by (simp add: sample_env_sel)
  with h show ?thesis by (auto simp: sample_env_sel)
qed

text \<open>C39: Every metric call made while a request is handled names a registered family, has as many label values as the family
  has labels and does what a family of that kind supports, so recording never panics.
\<close>

theorem handle_metrics_fit:
  assumes "handle E st req = Ret (resp, effs, st')" and "Metric ev \<in> set effs"
  shows "\<exists>f \<in> set metric_families. mf_name f = me_family ev \<and> length (me_labels ev) = length (mf_labels f) \<and>
    action_fits (mf_kind f) (me_action ev)"
proof -
  have "event_ok ev" using handle_effects [OF assms(1)] assms(2) by blast
  then show ?thesis by (auto simp: event_ok_def dest: find_SomeD split: option.splits)
qed

theorem handle_metrics_fit_witness:
  "\<exists>resp effs st' ev. handle sample_env sample_state sample_request = Ret (resp, effs, st') \<and> Metric ev \<in> set effs \<and>
     (\<exists>f \<in> set metric_families. mf_name f = me_family ev \<and> length (me_labels ev) = length (mf_labels f))"
proof -
  let ?ev = "event ''stateform_cache_lookups_total'' [''api'', ''bypass''] Inc"
  obtain resp st' effs where h: "handle sample_env sample_state sample_request = Ret (resp, effs, st')" "Metric ?ev \<in> set effs"
    using sample_handled by (force simp: record_cache_lookup_def)
  from handle_metrics_fit [OF h] h show ?thesis by blast
qed

end
