(* ===== verification/Gateway_Rate.thy ===== *)
theory Gateway_Rate
  imports Pipeline_Props
begin

text \<open>
  The rate limit seen from the upstreams: how many requests of one identity on one policy the gateway lets through to its
  pools. Requests run concurrently, each with its own view of the state; what orders them is the limiter, where the
  checks happen one after the other. \<open>checks_linear\<close> lists requests in the order of their checks: each check
  finds the limiter as the check before it left it. The requests that never reach the limiter are not in the list; they
  contact no upstream.
\<close>

section \<open>The check of a request\<close>

text \<open>A request counts as one that got to its upstream when it put something on the wire; one that hangs counts too, since it
  may have.\<close>

definition contacts ::
  "('hm, 'hv, 'u, 're, 'cap, 'key, 'j, 'sem, 'r) request_env \<Rightarrow> ('re, 'sem, 'r) gateway_state \<Rightarrow> ('hm, 'u) http_request \<Rightarrow> bool" where
  "contacts E st req \<longleftrightarrow> (case handle E st req of Panic \<Rightarrow> False | Hang \<Rightarrow> True | Ret (resp, effs, st') \<Rightarrow> \<not> no_sends effs)"

lemma builder_headers_not_Hang [simp]: "builder_headers L h kvs \<noteq> Hang"
proof (induction kvs arbitrary: h)
  case (Cons kv kvs)
  obtain n v where "kv = (n, v)" by fastforce
  with Cons show ?case by (cases "hv_from_str L v") simp_all
qed simp

lemma hang_looked_up:
  assumes "handle E st req = Hang"
  shows "at_lookup E st req \<noteq> None"
proof -
  have e: "error_response (pe_http E) j s msg i \<noteq> Hang" "fail E s msg i effs st \<noteq> Hang"
    "service_unavailable (pe_http E) j msg \<noteq> Hang" for j s msg i effs st
    by (simp_all add: error_response_def fail_def service_unavailable_def rust_bind_eq split: option.split)
  show ?thesis
  proof (cases rule: handle_cases [of E st req])
    case unrouted
    with assms e show ?thesis by simp
  next
    case (refused m msg l)
    show ?thesis using assms e unfolding refused(3) by (auto simp: rust_bind_eq)
  next
    case (unauthenticated m permit l x keys)
    show ?thesis using assms e unfolding unauthenticated(4) by (auto simp: bind_drop_permit)
  next
    case (limited m ctx st2 permit l out rl)
    show ?thesis using assms e unfolding limited(5) by (auto simp: rust_bind_eq drop_permit_def)
  next
    case (proxied m st4 permit l effs)
    from proxied(1) show ?thesis by (rule at_proxy_lookup) simp
  qed simp_all
qed

text \<open>A request contacts an upstream only if its check let it through or failed.\<close>

lemma sent_checked:
  assumes "contacts E st req"
  obtains m ctx st2 r rl' where "at_check E st req = Some (m, ctx, st2)" "request_check E req m ctx (gs_ratelimit st2) = (r, rl')"
    "\<And>out. r = Inr out \<Longrightarrow> ro_allowed out"
proof -
  have "at_lookup E st req \<noteq> None"
  proof (cases "handle E st req")
    case Hang
    then show ?thesis by (rule hang_looked_up)
  next
    case (Ret x)
    obtain resp effs st' where x: "x = (resp, effs, st')" by (cases x)
    have "\<not> no_sends effs" using assms Ret x by (simp add: contacts_def)
    with handle_effects [OF Ret [unfolded x]] obtain m st4 where "at_proxy E st req = Some (m, st4)" by blast
    then show ?thesis by (rule at_proxy_lookup) simp
  qed (use assms in \<open>simp add: contacts_def\<close>)
  then obtain m st3 where "at_lookup E st req = Some (m, st3)" by auto
  then show thesis by (rule at_lookup_check) (rule that)
qed

section \<open>Requests in the order of their checks\<close>

type_synonym ('hm, 'hv, 'u, 're, 'cap, 'key, 'j, 'sem, 'r) served =
  "('hm, 'hv, 'u, 're, 'cap, 'key, 'j, 'sem, 'r) request_env \<times> ('re, 'sem, 'r) gateway_state \<times> ('hm, 'u) http_request"

inductive checks_linear :: "rate_limiter \<Rightarrow> ('hm, 'hv, 'u, 're, 'cap, 'key, 'j, 'sem, 'r) served list \<Rightarrow> bool" where
  no_checks: "checks_linear rl []"
| next_check: "at_check E st req = Some (m, ctx, st2) \<Longrightarrow> request_check E req m ctx (gs_ratelimit st2) = (r, rl') \<Longrightarrow>
     checks_linear rl' xs \<Longrightarrow> checks_linear (gs_ratelimit st2) ((E, st, req) # xs)"

inductive_cases checks_linear_ConsE: "checks_linear rl ((E, st, req) # xs)"

text \<open>The bucket a request draws from under a policy, with the two clock readings of its check.\<close>

definition check_event :: "string \<Rightarrow> ('hm, 'hv, 'u, 're, 'cap, 'key, 'j, 'sem, 'r) served \<Rightarrow> l1_event option" where
  "check_event policy = (\<lambda>(E, st, req).
     case at_check E st req of
       None \<Rightarrow> None
     | Some (m, ctx, _) \<Rightarrow>
         (case mw_rate_limit (rt_middleware (mr_route m)) of
            None \<Rightarrow> None
          | Some rf \<Rightarrow>
              if rl_policy rf = policy
              then Some (derive_key (pe_http E) (mr_route_id m) ctx (rq_headers req), tm_new (pe_rl_times E), tm_consume (pe_rl_times E))
              else None))"

definition sent_by :: "string \<Rightarrow> string \<Rightarrow> ('hm, 'hv, 'u, 're, 'cap, 'key, 'j, 'sem, 'r) served \<Rightarrow> bool" where
  "sent_by policy k x \<longleftrightarrow> (\<exists>t. check_event policy x = Some (k, t)) \<and> (case x of (E, st, req) \<Rightarrow> contacts E st req)"

lemma request_check_policy:
  assumes "request_check E req m ctx rl = (r, rl')" and "rlim_policies rl policy = Some pol"
    and "at_check E st req = Some (m, ctx, st2)"
  shows "case check_event policy (E, st, req) of
      None \<Rightarrow> rlim_policies rl' policy = Some pol
    | Some (k, t0, t) \<Rightarrow> (\<exists>a l1'. l1_limiter_check t0 t k (ps_l1 pol) = (a, l1') \<and>
        rlim_policies rl' policy = Some (pol\<lparr>ps_l1 := l1'\<rparr>) \<and> (\<exists>out. r = Inr out \<and> (ro_allowed out \<longrightarrow> a)))"
proof (cases "mw_rate_limit (rt_middleware (mr_route m))")
  case None
  with assms show ?thesis by (auto simp: rate_limit_check_def check_event_def)
next
  case (Some rf)
  let ?k = "derive_key (pe_http E) (mr_route_id m) ctx (rq_headers req)"
  show ?thesis
  proof (cases "rl_policy rf = policy")
    case True
    obtain a l1' where "l1_limiter_check (tm_new (pe_rl_times E)) (tm_consume (pe_rl_times E)) ?k (ps_l1 pol) = (a, l1')" by fastforce
    with assms Some True show ?thesis
      by (auto simp: rate_limit_check_def check_event_def Let_def split: if_splits)
  next
    case False
    with assms Some show ?thesis
      by (auto simp: rate_limit_check_def check_event_def Let_def split: if_splits option.splits prod.splits)
  qed
qed

text \<open>The checks of a policy are a run of its local limiter, and a request that was sent is one the limiter passed.\<close>

lemma checks_are_l1_run:
  assumes "checks_linear rl xs" and "rlim_policies rl policy = Some pol"
  shows "\<exists>rs l'. l1_run (List.map_filter (check_event policy) xs) (ps_l1 pol) = (rs, l') \<and>
    length (filter (sent_by policy k) xs) \<le> passed (key_results k rs)"
  using assms
proof (induction rl xs arbitrary: pol rule: checks_linear.induct)
  case (no_checks rl)
  then show ?case by (simp add: map_filter_simps key_results_def)
next
  case (next_check E st req m ctx st2 r rl' xs)
  note step = request_check_policy [OF next_check.hyps(2) next_check.prems next_check.hyps(1)]
  have passed: "ro_allowed out" if "contacts E st req" "r = Inr out" for out
    by (rule sent_checked [OF that(1)]) (use next_check.hyps(1,2) that(2) in auto)
  show ?case
  proof (cases "check_event policy (E, st, req)")
    case None
    with step next_check.IH show ?thesis by (simp add: map_filter_simps sent_by_def)
  next
    case (Some ev)
    obtain k' t0 t where ev: "ev = (k', t0, t)" by (cases ev)
    with Some step obtain a l1' out where l1: "l1_limiter_check t0 t k' (ps_l1 pol) = (a, l1')"
      "rlim_policies rl' policy = Some (pol\<lparr>ps_l1 := l1'\<rparr>)" "r = Inr out" "ro_allowed out \<longrightarrow> a" by auto
    from next_check.IH [OF l1(2)] obtain rs l' where rs: "l1_run (List.map_filter (check_event policy) xs) l1' = (rs, l')"
      "length (filter (sent_by policy k) xs) \<le> passed (key_results k rs)" by auto
    have "sent_by policy k (E, st, req) \<Longrightarrow> a \<and> k' = k"
      using passed l1(3,4) Some ev by (auto simp: sent_by_def)
    with rs l1(1) Some ev show ?thesis by (auto simp: map_filter_simps key_results_def)
  qed
qed

section \<open>Properties\<close>

text \<open>C14: The rate limit protects the upstreams. Take any requests that reach the limiter, in the order of their checks, however
  else they overlap and end. Of the requests that draw from one bucket (one policy, route and identity) the number that
  contact an upstream (or hang) is at most the capacity plus the refill rate times the seconds between the first and the last of
  their checks, up to the rounding of binary64 arithmetic, whatever the distributed layer, the cache and the other
  identities do.\<close>

theorem upstream_rate_limited:
  assumes "checks_linear rl xs" and "rlim_policies rl policy = Some \<lparr>ps_l1 = l1_limiter_new cfg, ps_l2 = l2\<rparr>"
    and "evs = List.map_filter (check_event policy) xs"
    and "filter (\<lambda>e. fst e = k) evs = (k, t0, t) # rest" and "sorted (t0 # key_times k evs)"
    and "c = u64_as_f64 (tb_capacity cfg)" and "r = u64_as_f64 (tb_refill_rate cfg)"
  shows "of_nat (length (filter (sent_by policy k) xs)) \<le>
    c + of_nat (last (key_times k evs) - t0) / 1000000000 * r * (1 + f64_eps) ^ 3
      + of_nat (length (key_times k evs)) * (2 * f64_eps * c)"
proof -
  obtain rs l' where run: "l1_run evs (l1_limiter_new cfg) = (rs, l')"
    and "length (filter (sent_by policy k) xs) \<le> passed (key_results k rs)"
    using checks_are_l1_run [OF assms(1,2), of k] by (auto simp: assms(3))
  then have "of_nat (length (filter (sent_by policy k) xs)) \<le> (of_nat (passed (key_results k rs)) :: f64)" by simp
  also note l1_rate_bound [OF run assms(4-7)]
  finally show ?thesis .
qed

definition limited_route :: route_config where
  "limited_route = (sample_route ''api'' (Prefix ''/api'') None)
     \<lparr>rt_middleware := \<lparr>mw_auth = None, mw_rate_limit = Some \<lparr>rl_policy = ''std''\<rparr>, mw_cache = None\<rparr>\<rparr>"

definition limited_state :: "(string, nat, string \<Rightarrow> string option) gateway_state" where
  "limited_state = sample_state\<lparr>gs_router := \<lparr>rh_inner = ex_router [limited_route]\<rparr>, gs_ratelimit := ex_limiter\<rparr>"

lemma limited_match:
  "match_request (pe_http sample_env) (pe_regex sample_env) (router_current (gs_router limited_state))
     (uri_path (pe_http sample_env) (rq_uri sample_request)) (rq_method sample_request) (rq_headers sample_request) =
   Inr (matched_new limited_route)"
proof -
  have "route_predicates alist_http literal_regex ''GET'' [] limited_route"
    by (simp add: route_predicates_def matches_predicates_def method_matches_def limited_route_def)
  moreover have "rpath limited_route = Prefix ''/api''" by (simp add: limited_route_def)
  ultimately have "reference_match alist_http literal_regex [limited_route] ''/API//users/7'' ''GET'' [] =
      Inr (matched_new limited_route)"
    by (simp add: ex_eval)
  then show ?thesis
    by (simp add: sample_env_def sample_libs_def limited_state_def sample_with_def router_current_def ex_match) (simp add: alist_http_def)
qed

lemma limited_check:
  "\<exists>rl'. request_check sample_env sample_request (matched_new limited_route) None ex_limiter =
     (Inr \<lparr>ro_allowed = True, ro_remaining = 0, ro_limit = 5, ro_retry_after_ms = 0, ro_denied_by = None\<rparr>, rl')"
proof -
  have "u64_as_f64 5 = 5" "u64_as_f64 1 = 1" by (simp_all add: u64_as_f64_exact)
  moreover from this have "f64_round 5 = 5" by (simp add: u64_as_f64_def)
  ultimately have "bucket_refilled (bucket_new ex_bucket 0) 0 = 5"
    by (simp add: bucket_refilled_def bucket_new_def ex_bucket_def f64_add_def f64_mul_def as_secs_f64_def)
  then show ?thesis
    by (simp add: rate_limit_check_def matched_new_def limited_route_def ex_limiter_def sample_env_def
        l1_limiter_check_def l1_limiter_new_def bucket_consume_def Let_def l2_check_def l2_check_inner_def down_redis_def map_err_def
        l1_limiter_capacity_def ex_bucket_def)
qed

lemma limited_handled:
  "contacts sample_env limited_state sample_request"
  "\<exists>st2. at_check sample_env limited_state sample_request = Some (matched_new limited_route, None, st2) \<and> gs_ratelimit st2 = ex_limiter"
proof -
  obtain permit l where a: "acquire nat_semaphore Granted (\<lambda>l. l) Granted (gs_concurrency sample_state) ''api'' = (Inr permit, l)"
    using sample_acquire by blast
  have route: "mw_auth (rt_middleware limited_route) = None" "mw_cache (rt_middleware limited_route) = None" "rt_id limited_route = ''api''"
    "rt_upstream limited_route = ''backend''" "rt_load_balancing limited_route = None" "rt_headers limited_route = header_mutations_default"
    by (simp_all add: limited_route_def)
  have st: "gs_concurrency limited_state = gs_concurrency sample_state" "gs_ratelimit limited_state = ex_limiter"
    "gs_upstreams limited_state = gs_upstreams sample_state"
    by (simp_all add: limited_state_def)
  show "\<exists>st2. at_check sample_env limited_state sample_request = Some (matched_new limited_route, None, st2) \<and> gs_ratelimit st2 = ex_limiter"
    using limited_match a route st
    by (simp add: at_check_def sample_env_sel mr_route_id_def auth_pipeline_run_def auth_run_def matched_new_def Let_def)
  obtain rl' where c: "request_check sample_env sample_request (matched_new limited_route) None ex_limiter =
     (Inr \<lparr>ro_allowed = True, ro_remaining = 0, ro_limit = 5, ro_retry_after_ms = 0, ro_denied_by = None\<rparr>, rl')"
    using limited_check by blast
  let ?st = "limited_state\<lparr>gs_concurrency := l, gs_ratelimit := rl'\<rparr>" and ?i = "request_id_of sample_env (rq_headers sample_request)"
  let ?effs = "map Metric (record_rate_limit ''api'' \<lparr>ro_allowed = True, ro_remaining = 0, ro_limit = 5, ro_retry_after_ms = 0,
      ro_denied_by = None\<rparr>) @ map Metric (record_cache_lookup ''api'' Bypass)"
  have adm: "admitted sample_env ?i (matched_new limited_route) sample_request (limited_state\<lparr>gs_concurrency := l\<rparr>) =
      proxy sample_env ?i (matched_new limited_route) sample_request ?effs ?st"
    using route st c
    by (simp add: admitted_def after_auth_def Let_def auth_pipeline_run_def auth_run_def matched_new_def sample_env_sel
        lookup_def mr_route_id_def)
  obtain resp st' evs where p: "proxy sample_env ?i (matched_new limited_route) sample_request ?effs ?st =
      Ret (resp, ?effs @ Sent (sample_wire []) # map Metric evs, st')"
    using sample_proxy [of ?st limited_route ?i "[]" ?effs] route st by auto
  have "handle sample_env limited_state sample_request = rust_bind
      (admitted sample_env ?i (matched_new limited_route) sample_request (limited_state\<lparr>gs_concurrency := l\<rparr>)) (drop_permit sample_env permit)"
    using limited_match a route st by (simp add: handle_def Let_def sample_env_sel mr_route_id_def matched_new_def)
  then show "contacts sample_env limited_state sample_request"
    unfolding adm p by (simp add: drop_permit_def contacts_def)
qed

theorem upstream_rate_limited_witness:
  "\<exists>xs :: ((string \<times> string) list, string, string, string, string, unit, unit, nat, string \<Rightarrow> string option) served list.
      checks_linear ex_limiter xs \<and> length xs = 1 \<and> (\<exists>k. filter (sent_by ''std'' k) xs = xs \<and>
     of_nat (length (filter (sent_by ''std'' k) xs)) \<le> 5 + 2 * f64_eps * (5 :: f64))"
proof -
  obtain st2 where st2: "at_check sample_env limited_state sample_request = Some (matched_new limited_route, None, st2)"
    "gs_ratelimit st2 = ex_limiter" using limited_handled(2) by blast
  obtain out rl' where c: "request_check sample_env sample_request (matched_new limited_route) None (gs_ratelimit st2) = (Inr out, rl')"
    unfolding st2(2) using limited_check by blast
  let ?xs = "[(sample_env, limited_state, sample_request)]"
  let ?k = "derive_key alist_http ''api'' (None :: unit auth_context option) (rq_headers sample_request)"
  have lin: "checks_linear ex_limiter ?xs"
    using next_check [OF st2(1) c no_checks] unfolding st2(2) .
  have ev: "check_event ''std'' (sample_env, limited_state, sample_request) = Some (?k, 0, 0)"
    by (simp add: check_event_def st2(1) matched_new_def mr_route_id_def limited_route_def sample_env_sel)
      (simp add: sample_env_def)
  have evs: "List.map_filter (check_event ''std'') ?xs = [(?k, 0, 0)]" using ev by (simp add: map_filter_simps)
  have sent: "filter (sent_by ''std'' ?k) ?xs = ?xs" using ev limited_handled(1) by (simp add: sent_by_def)
  have cfg: "u64_as_f64 (tb_capacity ex_bucket) = 5" by (simp add: ex_bucket_def u64_as_f64_exact)
  have bound: "of_nat (length (filter (sent_by ''std'' ?k) ?xs)) \<le> 5 + 2 * f64_eps * (5 :: f64)"
    using upstream_rate_limited [OF lin _ evs [symmetric], of ex_bucket "TokenBucket 10 1" ?k 0 0 "[]", OF _ _ _ cfg [symmetric] refl]
    by (simp add: ex_limiter_def key_times_def)
  have "length ?xs = 1" by simp
  with lin sent bound show ?thesis by blast
qed

end
