(* ===== verification/Guards.thy ===== *)
theory Guards
  imports Upstream
begin

text \<open>
  Counters held up by guards: the pattern of \<open>DrainGuard\<close>, of the connection counts and of the gauges of
  the gateway. \<open>enter\<close> runs when a guard is made and \<open>leave\<close> when it is dropped. The locale \<open>guard_counter\<close>
  is the contract of the two operations; its lemma says that however the two interleave the counter shows
  the number of live guards. It is interpreted on the connection counts here and on the drain counter and
  the metrics gauges in their theories.
\<close>

datatype guard_event = Enter | Leave

text \<open>A sequence of events that never drops a guard that was not made, and the guards it leaves alive.\<close>

fun live_guards :: "nat \<Rightarrow> guard_event list \<Rightarrow> nat option" where
  "live_guards n [] = Some n"
| "live_guards n (Enter # es) = live_guards (Suc n) es"
| "live_guards n (Leave # es) = (if n = 0 then None else live_guards (n - 1) es)"

fun guard_run :: "('s \<Rightarrow> 's) \<Rightarrow> ('s \<Rightarrow> 's) \<Rightarrow> guard_event list \<Rightarrow> 's \<Rightarrow> 's" where
  "guard_run enter leave [] s = s"
| "guard_run enter leave (Enter # es) s = guard_run enter leave es (enter s)"
| "guard_run enter leave (Leave # es) s = guard_run enter leave es (leave s)"

locale guard_counter =
  fixes enter leave :: "'s \<Rightarrow> 's" and counter :: "'s \<Rightarrow> 'a::len word"
  assumes counter_enter: "counter (enter s) = counter s + 1"
    and counter_leave: "counter (leave s) = counter s - 1"
begin

lemma guard_run_counts:
  "live_guards n es = Some m \<Longrightarrow> counter s = word_of_nat n \<Longrightarrow> counter (guard_run enter leave es s) = word_of_nat m"
proof (induction es arbitrary: n s)
  case (Cons e es)
  show ?case
  proof (cases e)
    case Enter
    with Cons.prems Cons.IH [of "Suc n" "enter s"] show ?thesis by (simp add: counter_enter)
  next
    case Leave
    with Cons.prems have "n \<noteq> 0" "live_guards (n - 1) es = Some m" by (auto split: if_splits)
    moreover have "counter (leave s) = word_of_nat (n - 1)"
      using Cons.prems(2) \<open>n \<noteq> 0\<close> word_of_nat_pred [of n, where 'a = 'a] by (simp add: counter_leave)
    ultimately show ?thesis using Cons.IH [of "n - 1" "leave s"] Leave by simp
  qed
qed simp

lemma guard_run_zero_iff:
  assumes "live_guards 0 es = Some m" and "counter s = 0" and "m < 2 ^ LENGTH('a)"
  shows "counter (guard_run enter leave es s) = 0 \<longleftrightarrow> m = 0"
proof -
  have "counter (guard_run enter leave es s) = word_of_nat m"
    using guard_run_counts [OF assms(1)] assms(2) by simp
  moreover have "unat (word_of_nat m :: 'a word) = m" using assms(3) by (rule unat_word_of_nat)
  ultimately show ?thesis by (metis unat_eq_zero)
qed

end

interpretation conns: guard_counter "conns_add 1" "conns_add (- 1)" es_active_conns
  by unfold_locales (simp_all add: conns_add_def)

end
