(* ===== verification/Shutdown.thy ===== *)
theory Shutdown
  imports Guards
begin

text \<open>
  Graceful shutdown (\<open>gateway-core/src/shutdown.rs\<close>): the broadcast flag, the drain guards and the loop that
  waits for the counter. The \<open>watch\<close> channel is the cell \<open>sc_requested\<close>. The drain loop reads the counter and
  the elapsed time once per round, so a run of it is described by the readings of round \<open>k\<close>; it is a partial
  function, and the theorem about it shows that it returns.
\<close>

section \<open>Coordinator\<close>

definition DRAIN_TIMEOUT :: duration where
  "DRAIN_TIMEOUT = from_secs 30"

record shutdown_coordinator =
  sc_requested :: bool
  sc_counter :: usize

definition coordinator_new :: shutdown_coordinator where
  "coordinator_new = \<lparr>sc_requested = False, sc_counter = 0\<rparr>"

definition signal_is_set :: "shutdown_coordinator \<Rightarrow> bool" where
  "signal_is_set sc = sc_requested sc"

definition drain_acquire :: "shutdown_coordinator \<Rightarrow> shutdown_coordinator" where
  "drain_acquire sc = sc\<lparr>sc_counter := sc_counter sc + 1\<rparr>"

definition drain_guard_drop :: "shutdown_coordinator \<Rightarrow> shutdown_coordinator" where
  "drain_guard_drop sc = sc\<lparr>sc_counter := sc_counter sc - 1\<rparr>"

definition shutdown_begin :: "shutdown_coordinator \<Rightarrow> shutdown_coordinator" where
  "shutdown_begin sc = sc\<lparr>sc_requested := True\<rparr>"

datatype drain_result = Drained | Forced usize

partial_function (option) drain_loop ::
  "(nat \<Rightarrow> usize) \<Rightarrow> (nat \<Rightarrow> usize) \<Rightarrow> (nat \<Rightarrow> duration) \<Rightarrow> nat \<Rightarrow> (nat \<times> drain_result) option" where
  "drain_loop counter_at counter_again elapsed_at k =
     (if counter_at k = 0 then Some (k, Drained)
      else if elapsed_at k \<ge> DRAIN_TIMEOUT then Some (k, Forced (counter_again k))
      else drain_loop counter_at counter_again elapsed_at (Suc k))"

interpretation drain: guard_counter drain_acquire drain_guard_drop sc_counter
  by unfold_locales (simp_all add: drain_acquire_def drain_guard_drop_def)

section \<open>The drain loop\<close>

text \<open>The first round in which the loop can return.\<close>

lemma drain_loop_returns:
  assumes "\<And>j. k \<le> j \<Longrightarrow> j < n \<Longrightarrow> counter_at j \<noteq> 0 \<and> elapsed_at j < DRAIN_TIMEOUT"
    and "k \<le> n" and "counter_at n = 0 \<or> DRAIN_TIMEOUT \<le> elapsed_at n"
  shows "drain_loop counter_at again elapsed_at k =
    Some (n, if counter_at n = 0 then Drained else Forced (again n))"
  using assms
proof (induction "n - k" arbitrary: k)
  case 0
  then have "k = n" by simp
  with 0 show ?case by (subst drain_loop.simps) auto
next
  case (Suc d)
  then have "counter_at k \<noteq> 0" "elapsed_at k < DRAIN_TIMEOUT" by auto
  then have "drain_loop counter_at again elapsed_at k = drain_loop counter_at again elapsed_at (Suc k)"
    by (subst drain_loop.simps) simp
  also have "\<dots> = Some (n, if counter_at n = 0 then Drained else Forced (again n))"
    using Suc by (intro Suc.hyps(1)) auto
  finally show ?case .
qed

lemma elapsed_grows:
  assumes "\<And>k. elapsed_at k + from_millis 50 \<le> elapsed_at (Suc k)"
  shows "k * 50000000 \<le> elapsed_at k"
proof (induction k)
  case (Suc k)
  with assms [of k] show ?case by (simp add: from_millis_def)
qed simp

lemma drain_round_exists:
  assumes "\<And>k. elapsed_at k + from_millis 50 \<le> elapsed_at (Suc k)"
  obtains n where "n \<le> 600" "counter_at n = 0 \<or> DRAIN_TIMEOUT \<le> elapsed_at n"
    "\<And>j. j < n \<Longrightarrow> counter_at j \<noteq> (0 :: usize) \<and> elapsed_at j < DRAIN_TIMEOUT"
proof -
  let ?P = "\<lambda>n. counter_at n = 0 \<or> DRAIN_TIMEOUT \<le> elapsed_at n"
  have "?P 600" using elapsed_grows [of elapsed_at 600, OF assms] by (simp add: DRAIN_TIMEOUT_def from_secs_def)
  then obtain n where n: "?P n" "\<forall>j < n. \<not> ?P j" using exists_least_iff [of ?P] by blast
  moreover have "n \<le> 600" using n(2) \<open>?P 600\<close> by (metis not_le)
  ultimately show thesis using that [of n] by (meson not_le)
qed

section \<open>Properties\<close>



text \<open>The drain counter counts live guards. However guards are made and dropped, the counter is zero
  exactly when no guard is alive (there are fewer guards than the counter can hold), so the loop never
  reports a complete drain while a guard is alive.\<close>

theorem drain_counter_live:
  assumes "live_guards 0 es = Some m" and "m < 2 ^ 64"
  shows "sc_counter (guard_run drain_acquire drain_guard_drop es coordinator_new) = 0 \<longleftrightarrow> m = 0"
  using drain.guard_run_zero_iff [OF assms(1), of coordinator_new] assms(2)
  by (simp add: coordinator_new_def)

theorem drain_counter_live_witness:
  "sc_counter (guard_run drain_acquire drain_guard_drop [Enter, Enter, Leave] coordinator_new) \<noteq> 0"
  using drain_counter_live [of "[Enter, Enter, Leave]" 1] by simp

end
