(* ===== verification/Hot_Reload.thy ===== *)
theory Hot_Reload
  imports Router Examples
begin

text \<open>
  Hot reload: the configuration watcher (\<open>gateway-config/src/hot_reload.rs\<close>) and the task of
  \<open>GatewayServer::run\<close> that rebuilds the router (\<open>gateway-core/src/server.rs\<close>). Reading the file and parsing
  YAML are arguments (\<open>read_file\<close>, \<open>from_yaml\<close>). The \<open>ArcSwap\<close> is the cell \<open>cw_inner\<close>; the \<open>watch\<close> channel
  is its last value and the number of values sent, of which a receiver remembers how many it has seen.

  \<open>reload_step\<close> interleaves reloads with arbitrary file contents and rounds of the task; \<open>reload_inv\<close> is what
  holds in every reachable state.
\<close>

section \<open>Watcher\<close>

record config_watcher =
  cw_path :: string
  cw_inner :: gateway_config
  cw_notify :: gateway_config
  cw_sent :: nat

definition parse_and_validate ::
  "(string \<Rightarrow> string + string) \<Rightarrow> (string \<Rightarrow> string + gateway_config) \<Rightarrow> (string \<Rightarrow> string + 're) \<Rightarrow> string \<Rightarrow>
   config_error + gateway_config" where
  "parse_and_validate read_file from_yaml compile path =
     try_bind (map_err Io (read_file path)) (\<lambda>raw.
     try_bind (map_err Parse (from_yaml raw)) (\<lambda>cfg.
     try_bind (validate compile cfg) (\<lambda>_. Inr cfg)))"

definition watcher_load ::
  "(string \<Rightarrow> string + string) \<Rightarrow> (string \<Rightarrow> string + gateway_config) \<Rightarrow> (string \<Rightarrow> string + 're) \<Rightarrow> string \<Rightarrow>
   config_error + config_watcher" where
  "watcher_load read_file from_yaml compile path =
     try_bind (parse_and_validate read_file from_yaml compile path) (\<lambda>cfg.
       Inr \<lparr>cw_path = path, cw_inner = cfg, cw_notify = cfg, cw_sent = 0\<rparr>)"

definition watcher_current :: "config_watcher \<Rightarrow> gateway_config" where
  "watcher_current w = cw_inner w"

text \<open>Storing the new configuration and sending it to the receivers are one step. That is what a single caller of
  \<open>reload\<close> at a time sees; of two concurrent calls the one that stores last need not be the one that sends last, and such
  a pair is not modelled.\<close>

definition watcher_reload ::
  "(string \<Rightarrow> string + string) \<Rightarrow> (string \<Rightarrow> string + gateway_config) \<Rightarrow> (string \<Rightarrow> string + 're) \<Rightarrow> config_watcher \<Rightarrow>
   (config_error + unit) \<times> config_watcher" where
  "watcher_reload read_file from_yaml compile w =
     (case parse_and_validate read_file from_yaml compile (cw_path w) of
        Inl e \<Rightarrow> (Inl e, w)
      | Inr new_cfg \<Rightarrow>
          (let w = w\<lparr>cw_inner := new_cfg\<rparr>
           in (Inr (), w\<lparr>cw_notify := new_cfg, cw_sent := cw_sent w + 1\<rparr>)))"

text \<open>A receiver: how many values it has seen. A fresh subscription clones the watcher's own receiver, which
  has seen the initial value only.\<close>

definition watcher_subscribe :: "config_watcher \<Rightarrow> nat" where
  "watcher_subscribe w = 0"

section \<open>The reload task\<close>

record 're reload_system =
  rl_watcher :: config_watcher
  rl_seen :: nat
  rl_router :: "'re router_handle"
  rl_success :: nat
  rl_failure :: nat

text \<open>One round of the task after \<open>changed()\<close> has resolved.\<close>

definition reload_task_round :: "('re, 'cap) regex_lib \<Rightarrow> 're reload_system \<Rightarrow> 're reload_system" where
  "reload_task_round RE s =
     (let new_cfg = cw_notify (rl_watcher s);
          s = s\<lparr>rl_seen := cw_sent (rl_watcher s)\<rparr>
      in case router_rebuild RE (rl_router s) new_cfg of
           (Inr _, h) \<Rightarrow> s\<lparr>rl_router := h, rl_success := rl_success s + 1\<rparr>
         | (Inl e, h) \<Rightarrow> s\<lparr>rl_router := h, rl_failure := rl_failure s + 1\<rparr>)"

inductive reload_step ::
  "(string \<Rightarrow> string + gateway_config) \<Rightarrow> ('re, 'cap) regex_lib \<Rightarrow> 're reload_system \<Rightarrow> 're reload_system \<Rightarrow> bool"
  for from_yaml :: "string \<Rightarrow> string + gateway_config" and RE :: "('re, 'cap) regex_lib" where
  reload: "watcher_reload read_file from_yaml (re_new RE) (rl_watcher s) = (r, w') \<Longrightarrow>
     reload_step from_yaml RE s (s\<lparr>rl_watcher := w'\<rparr>)"
| task: "rl_seen s \<noteq> cw_sent (rl_watcher s) \<Longrightarrow> reload_step from_yaml RE s (reload_task_round RE s)"

text \<open>Start-up: the watcher is loaded, the router is built from its configuration, the task subscribes.\<close>

definition reload_start :: "('re, 'cap) regex_lib \<Rightarrow> config_watcher \<Rightarrow> router_error + 're reload_system" where
  "reload_start RE w =
     try_bind (router_handle_new RE (watcher_current w)) (\<lambda>h.
       Inr \<lparr>rl_watcher = w, rl_seen = watcher_subscribe w, rl_router = h, rl_success = 0, rl_failure = 0\<rparr>)"

section \<open>Invariant\<close>

definition reload_inv :: "('re, 'cap) regex_lib \<Rightarrow> 're reload_system \<Rightarrow> bool" where
  "reload_inv RE s \<longleftrightarrow>
     validate (re_new RE) (cw_inner (rl_watcher s)) = Inr () \<and>
     cw_notify (rl_watcher s) = cw_inner (rl_watcher s) \<and>
     rl_seen s \<le> cw_sent (rl_watcher s) \<and>
     (rl_seen s = cw_sent (rl_watcher s) \<longrightarrow>
        router_build RE (cw_inner (rl_watcher s)) = Inr (rh_inner (rl_router s))) \<and>
     (\<exists>cfg. validate (re_new RE) cfg = Inr () \<and> router_build RE cfg = Inr (rh_inner (rl_router s))) \<and>
     rl_failure s = 0"

lemma validated_builds:
  assumes "validate (re_new RE) cfg = Inr ()"
  obtains rt where "router_build RE cfg = Inr rt"
proof -
  from assms have "config_ok (re_new RE) cfg" by (simp add: validate_Inr)
  then have "regexes_ok RE (gc_routes cfg)"
    by (auto simp: regexes_ok_def route_ok_def dest!: config_ok_route split: path_match.splits)
  then show thesis using router_build_Inr_iff that by blast
qed

lemma parse_and_validate_Inr:
  "parse_and_validate rf yaml compile p = Inr cfg \<Longrightarrow> validate compile cfg = Inr ()"
  by (auto simp: parse_and_validate_def try_bind_Inr)

lemma reload_inv_start:
  assumes "watcher_load rf yaml (re_new RE) path = Inr w" and "reload_start RE w = Inr s"
  shows "reload_inv RE s"
proof -
  from assms(1) have w: "validate (re_new RE) (cw_inner w) = Inr ()" "cw_notify w = cw_inner w" "cw_sent w = 0"
    by (auto simp: watcher_load_def try_bind_Inr dest: parse_and_validate_Inr)
  obtain rt where "router_build RE (cw_inner w) = Inr rt" using validated_builds [OF w(1)] .
  with w assms(2) show ?thesis
    by (auto simp: reload_inv_def reload_start_def router_handle_new_def watcher_current_def
        watcher_subscribe_def try_bind_Inr)
qed

lemma reload_inv_step [gw_inv]:
  assumes "reload_step yaml RE s t" and "reload_inv RE s"
  shows "reload_inv RE t"
  using assms
proof (cases rule: reload_step.cases)
  case (reload rf r w')
  show ?thesis
  proof (cases "parse_and_validate rf yaml (re_new RE) (cw_path (rl_watcher s))")
    case (Inl e)
    with reload assms(2) show ?thesis by (auto simp: watcher_reload_def reload_inv_def)
  next
    case (Inr cfg)
    with reload assms(2) parse_and_validate_Inr [OF Inr] show ?thesis
      by (auto simp: watcher_reload_def reload_inv_def)
  qed
next
  case task
  from assms(2) have v: "validate (re_new RE) (cw_notify (rl_watcher s)) = Inr ()"
    and n: "cw_notify (rl_watcher s) = cw_inner (rl_watcher s)" by (simp_all add: reload_inv_def)
  obtain rt where rt: "router_build RE (cw_notify (rl_watcher s)) = Inr rt" using validated_builds [OF v] .
  then have t: "t = s\<lparr>rl_seen := cw_sent (rl_watcher s), rl_router := (rl_router s)\<lparr>rh_inner := rt\<rparr>,
      rl_success := rl_success s + 1\<rparr>"
    unfolding task(1) by (simp add: reload_task_round_def router_rebuild_def Let_def)
  have "rl_failure s = 0" using assms(2) by (simp add: reload_inv_def)
  with v rt n show ?thesis unfolding reload_inv_def t by auto
qed

interpretation reloading: invariant_system "reload_step yaml RE" "reload_inv RE" for yaml RE
  by unfold_locales (rule reload_inv_step)

section \<open>Properties\<close>

text \<open>C16: Reloads are safe. After any sequence of reloads, with any file contents and parse results, and any
  rounds of the reload task, the active configuration is one that passed validation, the active router is
  the router of a validated configuration and once the task has seen the last reload it is the router of
  the active configuration; the task never counts a failure.\<close>

theorem hot_reload_safe:
  assumes "watcher_load read_file from_yaml (re_new RE) path = Inr w" and "reload_start RE w = Inr s0"
    and "(reload_step from_yaml RE)\<^sup>*\<^sup>* s0 s"
  shows "validate (re_new RE) (watcher_current (rl_watcher s)) = Inr () \<and>
    (\<exists>cfg. validate (re_new RE) cfg = Inr () \<and> router_build RE cfg = Inr (router_current (rl_router s))) \<and>
    (rl_seen s = cw_sent (rl_watcher s) \<longrightarrow>
       router_build RE (watcher_current (rl_watcher s)) = Inr (router_current (rl_router s))) \<and>
    rl_failure s = 0"
  using reloading.inv_steps [OF assms(3) reload_inv_start [OF assms(1,2)]]
  by (simp add: reload_inv_def watcher_current_def router_current_def)

lemma sample_watcher:
  "\<exists>w s. watcher_load Inr (\<lambda>raw. Inr (sample_config [sample_root])) (re_new literal_regex) ''c.yaml'' = Inr w \<and>
     reload_start literal_regex w = Inr s"
proof -
  have "validate (re_new literal_regex) (sample_config [sample_root]) = Inr ()"
    by (rule sample_root_config_valid)
  moreover from validated_builds [OF this] obtain rt
    where "router_build literal_regex (sample_config [sample_root]) = Inr rt" .
  ultimately show ?thesis
    by (simp add: watcher_load_def parse_and_validate_def reload_start_def router_handle_new_def watcher_current_def
        map_err_def)
qed

theorem hot_reload_safe_witness:
  "\<exists>w s. watcher_load Inr (\<lambda>raw. Inr (sample_config [sample_root])) (re_new literal_regex) ''c.yaml'' = Inr w \<and>
     reload_start literal_regex w = Inr s \<and> rl_failure s = 0 \<and>
     validate (re_new literal_regex) (watcher_current (rl_watcher s)) = Inr ()"
proof -
  obtain w s where *: "watcher_load Inr (\<lambda>raw. Inr (sample_config [sample_root])) (re_new literal_regex) ''c.yaml'' = Inr w"
    "reload_start literal_regex w = Inr s" using sample_watcher by blast
  from hot_reload_safe [OF this rtranclp.rtrancl_refl] * show ?thesis by blast
qed

end
