(* ===== verification/Server.thy ===== *)
theory Server
  imports Pipeline_Props Shutdown Hot_Reload
begin

text \<open>
  The server (\<open>gateway-core/src/server.rs\<close>): building the gateway from its configuration, what is done with a request
  before the pipeline sees it (body limits, request identifier), and the life of connections: the accept loop, the
  drain guards and the connection gauge.

  The body of a request is an abstract stream; \<open>limited body max\<close> is what \<open>Limited::new(body, max).collect()\<close>
  yields. What the Prometheus client and the Redis client yield is an argument of the constructor.
\<close>

section \<open>Building\<close>

fun router_error_display :: "router_error \<Rightarrow> string" where
  "router_error_display (NoMatch p) = ''no route matched: '' @ p"
| "router_error_display (InvalidRegex p e) = ''invalid regex pattern '' @ quoted p @ '': '' @ e"
| "router_error_display (RouterConfig m) = ''route config error: '' @ m"

fun rate_limit_error_display :: "rate_limit_error \<Rightarrow> string" where
  "rate_limit_error_display Exceeded = ''rate limit exceeded''"
| "rate_limit_error_display (RlRedis m) = ''redis error: '' @ m"
| "rate_limit_error_display (RlScript m) = ''lua script error: '' @ m"
| "rate_limit_error_display (UnknownPolicy p) = ''unknown rate-limit policy: '' @ p"
| "rate_limit_error_display (RlConfig m) = ''config error: '' @ m"

fun metrics_error_display :: "metrics_error \<Rightarrow> string" where
  "metrics_error_display (MePrometheus m) = ''prometheus error: '' @ m"
| "metrics_error_display (MeIo m) = ''io error: '' @ m"
| "metrics_error_display (MeServer m) = ''metrics server error: '' @ m"
| "metrics_error_display (MeBind a m) = ''failed to bind metrics listener on '' @ a @ '': '' @ m"
| "metrics_error_display (MeRegister n m) = ''failed to register metric '' @ quoted n @ '': '' @ m"

record ('fam, 'reg, 'cl, 'r) connectors =
  cn_mk :: "metric_family \<Rightarrow> string + 'fam"
  cn_register :: "'reg \<Rightarrow> 'fam \<Rightarrow> string + 'reg"
  cn_registry :: 'reg
  cn_redis :: "('cl, 'r) redis_client"

definition as_config_error :: "string \<Rightarrow> core_error" where
  "as_config_error m = CoreConfig (Validation m)"

text \<open>Of the authentication pipeline the state keeps the key cache; its other parts repeat the configuration. Together
  with the state \<open>build\<close> sets up the body limit and the shutdown coordinator.\<close>

definition gateway_build ::
  "('re, 'cap) regex_lib \<Rightarrow> 'sem semaphore_lib \<Rightarrow> ('fam, 'reg, 'cl, 'r) connectors \<Rightarrow> gateway_config \<Rightarrow>
   (core_error + (('re, 'sem, 'r) gateway_state \<times> usize \<times> shutdown_coordinator)) rust" where
  "gateway_build RE S C cfg =
     (case
        try_bind (map_err (\<lambda>e. CoreMetrics (metrics_error_display e)) (metrics_new (cn_mk C) (cn_register C) (cn_registry C))) (\<lambda>_.
        try_bind (map_err (\<lambda>e. as_config_error (router_error_display e)) (router_handle_new RE cfg)) (\<lambda>router.
        try_bind (map_err (\<lambda>e. as_config_error (auth_error_display e)) (auth_pipeline_new (cn_redis C) (gc_auth cfg))) (\<lambda>auth.
        try_bind (map_err (\<lambda>e. as_config_error (rate_limit_error_display e)) (rate_limiter_new (cn_redis C) cfg)) (\<lambda>ratelimit.
        try_bind (map_err (\<lambda>e. as_config_error (cache_error_display e)) (response_cache_new (cn_redis C) (gc_cache cfg))) (\<lambda>cache.
          Inr (router, auth, ratelimit, cache))))))
      of
        Inl e \<Rightarrow> Ret (Inl e)
      | Inr (router, auth, ratelimit, cache) \<Rightarrow>
          (let upstreams = registry_build cfg
           in rust_bind (limiter_build S cfg) (\<lambda>concurrency.
                Ret (Inr (\<lparr>gs_router = router, gs_keys = jp_key_cache (ap_jwt auth), gs_ratelimit = ratelimit, gs_cache = cache,
                           gs_upstreams = upstreams, gs_concurrency = concurrency\<rparr>,
                          ls_max_body_bytes (gc_listener cfg), coordinator_new)))))"

section \<open>Serving a request\<close>

definition payload_too_large ::
  "('hm, 'hv, 'u) http_lib \<Rightarrow> (string \<Rightarrow> bytes) \<Rightarrow> 'hm http_response rust" where
  "payload_too_large L json_error =
     rust_bind (builder_headers L (hm_new L) [(''content-type'', ''application/json'')]) (\<lambda>h.
       Ret \<lparr>rs_status = 413, rs_headers = h, rs_body = json_error ''request body too large''\<rparr>)"

text \<open>The collected body, or \<open>None\<close> when the limit was exceeded; another error leaves an empty body.\<close>

definition read_body :: "('b \<Rightarrow> usize \<Rightarrow> string + bytes) \<Rightarrow> usize \<Rightarrow> 'b \<Rightarrow> bytes option" where
  "read_body limited limit body =
     (case limited body limit of
        Inr collected \<Rightarrow> Some collected
      | Inl e \<Rightarrow>
          (let msg = to_ascii_lowercase e
           in if str_contains msg ''length limit'' \<or> str_contains msg ''limit exceeded'' then None else Some []))"

definition ensure_request_id :: "('hm, 'hv, 'u) http_lib \<Rightarrow> string \<Rightarrow> 'hm \<Rightarrow> 'hm" where
  "ensure_request_id L uuid headers =
     (if \<not> hm_contains_key L headers ''x-request-id'' then
        (case hv_from_str L uuid of
           Some val \<Rightarrow> hm_insert L headers ''x-request-id'' val
         | None \<Rightarrow> headers)
      else headers)"

text \<open>The service function of \<open>serve_http\<close>: \<open>parts\<close> is the request without its body, \<open>uuid\<close> the identifier the server
  generates. No code of the server puts a client certificate into the extensions of the request, so the pipeline is called
  without one.\<close>

definition serve_request ::
  "('hm, 'hv, 'u, 're, 'cap, 'key, 'j, 'sem, 'r) request_env \<Rightarrow> ('b \<Rightarrow> usize \<Rightarrow> string + bytes) \<Rightarrow> string \<Rightarrow> usize \<Rightarrow>
   ('re, 'sem, 'r) gateway_state \<Rightarrow> ('hm, 'u) http_request \<Rightarrow> 'b \<Rightarrow> ('hm, 'u, 're, 'sem, 'r) handled" where
  "serve_request E limited uuid limit st parts body =
     (let L = pe_http E;
          too_large = rust_bind (payload_too_large L (pe_json_error E)) (\<lambda>r. Ret (r, [], st))
      in if (case Option.bind (header_str L (rq_headers parts) ''content-length'') parse_u64 of
               Some len \<Rightarrow> len > limit
             | None \<Rightarrow> False)
         then too_large
         else
           (case read_body limited limit body of
              None \<Rightarrow> too_large
            | Some body_bytes \<Rightarrow>
                handle (E\<lparr>pe_cert := None\<rparr>) st
                  (parts\<lparr>rq_headers := ensure_request_id L uuid (rq_headers parts), rq_body := body_bytes\<rparr>)))"

definition is_benign_conn_error :: "string \<Rightarrow> bool" where
  "is_benign_conn_error e =
     (let s = to_ascii_lowercase e
      in str_contains s ''connection reset'' \<or> str_contains s ''broken pipe'' \<or> str_contains s ''connection closed'' \<or>
         str_contains s ''eof'')"

section \<open>Connections\<close>

text \<open>The accept loop and the connection tasks it spawns. A connection is served while its task runs
  \<open>serve_connection\<close>, which owns the drain guard; afterwards the task closes the gauge.\<close>

record server_system =
  sv_shutdown :: shutdown_coordinator
  sv_metrics :: "metric_event list"
  sv_accepting :: bool
  sv_serving :: nat
  sv_closing :: nat

definition server_start :: server_system where
  "server_start =
     \<lparr>sv_shutdown = coordinator_new, sv_metrics = [], sv_accepting = True, sv_serving = 0, sv_closing = 0\<rparr>"

definition accept_connection :: "server_system \<Rightarrow> server_system" where
  "accept_connection s =
     s\<lparr>sv_shutdown := drain_acquire (sv_shutdown s), sv_metrics := sv_metrics s @ connection_open,
       sv_serving := sv_serving s + 1\<rparr>"

definition serve_connection_end :: "server_system \<Rightarrow> server_system" where
  "serve_connection_end s =
     s\<lparr>sv_shutdown := drain_guard_drop (sv_shutdown s), sv_serving := sv_serving s - 1, sv_closing := sv_closing s + 1\<rparr>"

definition close_connection :: "server_system \<Rightarrow> server_system" where
  "close_connection s =
     s\<lparr>sv_metrics := sv_metrics s @ connection_close, sv_closing := sv_closing s - 1\<rparr>"

inductive server_step :: "server_system \<Rightarrow> server_system \<Rightarrow> bool" where
  accepted: "sv_accepting s \<Longrightarrow> server_step s (accept_connection s)"
| accept_error: "sv_accepting s \<Longrightarrow> server_step s s"
| connection_served: "0 < sv_serving s \<Longrightarrow> server_step s (serve_connection_end s)"
| connection_closed: "0 < sv_closing s \<Longrightarrow> server_step s (close_connection s)"
| os_signal: "server_step s (s\<lparr>sv_shutdown := shutdown_begin (sv_shutdown s)\<rparr>)"
| stop_accepting: "sv_accepting s \<Longrightarrow> signal_is_set (sv_shutdown s) \<Longrightarrow> server_step s (s\<lparr>sv_accepting := False\<rparr>)"

section \<open>The connection gauge\<close>

text \<open>The value of the gauge after a list of calls, an \<open>i64\<close>.\<close>

definition gauge_delta :: "metric_event \<Rightarrow> i64" where
  "gauge_delta ev =
     (if me_family ev = ''stateform_active_connections''
      then (case me_action ev of Inc \<Rightarrow> 1 | Dec \<Rightarrow> - 1 | _ \<Rightarrow> 0) else 0)"

definition active_connections :: "metric_event list \<Rightarrow> i64" where
  "active_connections evs = sum_list (map gauge_delta evs)"

interpretation gauge: guard_counter "\<lambda>evs. evs @ connection_open" "\<lambda>evs. evs @ connection_close" active_connections
  by unfold_locales
    (simp_all add: active_connections_def connection_open_def connection_close_def gauge_delta_def event_def)

definition server_inv :: "server_system \<Rightarrow> bool" where
  "server_inv s \<longleftrightarrow>
     sc_counter (sv_shutdown s) = word_of_nat (sv_serving s) \<and>
     active_connections (sv_metrics s) = word_of_nat (sv_serving s + sv_closing s) \<and>
     (\<not> sv_accepting s \<longrightarrow> signal_is_set (sv_shutdown s))"

lemma server_inv_start: "server_inv server_start"
  by (simp add: server_inv_def server_start_def coordinator_new_def active_connections_def)

lemma server_inv_step [gw_inv]:
  assumes "server_step s t" and "server_inv s"
  shows "server_inv t"
  using assms(1)
proof (cases rule: server_step.cases)
  case accepted
  with assms(2) show ?thesis
    by (simp add: server_inv_def accept_connection_def drain.counter_enter gauge.counter_enter signal_is_set_def drain_acquire_def
        add.commute)
next
  case connection_served
  with assms(2) word_of_nat_pred [of "sv_serving s", where 'a = 64] show ?thesis
    by (simp add: server_inv_def serve_connection_end_def drain.counter_leave signal_is_set_def drain_guard_drop_def)
next
  case connection_closed
  with assms(2) word_of_nat_pred [of "sv_closing s", where 'a = 64] show ?thesis
    by (simp add: server_inv_def close_connection_def gauge.counter_leave)
next
  case os_signal
  with assms(2) show ?thesis by (simp add: server_inv_def shutdown_begin_def signal_is_set_def)
next
  case stop_accepting
  with assms(2) show ?thesis by (simp add: server_inv_def)
qed (use assms(2) in simp_all)

interpretation server: invariant_system server_step server_inv
  by unfold_locales (rule server_inv_step)

text \<open>A server that has stopped accepting stays so, and its connections only become fewer.\<close>

definition stopped_below :: "server_system \<Rightarrow> server_system \<Rightarrow> bool" where
  "stopped_below s t \<longleftrightarrow> \<not> sv_accepting t \<and> sv_serving t \<le> sv_serving s \<and> sv_serving t + sv_closing t \<le> sv_serving s + sv_closing s"

interpretation stopped: invariant_system server_step "stopped_below s" for s
proof unfold_locales
  fix t u
  assume "server_step t u" and "stopped_below s t"
  then show "stopped_below s u"
    by (cases rule: server_step.cases) (auto simp: stopped_below_def serve_connection_end_def close_connection_def)
qed

section \<open>Starting\<close>

lemma rate_limiter_loop_ok:
  assumes "redis_reachable RC"
  shows "\<exists>ps'. rate_limiter_loop RC url ps pols = Inr ps' \<and> dom ps' = dom ps \<union> fst ` set pols"
proof (induction pols arbitrary: ps)
  case (Cons p pols)
  obtain name pc where p: "p = (name, pc)" by fastforce
  let ?q = "ps(name \<mapsto> \<lparr>ps_l1 = l1_limiter_new (rp_local pc), ps_l2 = rp_distributed pc\<rparr>)"
  obtain ps' where "rate_limiter_loop RC url ?q pols = Inr ps'" "dom ps' = dom ?q \<union> fst ` set pols"
    using Cons.IH [of ?q] by blast
  moreover have "l2_limiter_new RC name url (rp_distributed pc) = Inr (rp_distributed pc)"
    using redis_connect_reachable [OF assms] by (auto simp: l2_limiter_new_def try_bind_Inr)
  ultimately show ?case by (simp add: p)
qed simp

text \<open>The Prometheus client accepts every family and every registration.\<close>

definition prometheus_accepts :: "('fam, 'reg, 'cl, 'r) connectors \<Rightarrow> bool" where
  "prometheus_accepts C \<longleftrightarrow> (\<forall>f. \<exists>c. cn_mk C f = Inr c) \<and> (\<forall>reg c. \<exists>reg'. cn_register C reg c = Inr reg')"

lemma make_families_ok: "(\<And>f. \<exists>c. mk f = Inr c) \<Longrightarrow> \<exists>cs. make_families mk fs = Inr cs"
proof (induction fs)
  case (Cons f fs)
  then obtain c cs where "mk f = Inr c" "make_families mk fs = Inr cs" by meson
  then show ?case by (simp add: map_err_def)
qed simp

lemma register_all_ok: "(\<And>reg c. \<exists>reg'. register reg c = Inr reg') \<Longrightarrow> \<exists>reg'. register_all register reg cs = Inr reg'"
proof (induction cs arbitrary: reg)
  case (Cons c cs)
  obtain reg' where "register reg c = Inr reg'" using Cons.prems by blast
  with Cons.IH [OF Cons.prems, of reg'] show ?case by (simp add: map_err_def)
qed simp

lemma metrics_new_ok: "prometheus_accepts C \<Longrightarrow> \<exists>m. metrics_new (cn_mk C) (cn_register C) reg = Inr m"
  using make_families_ok [of "cn_mk C" metric_families] register_all_ok [of "cn_register C"]
  unfolding prometheus_accepts_def metrics_new_def try_bind_Inr by blast

lemma auth_pipeline_new_ok:
  assumes "redis_reachable RC"
  obtains a where "auth_pipeline_new RC cfg = Inr a"
  using redis_connect_reachable [OF assms, of ApiKeyConn ApiKeyStore "ak_redis_url (au_api_keys cfg)"] that
  by (auto simp: auth_pipeline_new_def api_key_provider_new_def)

lemma response_cache_new_ok:
  assumes "redis_reachable RC"
  obtains c where "response_cache_new RC cfg = Inr c"
  using redis_connect_reachable [OF assms, of CacheConn CeRedis "cc_redis_url cfg"] that
  by (auto simp: response_cache_new_def l2_cache_new_def)

lemma gateway_starts:
  assumes "validate (re_new RE) cfg = Inr ()" and "prometheus_accepts C" and "redis_reachable (cn_redis C)"
  shows "\<exists>st. gateway_build RE S C cfg =
      rust_bind (limiter_build S cfg) (\<lambda>l. Ret (Inr (st\<lparr>gs_concurrency := l\<rparr>, ls_max_body_bytes (gc_listener cfg), coordinator_new))) \<and>
    router_build RE cfg = Inr (router_current (gs_router st)) \<and>
    (\<forall>r \<in> set (gc_routes cfg). registry_get (gs_upstreams st) (rt_upstream r) \<noteq> None \<and>
       (\<forall>ref. mw_rate_limit (rt_middleware r) = Some ref \<longrightarrow> rlim_policies (gs_ratelimit st) (rl_policy ref) \<noteq> None))"
proof -
  obtain rt where rt: "router_build RE cfg = Inr rt" using validated_builds [OF assms(1)] .
  have ok: "config_ok (re_new RE) cfg" using assms(1) by (simp add: validate_Inr)
  obtain ps where ps: "rate_limiter_loop (cn_redis C) (rlc_redis_url (gc_rate_limiting cfg)) Map.empty
      (rlc_policies (gc_rate_limiting cfg)) = Inr ps" "dom ps = fst ` set (rlc_policies (gc_rate_limiting cfg))"
    using rate_limiter_loop_ok [OF assms(3), of "rlc_redis_url (gc_rate_limiting cfg)" Map.empty
        "rlc_policies (gc_rate_limiting cfg)"] by auto
  obtain m where m: "metrics_new (cn_mk C) (cn_register C) (cn_registry C) = Inr m" using metrics_new_ok [OF assms(2)] by blast
  obtain a where a: "auth_pipeline_new (cn_redis C) (gc_auth cfg) = Inr a" using auth_pipeline_new_ok [OF assms(3)] .
  obtain c where c: "response_cache_new (cn_redis C) (gc_cache cfg) = Inr c" using response_cache_new_ok [OF assms(3)] .
  have pool: "registry_get (registry_build cfg) (rt_upstream q) \<noteq> None" if "q \<in> set (gc_routes cfg)" for q
    using route_ok_upstream [OF config_ok_route [OF ok that]]
    by (auto simp: registry_get_build)
  have policy: "ps (rl_policy ref) \<noteq> None"
    if "q \<in> set (gc_routes cfg)" "mw_rate_limit (rt_middleware q) = Some ref" for q ref
    using config_ok_route [OF ok that(1)] that(2) ps(2) by (auto simp: route_ok_def domIff)
  let ?st = "\<lparr>gs_router = \<lparr>rh_inner = rt\<rparr>, gs_keys = jp_key_cache (ap_jwt a), gs_ratelimit = \<lparr>rlim_policies = ps\<rparr>, gs_cache = c,
    gs_upstreams = registry_build cfg, gs_concurrency = \<lparr>cl_global = sem_new S 0, cl_routes = Map.empty, cl_acquire_timeout = 0\<rparr>\<rparr>"
  show ?thesis
    by (rule exI [of _ ?st])
      (use rt ps(1) m a c pool policy in
        \<open>simp add: gateway_build_def router_handle_new_def rate_limiter_new_def map_err_def router_current_def\<close>)
qed

definition ex_connectors :: "(unit, unit, unit, string \<Rightarrow> string option) connectors" where
  "ex_connectors = \<lparr>cn_mk = (\<lambda>f. Inr ()), cn_register = (\<lambda>reg c. Inr ()), cn_registry = (),
     cn_redis = \<lparr>rcl_open = (\<lambda>u. Inr ()), rcl_manager = (\<lambda>site c. Inr (\<lambda>k. None))\<rparr>\<rparr>"

lemma ex_connectors_ok: "prometheus_accepts ex_connectors" "redis_reachable (cn_redis ex_connectors)"
  by (simp_all add: prometheus_accepts_def redis_reachable_def ex_connectors_def)

section \<open>Routes that require a client certificate\<close>

lemma try_bind_refuses: "(\<And>x. \<exists>e. f x = Inl e) \<Longrightarrow> \<exists>e. try_bind r f = Inl e"
  by (cases r) auto

lemma auth_run_no_certificate:
  assumes "am_mtls cfg"
  obtains e c where "auth_run vj vk True None (Some cfg) cache = (Inl e, c)"
proof -
  have "\<exists>e. fst (auth_run vj vk True None (Some cfg) cache) = Inl e"
    using assms
    by (simp add: auth_run_def split_beta Let_def mtls_verify_def) (intro conjI impI try_bind_refuses; simp add: try_bind_refuses)
  then show thesis using that by (metis prod.collapse)
qed

lemma fail_status:
  assumes "header_laws (pe_http E)"
  shows "\<exists>resp. fail E s m i effs st = Ret (resp, effs, st) \<and> rs_status resp = s"
  using builder_headers_Ret [OF assms, of "[(''content-type'', ''application/json'')]" "hm_new (pe_http E)"] visible_ascii_texts
  by (auto simp: fail_def error_response_def)

lemma payload_too_large_Ret:
  assumes "header_laws L"
  shows "\<exists>resp. payload_too_large L j = Ret resp \<and> rs_status resp = 413"
  using builder_headers_Ret [OF assms, of "[(''content-type'', ''application/json'')]" "hm_new L"] visible_ascii_texts
  by (auto simp: payload_too_large_def)

lemma auth_status_refuses: "400 \<le> auth_status_code e \<and> valid_status (auth_status_code e)"
  by (cases e) (simp_all add: valid_status_def)

definition refused :: "('hm, 'u, 're, 'sem, 'r) handled \<Rightarrow> bool" where
  "refused r \<longleftrightarrow> (\<exists>resp effs st'. r = Ret (resp, effs, st') \<and> 400 \<le> rs_status resp \<and> no_sends effs)"

lemma handle_no_certificate:
  assumes "header_laws (pe_http E)" and "pe_cert E = None" and "mt_required (au_mtls (pe_auth_config E))"
    and "match_request (pe_http E) (pe_regex E) (router_current (gs_router st)) (uri_path (pe_http E) (rq_uri req))
      (rq_method req) (rq_headers req) = Inr m"
    and "mw_auth (rt_middleware (mr_route m)) = Some cfg" and "am_mtls cfg"
  shows "refused (handle E st req)"
proof -
  have "refused (rust_bind (admitted E i m req t) (drop_permit E permit))" for i t permit
  proof -
    obtain e c where e: "auth_pipeline_run (pe_http E) (pe_auth E) (pe_auth_config E) (Some cfg) (rq_headers req) None (gs_keys t) =
        (Inl e, c)"
      using auth_run_no_certificate [OF assms(6)] assms(3) unfolding auth_pipeline_run_def by metis
    let ?effs = "map Metric (record_auth_failure (mr_route_id m) e)"
    obtain resp where "admitted E i m req t = Ret (resp, ?effs, pe_others E 2 (t\<lparr>gs_keys := c\<rparr>))" "400 \<le> rs_status resp"
      using fail_status [OF assms(1), of "auth_status_code e" "auth_error_display e" i ?effs "pe_others E 2 (t\<lparr>gs_keys := c\<rparr>)"]
        auth_status_refuses [of e]
      by (auto simp: admitted_def assms(2,5) e Let_def)
    then show ?thesis by (auto simp: refused_def drop_permit_def)
  qed
  moreover have "refused (rust_bind (service_unavailable (pe_http E) (pe_json_error E) msg) (\<lambda>resp. Ret (resp, map Metric evs, t)))"
    for msg evs t
    by (rule service_unavailable_Ret [OF assms(1), of "pe_json_error E" msg]) (simp add: refused_def)
  ultimately show ?thesis
    by (auto simp: handle_def assms(4) Let_def split: prod.split sum.split)
qed

section \<open>Properties\<close>

text \<open>A configuration that passes validation starts a gateway that can serve it: if Redis can be reached, the
  metrics registry accepts the families and the configured concurrency limits are ones a semaphore can have, building
  succeeds, the router in the state is the one built from the configuration,
  and for every route the pool of its upstream and the rate-limit policy it names exist, so that no request is
  answered \<open>upstream not configured\<close> and no rate-limit check fails open for an unknown policy.
\<close>

theorem validated_gateway_starts:
  assumes "validate (re_new RE) cfg = Inr ()" and "prometheus_accepts C" and "redis_reachable (cn_redis C)" and "limits_fit cfg"
  shows "\<exists>st. gateway_build RE S C cfg = Ret (Inr (st, ls_max_body_bytes (gc_listener cfg), coordinator_new)) \<and>
    router_build RE cfg = Inr (router_current (gs_router st)) \<and>
    (\<forall>r \<in> set (gc_routes cfg). registry_get (gs_upstreams st) (rt_upstream r) \<noteq> None \<and>
       (\<forall>ref. mw_rate_limit (rt_middleware r) = Some ref \<longrightarrow> rlim_policies (gs_ratelimit st) (rl_policy ref) \<noteq> None))"
proof -
  obtain st where st: "gateway_build RE S C cfg =
      rust_bind (limiter_build S cfg) (\<lambda>l. Ret (Inr (st\<lparr>gs_concurrency := l\<rparr>, ls_max_body_bytes (gc_listener cfg), coordinator_new)))"
    "router_build RE cfg = Inr (router_current (gs_router st))"
    "\<forall>r \<in> set (gc_routes cfg). registry_get (gs_upstreams st) (rt_upstream r) \<noteq> None \<and>
       (\<forall>ref. mw_rate_limit (rt_middleware r) = Some ref \<longrightarrow> rlim_policies (gs_ratelimit st) (rl_policy ref) \<noteq> None)"
    using gateway_starts [OF assms(1-3), where S = S] by blast
  obtain l where "limiter_build S cfg = Ret l" using limiter_build_cases(1) assms(4) by blast
  with st show ?thesis by (intro exI [of _ "st\<lparr>gs_concurrency := l\<rparr>"]) simp
qed

theorem validated_gateway_starts_witness:
  "\<exists>st. gateway_build literal_regex nat_semaphore ex_connectors (sample_config [sample_root]) =
     Ret (Inr (st, default_max_body_bytes, coordinator_new)) \<and> registry_get (gs_upstreams st) ''backend'' \<noteq> None"
proof -
  have "rt_upstream sample_root = ''backend''" by (simp add: sample_root_def)
  moreover have "ls_max_body_bytes (gc_listener (sample_config [sample_root])) = default_max_body_bytes"
    by (simp add: sample_config_def)
  moreover have "limits_fit (sample_config [sample_root])" by (rule limiter_build_Ret(3) [OF sample_limiter_built])
  moreover from this obtain st where "gateway_build literal_regex nat_semaphore ex_connectors (sample_config [sample_root]) =
      Ret (Inr (st, ls_max_body_bytes (gc_listener (sample_config [sample_root])), coordinator_new))"
    "\<forall>r \<in> set (gc_routes (sample_config [sample_root])). registry_get (gs_upstreams st) (rt_upstream r) \<noteq> None"
    using validated_gateway_starts [OF sample_root_config_valid ex_connectors_ok, where S = nat_semaphore] by blast
  ultimately show ?thesis by (auto simp: sample_config_sel(1))
qed

text \<open>C11: The body limit holds. A request that announces more than the limit is answered 413 before its body is read, and one
  whose body delivers more than the limit, whatever it announced, is answered 413 too, in both cases with no effect on the
  gateway; and no body longer than the limit is ever forwarded to an upstream. \<open>delivers\<close> is the number of bytes a body
  yields before it ends or fails; \<open>Limited\<close> stops with its own error when it passes the limit.
\<close>

theorem body_limit_enforced:
  assumes "\<And>b bs. limited b limit = Inr bs \<Longrightarrow> length bs \<le> unat limit"
    and "\<And>b. unat limit < delivers b \<Longrightarrow> limited b limit = Inl ''length limit exceeded''"
    and "serve_request E limited uuid limit st parts body = Ret (resp, effs, st')"
  shows "(\<forall>v n. header_str (pe_http E) (rq_headers parts) ''content-length'' = Some v \<and> parse_u64 v = Some n \<and> limit < n \<longrightarrow>
      rs_status resp = 413 \<and> effs = [] \<and> st' = st) \<and>
    (unat limit < delivers body \<longrightarrow> rs_status resp = 413 \<and> effs = [] \<and> st' = st) \<and>
(\<forall>rq. Sent rq \<in> set effs \<longrightarrow> length (rq_body rq) \<le> unat limit)"
proof -
  have large: "rust_all (\<lambda>(r, effs, t). rs_status r = 413 \<and> effs = [] \<and> t = st)
      (rust_bind (payload_too_large (pe_http E) (pe_json_error E)) (\<lambda>r. Ret (r, [], st)))"
    by (auto simp: payload_too_large_def rust_all_bind intro!: rust_all_True)
  have body: "length (rq_body rq) \<le> unat limit"
    if h: "handle (E\<lparr>pe_cert := None\<rparr>) st (parts\<lparr>rq_headers := h, rq_body := bs\<rparr>) = Ret (resp, effs, st')"
      and read: "read_body limited limit body = Some bs" and sent: "Sent rq \<in> set effs" for h bs rq
  proof -
    let ?req = "parts\<lparr>rq_headers := h, rq_body := bs\<rparr>"
    have "length bs \<le> unat limit"
      using read assms(1) by (auto simp: read_body_def Let_def split: sum.splits if_splits)
    moreover have "rq_body rq = bs"
    proof -
      have sent': "Sent rq \<in> set (filter is_sent effs)" using sent by simp
      then obtain m st4 where "wire_effects (E\<lparr>pe_cert := None\<rparr>) m ?req st4 effs"
        using handle_effects [OF h] by (metis empty_iff list.set(1))
      with sent' obtain pool result attempts pool' where
        s: "request_send (E\<lparr>pe_cert := None\<rparr>) ?req m pool = Ret (result, attempts, pool')" and f: "filter is_sent effs = map Sent attempts"
        unfolding wire_effects_def by (metis empty_iff list.set(1))
      have "attempts \<noteq> []" using sent' f by auto
      then obtain n q where "attempts = replicate n q" "sent_to (pe_http (E\<lparr>pe_cert := None\<rparr>)) m ?req pool q"
        using request_send_wire [OF s] by blast
      with sent' f have "sent_to (pe_http (E\<lparr>pe_cert := None\<rparr>)) m ?req pool rq" by auto
      from sent_to_parts [OF this] show ?thesis by simp
    qed
    ultimately show ?thesis by simp
  qed
  have over: "read_body limited limit body = None" if "unat limit < delivers body"
  proof -
    have "str_contains (to_ascii_lowercase ''length limit exceeded'') ''length limit''" by code_simp
    with assms(2) [OF that] show ?thesis by (simp add: read_body_def Let_def)
  qed
  show ?thesis
    using assms(3) large body over
    unfolding serve_request_def Let_def
    by (cases "read_body limited limit body"; cases "payload_too_large (pe_http E) (pe_json_error E)")
      (auto split: option.splits if_splits)
qed

theorem body_limit_enforced_witness:
  "\<exists>resp. serve_request sample_env (\<lambda>b limit. if length b \<le> unat limit then Inr b else Inl ''length limit exceeded'') ''id-2'' 3
     sample_state (sample_request\<lparr>rq_headers := [(''content-length'', ''4'')]\<rparr>) [1, 2, 3, 4] = Ret (resp, [], sample_state) \<and>
     rs_status resp = 413"
proof -
  let ?lim = "\<lambda>b limit. if length b \<le> unat limit then Inr b else Inl ''length limit exceeded'' :: string + bytes"
  let ?rq = "sample_request\<lparr>rq_headers := [(''content-length'', ''4'')]\<rparr>"
  have h: "header_str (pe_http sample_env) (rq_headers ?rq) ''content-length'' = Some ''4''"
  proof -
    have "al_get [(''content-length'', ''4'')] ''content-length'' = Some ''4''" by code_simp
    then show ?thesis by (simp add: sample_env_sel alist_header_str)
  qed
  have p: "parse_u64 ''4'' = Some 4" by (simp add: parse_u64_def is_ascii_digit_def)
  obtain resp where "payload_too_large alist_http (pe_json_error sample_env) = Ret resp"
    by (simp add: payload_too_large_def) (simp add: alist_http_def)
  then have s: "serve_request sample_env ?lim ''id-2'' 3 sample_state ?rq [1, 2, 3, 4] = Ret (resp, [], sample_state)"
    using h p by (simp add: serve_request_def Let_def sample_env_sel)
  have lim: "length bs \<le> unat (3 :: usize)" if "?lim b (3 :: usize) = Inr bs" for b bs
    using that by (auto split: if_splits)
  have "rs_status resp = 413" using body_limit_enforced [of ?lim 3 length, OF lim _ s] h p by simp
  with s show ?thesis by blast
qed

text \<open>C27: A route that enables mTLS cannot be used while the gateway requires client certificates: since the server never hands a
  certificate to the pipeline, every request for such a route, with whatever other credentials, is answered with an error
  status and no upstream is contacted, although the TLS handshake may have verified a certificate.
\<close>

theorem required_mtls_refuses_all:
  assumes "header_laws (pe_http E)" and "mt_required (au_mtls (pe_auth_config E))"
    and "match_request (pe_http E) (pe_regex E) (router_current (gs_router st)) (uri_path (pe_http E) (rq_uri parts))
      (rq_method parts) (ensure_request_id (pe_http E) uuid (rq_headers parts)) = Inr m"
    and "mw_auth (rt_middleware (mr_route m)) = Some cfg" and "am_mtls cfg"
  shows "\<exists>resp effs st'. serve_request E limited uuid limit st parts body = Ret (resp, effs, st') \<and>
    400 \<le> rs_status resp \<and> (\<forall>rq. Sent rq \<notin> set effs)"
proof -
  have "refused (rust_bind (payload_too_large (pe_http E) (pe_json_error E)) (\<lambda>r. Ret (r, [], st)))"
    using payload_too_large_Ret [OF assms(1), of "pe_json_error E"] by (auto simp: refused_def)
  moreover have "refused (handle (E\<lparr>pe_cert := None\<rparr>) st
      (parts\<lparr>rq_headers := ensure_request_id (pe_http E) uuid (rq_headers parts), rq_body := bs\<rparr>))" for bs
    by (rule handle_no_certificate [of _ _ _ m cfg]) (use assms in simp_all)
  ultimately have "refused (serve_request E limited uuid limit st parts body)"
    by (auto simp: serve_request_def Let_def split: option.split)
  then show ?thesis unfolding refused_def by (force simp: is_sent_def filter_empty_conv)
qed

definition mtls_route :: route_config where
  "mtls_route = (sample_route ''admin'' (Exact ''/'') None)
     \<lparr>rt_middleware := middleware_config_default\<lparr>mw_auth := Some \<lparr>am_jwt = False, am_api_key = False, am_mtls = True\<rparr>\<rparr>\<rparr>"

definition mtls_state :: "(string, nat, string \<Rightarrow> string option) gateway_state" where
  "mtls_state = sample_state\<lparr>gs_router := \<lparr>rh_inner =
     \<lparr>exact_trie = TrieNode [] [mtls_route] [], prefix_trie = trie_default, regex_routes = []\<rparr>\<rparr>\<rparr>"

theorem required_mtls_refuses_all_witness:
  "\<exists>resp effs st'. serve_request sample_env (\<lambda>b limit. Inr b) ''id-2'' 3 mtls_state (sample_request\<lparr>rq_uri := ''/''\<rparr>) [] =
     Ret (resp, effs, st') \<and> 400 \<le> rs_status resp \<and> (\<forall>rq. Sent rq \<notin> set effs)"
proof -
  have "normalise_path ''/'' = []" by code_simp
  moreover have "uri_path alist_http ''/'' = ''/''" by (simp add: alist_http_def)
  moreover have "find_exact (TrieNode [] [mtls_route] []) [] = Some mtls_route" by (subst find_exact.simps) simp
  moreover have "route_predicates alist_http RE me hs mtls_route" for RE :: "(string, string) regex_lib" and me hs
    by (simp add: route_predicates_def mtls_route_def sample_route_def matches_predicates_def method_matches_def)
  ultimately have m: "match_request (pe_http sample_env) (pe_regex sample_env) (router_current (gs_router mtls_state))
      (uri_path (pe_http sample_env) (rq_uri (sample_request\<lparr>rq_uri := ''/''\<rparr>))) (rq_method (sample_request\<lparr>rq_uri := ''/''\<rparr>)) hs =
      Inr (matched_new mtls_route)" for hs
    by (simp add: match_request_def mtls_state_def router_current_def sample_env_sel)
  have r: "mt_required (au_mtls (pe_auth_config sample_env))" by (simp add: sample_env_def ex_auth_config_def)
  show ?thesis
    by (rule required_mtls_refuses_all [OF _ r m, where cfg = "\<lparr>am_jwt = False, am_api_key = False, am_mtls = True\<rparr>"])
      (simp_all add: sample_env_sel alist_http_laws mtls_route_def matched_new_def)
qed

text \<open>C26: Connections are accounted for exactly. However accepts, ends of connections and the shutdown signal interleave, the
  drain counter is the number of connections being served, the connection gauge is the number of connections
  whose task has not finished, and accepting stops only after the shutdown signal; once it has stopped, no connection is
  added any more.
\<close>

theorem connections_accounted:
  assumes "server_step\<^sup>*\<^sup>* server_start s" and "server_step\<^sup>*\<^sup>* s t"
  shows "sc_counter (sv_shutdown s) = word_of_nat (sv_serving s) \<and>
    active_connections (sv_metrics s) = word_of_nat (sv_serving s + sv_closing s) \<and>
    (\<not> sv_accepting s \<longrightarrow> signal_is_set (sv_shutdown s) \<and> \<not> sv_accepting t \<and> sv_serving t \<le> sv_serving s \<and>
       sv_serving t + sv_closing t \<le> sv_serving s + sv_closing s)"
  using server.inv_steps [OF assms(1) server_inv_start] stopped.inv_steps [OF assms(2), of s]
  by (simp add: server_inv_def stopped_below_def)

theorem connections_accounted_witness:
  "\<exists>s. server_step\<^sup>*\<^sup>* server_start s \<and> sv_serving s = 1 \<and> sc_counter (sv_shutdown s) = 1 \<and> active_connections (sv_metrics s) = 1"
proof -
  have s: "server_step\<^sup>*\<^sup>* server_start (accept_connection server_start)"
    by (rule r_into_rtranclp, rule server_step.accepted) (simp add: server_start_def)
  have one: "sv_serving (accept_connection server_start) = 1" "sv_closing (accept_connection server_start) = 0"
    by (simp_all add: accept_connection_def server_start_def)
  from connections_accounted [OF s rtranclp.rtrancl_refl] one
  have "sc_counter (sv_shutdown (accept_connection server_start)) = 1"
    "active_connections (sv_metrics (accept_connection server_start)) = 1" by simp_all
  with s one(1) show ?thesis by blast
qed

end
