(* ===== verification/Tls.thy ===== *)
theory Tls
  imports Upstream
begin

text \<open>
  TLS set-up (\<open>gateway-core/src/tls.rs\<close>): loading the certificate chain and the private key, building the verifier of
  client certificates and assembling the acceptor.

  The file system, the PEM parser and rustls are arguments: the record \<open>tls_lib\<close>. The acceptor is built by up to five
  reads of files, which another process may replace in between, so opening takes the number of the read.
\<close>

section \<open>Libraries\<close>

text \<open>\<open>tl_no_client_auth\<close> and \<open>tl_with_verifier\<close> stand for the two ways \<open>ServerConfig::builder()\<close> is completed with
  \<open>with_single_cert\<close>.\<close>

record ('f, 'roots, 'ver, 'crypto) tls_lib =
  tl_open :: "nat \<Rightarrow> string \<Rightarrow> string + 'f"
  tl_certs :: "'f \<Rightarrow> string + bytes list"
  tl_pkcs8_keys :: "'f \<Rightarrow> string + bytes list"
  tl_roots_empty :: 'roots
  tl_roots_add :: "'roots \<Rightarrow> bytes \<Rightarrow> string + 'roots"
  tl_build_verifier :: "'roots \<Rightarrow> string + 'ver"
  tl_no_client_auth :: "bytes list \<Rightarrow> bytes \<Rightarrow> string + 'crypto"
  tl_with_verifier :: "'ver \<Rightarrow> bytes list \<Rightarrow> bytes \<Rightarrow> string + 'crypto"

record 'crypto tls_acceptor =
  ta_crypto :: 'crypto
  ta_alpn_protocols :: "string list"

section \<open>Loading\<close>

definition load_certs :: "('f, 'roots, 'ver, 'crypto) tls_lib \<Rightarrow> nat \<Rightarrow> string \<Rightarrow> core_error + bytes list" where
  "load_certs T n path =
     try_bind (map_err (\<lambda>e. CoreTls (''cannot open cert file '' @ quoted path @ '': '' @ e)) (tl_open T n path)) (\<lambda>f.
       map_err (\<lambda>e. CoreTls (''cert parse error in '' @ quoted path @ '': '' @ e)) (tl_certs T f))"

definition load_private_key :: "('f, 'roots, 'ver, 'crypto) tls_lib \<Rightarrow> nat \<Rightarrow> string \<Rightarrow> core_error + bytes" where
  "load_private_key T n path =
     try_bind (map_err (\<lambda>e. CoreTls (''cannot open key file '' @ quoted path @ '': '' @ e)) (tl_open T n path)) (\<lambda>f.
     try_bind (map_err (\<lambda>e. CoreTls (''key parse error in '' @ quoted path @ '': '' @ e)) (tl_pkcs8_keys T f)) (\<lambda>raw.
       ok_or (CoreTls (''no PKCS#8 private key found in '' @ quoted path)) (case raw of [] \<Rightarrow> None | der # _ \<Rightarrow> Some der)))"

fun add_roots :: "('f, 'roots, 'ver, 'crypto) tls_lib \<Rightarrow> 'roots \<Rightarrow> bytes list \<Rightarrow> core_error + 'roots" where
  "add_roots T roots [] = Inr roots"
| "add_roots T roots (der # rest) =
     try_bind (map_err (\<lambda>e. CoreTls (''invalid CA cert: '' @ e)) (tl_roots_add T roots der)) (\<lambda>roots. add_roots T roots rest)"

definition build_client_auth :: "('f, 'roots, 'ver, 'crypto) tls_lib \<Rightarrow> nat \<Rightarrow> string \<Rightarrow> core_error + 'ver" where
  "build_client_auth T n ca_path =
     try_bind (map_err (\<lambda>e. CoreTls (''cannot open CA file '' @ quoted ca_path @ '': '' @ e)) (tl_open T n ca_path)) (\<lambda>f.
     try_bind (map_err (\<lambda>e. CoreTls (''CA cert parse error: '' @ e)) (tl_certs T f)) (\<lambda>raw.
     try_bind (add_roots T (tl_roots_empty T) raw) (\<lambda>roots.
       map_err CoreTls (tl_build_verifier T roots))))"

definition build_acceptor :: "('f, 'roots, 'ver, 'crypto) tls_lib \<Rightarrow> tls_config \<Rightarrow> core_error + 'crypto tls_acceptor" where
  "build_acceptor T cfg =
     try_bind (load_certs T 0 (tls_cert_path cfg)) (\<lambda>certs.
     try_bind (load_private_key T 1 (tls_key_path cfg)) (\<lambda>key.
     try_bind (map_err CoreTls (tl_no_client_auth T certs key)) (\<lambda>server_cfg.
     try_bind
       (case tls_client_ca_path cfg of
          None \<Rightarrow> Inr server_cfg
        | Some ca_path \<Rightarrow>
            try_bind (build_client_auth T 2 ca_path) (\<lambda>client_auth.
            try_bind (load_certs T 3 (tls_cert_path cfg)) (\<lambda>certs.
            try_bind (load_private_key T 4 (tls_key_path cfg)) (\<lambda>key.
              map_err CoreTls (tl_with_verifier T client_auth certs key)))))
       (\<lambda>server_cfg. Inr \<lparr>ta_crypto = server_cfg, ta_alpn_protocols = [''h2'', ''http/1.1'']\<rparr>))))"

section \<open>Lemmas\<close>

lemma map_err_Inl: "map_err f r = Inl e \<longleftrightarrow> (\<exists>e'. r = Inl e' \<and> e = f e')"
  by (cases r) (auto simp: map_err_def)

lemmas tls_errors = map_err_Inl try_bind_Inl ok_or_def

text \<open>Every error of this component is a TLS error.\<close>

definition is_tls_error :: "core_error \<Rightarrow> bool" where
  "is_tls_error e \<longleftrightarrow> (\<exists>m. e = CoreTls m)"

lemma is_tls_error_CoreTls [simp]: "is_tls_error (CoreTls m)"
  by (simp add: is_tls_error_def)

lemma load_certs_error: "load_certs T n p = Inl e \<Longrightarrow> is_tls_error e"
  by (auto simp: load_certs_def tls_errors)

lemma load_private_key_error: "load_private_key T n p = Inl e \<Longrightarrow> is_tls_error e"
  by (auto simp: load_private_key_def tls_errors split: option.splits)

lemma add_roots_error: "add_roots T roots ders = Inl e \<Longrightarrow> is_tls_error e"
  by (induction ders arbitrary: roots) (auto simp: tls_errors)

lemma build_client_auth_error: "build_client_auth T n p = Inl e \<Longrightarrow> is_tls_error e"
  by (auto simp: build_client_auth_def tls_errors intro: add_roots_error)

lemma build_acceptor_error: "build_acceptor T cfg = Inl e \<Longrightarrow> is_tls_error e"
  by (auto simp: build_acceptor_def tls_errors split: option.splits
      intro: load_certs_error load_private_key_error build_client_auth_error)

section \<open>Client authentication\<close>

text \<open>What the documentation of rustls says of the pieces: a root store holds the certificates added to it, a verifier
  built from a store trusts its certificates, a configuration completed with a verifier asks every client for a
  certificate that the verifier trusts, one completed without asks for none, and both present the chain and use the key they
  are given. \<open>trusted\<close> reads a store, \<open>anchors\<close> a verifier, \<open>demands\<close> and \<open>presents\<close> a configuration.\<close>

definition rustls_laws ::
  "('f, 'roots, 'ver, 'crypto) tls_lib \<Rightarrow> ('roots \<Rightarrow> bytes set) \<Rightarrow> ('ver \<Rightarrow> bytes set) \<Rightarrow> ('crypto \<Rightarrow> bytes set option) \<Rightarrow>
   ('crypto \<Rightarrow> bytes list \<times> bytes) \<Rightarrow> bool" where
  "rustls_laws T trusted anchors demands presents \<longleftrightarrow>
     trusted (tl_roots_empty T) = {} \<and>
     (\<forall>r d r'. tl_roots_add T r d = Inr r' \<longrightarrow> trusted r' = insert d (trusted r)) \<and>
     (\<forall>r v. tl_build_verifier T r = Inr v \<longrightarrow> anchors v = trusted r) \<and>
     (\<forall>cs k c. tl_no_client_auth T cs k = Inr c \<longrightarrow> demands c = None \<and> presents c = (cs, k)) \<and>
     (\<forall>v cs k c. tl_with_verifier T v cs k = Inr c \<longrightarrow> demands c = Some (anchors v) \<and> presents c = (cs, k))"

text \<open>What is in the file of the \<open>n\<close>-th read: certificates, or a private key.\<close>

definition certs_in :: "('f, 'roots, 'ver, 'crypto) tls_lib \<Rightarrow> nat \<Rightarrow> string \<Rightarrow> bytes list \<Rightarrow> bool" where
  "certs_in T n path ders \<longleftrightarrow> (\<exists>f. tl_open T n path = Inr f \<and> tl_certs T f = Inr ders)"

definition key_in :: "('f, 'roots, 'ver, 'crypto) tls_lib \<Rightarrow> nat \<Rightarrow> string \<Rightarrow> bytes \<Rightarrow> bool" where
  "key_in T n path key \<longleftrightarrow> (\<exists>f rest. tl_open T n path = Inr f \<and> tl_pkcs8_keys T f = Inr (key # rest))"

lemma load_certs_Inr: "load_certs T n p = Inr cs \<longleftrightarrow> certs_in T n p cs"
  by (auto simp: load_certs_def certs_in_def try_bind_Inr)

lemma load_private_key_Inr: "load_private_key T n p = Inr k \<longleftrightarrow> key_in T n p k"
proof -
  have "(case raw of [] \<Rightarrow> None | der # _ \<Rightarrow> Some der) = Some k \<longleftrightarrow> (\<exists>rest. raw = k # rest)" for raw by (cases raw) auto
  then show ?thesis by (auto simp: load_private_key_def key_in_def try_bind_Inr)
qed

lemma add_roots_trusted:
  assumes "rustls_laws T trusted anchors demands presents"
  shows "add_roots T roots ders = Inr roots' \<Longrightarrow> trusted roots' = trusted roots \<union> set ders"
proof (induction ders arbitrary: roots)
  case (Cons d ders)
  then obtain r where "tl_roots_add T roots d = Inr r" "trusted roots' = trusted r \<union> set ders" by (auto simp: try_bind_Inr)
  with assms show ?case by (auto simp: rustls_laws_def)
qed simp

lemma build_client_auth_anchors:
  assumes "rustls_laws T trusted anchors demands presents" and "build_client_auth T n ca = Inr v"
  obtains ders where "certs_in T n ca ders" and "anchors v = set ders"
proof -
  from assms(2) obtain f ders roots where f: "tl_open T n ca = Inr f" "tl_certs T f = Inr ders"
    and roots: "add_roots T (tl_roots_empty T) ders = Inr roots" "tl_build_verifier T roots = Inr v"
    by (auto simp: build_client_auth_def try_bind_Inr)
  have "anchors v = set ders"
    using assms(1) add_roots_trusted [OF assms(1) roots(1)] roots(2) by (auto simp: rustls_laws_def)
  with f that show thesis unfolding certs_in_def by blast
qed

section \<open>A concrete library\<close>

type_synonym list_crypto = "bytes list option \<times> bytes list \<times> bytes"

definition list_tls :: "(bytes list, bytes list, bytes list, list_crypto) tls_lib" where
  "list_tls =
     \<lparr>tl_open = (\<lambda>n p. if p = ''missing.pem'' then Inl ''not found'' else Inr [map of_char p]), tl_certs = Inr, tl_pkcs8_keys = Inr,
      tl_roots_empty = [], tl_roots_add = (\<lambda>r d. Inr (d # r)), tl_build_verifier = Inr,
      tl_no_client_auth = (\<lambda>cs k. Inr (None, cs, k)), tl_with_verifier = (\<lambda>v cs k. Inr (Some v, cs, k))\<rparr>"

lemma list_tls_laws: "rustls_laws list_tls set set (\<lambda>c. map_option set (fst c)) snd"
  by (auto simp: rustls_laws_def list_tls_def)

section \<open>Properties\<close>

text \<open>C22: A listener configured with a client CA never falls back to plain server TLS. An acceptor exists only when the
  certificate file and the key file could be loaded, and it presents the chain and uses the key that were loaded last. If
  \<open>listener.tls.client_ca_path\<close> is set, it exists only when that file could be loaded too, it demands a client
  certificate on every connection, and what it trusts are exactly the certificates of that file; if it is not set, it demands
  none. Nothing else decides this: the settings \<open>auth.mtls.required\<close> and \<open>auth.mtls.client_ca_path\<close>, which the documentation
  names, are not read. Both protocols are offered, HTTP/2 first. When there is no acceptor there is a TLS error.
\<close>

theorem tls_client_auth_enforced:
  assumes "rustls_laws T trusted anchors demands presents"
  shows "case build_acceptor T cfg of
      Inl e \<Rightarrow> \<exists>m. e = CoreTls m
    | Inr a \<Rightarrow> ta_alpn_protocols a = [''h2'', ''http/1.1''] \<and>
        (\<exists>cs k. certs_in T 0 (tls_cert_path cfg) cs \<and> key_in T 1 (tls_key_path cfg) k \<and>
          (case tls_client_ca_path cfg of
             None \<Rightarrow> demands (ta_crypto a) = None \<and> presents (ta_crypto a) = (cs, k)
           | Some ca \<Rightarrow> (\<exists>cas cs' k'. certs_in T 2 ca cas \<and> certs_in T 3 (tls_cert_path cfg) cs' \<and> key_in T 4 (tls_key_path cfg) k' \<and>
               demands (ta_crypto a) = Some (set cas) \<and> presents (ta_crypto a) = (cs', k'))))"
proof (cases "build_acceptor T cfg")
  case (Inl e)
  then show ?thesis using build_acceptor_error by (auto simp: is_tls_error_def)
next
  case (Inr a)
  then obtain cs k c where loaded: "certs_in T 0 (tls_cert_path cfg) cs" "key_in T 1 (tls_key_path cfg) k"
    and c: "tl_no_client_auth T cs k = Inr c" and alpn: "ta_alpn_protocols a = [''h2'', ''http/1.1'']"
    by (auto simp: build_acceptor_def try_bind_Inr load_certs_Inr load_private_key_Inr)
  show ?thesis
  proof (cases "tls_client_ca_path cfg")
    case None
    with Inr obtain cs k where "certs_in T 0 (tls_cert_path cfg) cs" "key_in T 1 (tls_key_path cfg) k"
      "tl_no_client_auth T cs k = Inr (ta_crypto a)"
      by (auto simp: build_acceptor_def try_bind_Inr load_certs_Inr load_private_key_Inr)
    moreover from this(3) assms have "demands (ta_crypto a) = None \<and> presents (ta_crypto a) = (cs, k)"
      by (auto simp: rustls_laws_def)
    ultimately show ?thesis using Inr None alpn by auto
  next
    case (Some ca)
    with Inr obtain v cs' k' where v: "build_client_auth T 2 ca = Inr v" "tl_with_verifier T v cs' k' = Inr (ta_crypto a)"
      and again: "certs_in T 3 (tls_cert_path cfg) cs'" "key_in T 4 (tls_key_path cfg) k'"
      by (auto simp: build_acceptor_def try_bind_Inr load_certs_Inr load_private_key_Inr)
    have d: "demands (ta_crypto a) = Some (anchors v)" "presents (ta_crypto a) = (cs', k')"
      using v(2) assms by (auto simp: rustls_laws_def)
    obtain cas where "certs_in T 2 ca cas" "anchors v = set cas" by (rule build_client_auth_anchors [OF assms v(1)])
    with Inr Some d alpn again loaded show ?thesis by auto
  qed
qed

theorem tls_client_auth_enforced_witness:
  "\<exists>a. build_acceptor list_tls \<lparr>tls_cert_path = ''c'', tls_key_path = ''k'', tls_client_ca_path = Some ''ca''\<rparr> = Inr a \<and>
     map_option set (fst (ta_crypto a)) = Some {[99, 97]} \<and> snd (ta_crypto a) = ([[99]], [107])"
proof -
  let ?cfg = "\<lparr>tls_cert_path = ''c'', tls_key_path = ''k'', tls_client_ca_path = Some ''ca''\<rparr>"
  obtain a where a: "build_acceptor list_tls ?cfg = Inr a"
    by (simp add: build_acceptor_def build_client_auth_def load_certs_def load_private_key_def list_tls_def map_err_def ok_or_def)
  have "certs_in list_tls n ''ca'' cs \<longleftrightarrow> cs = [[99, 97]]" "certs_in list_tls n ''c'' cs \<longleftrightarrow> cs = [[99]]"
    "key_in list_tls n ''k'' key \<longleftrightarrow> key = [107]" for n cs key
    by (auto simp: certs_in_def key_in_def list_tls_def)
  with tls_client_auth_enforced [OF list_tls_laws, of ?cfg] a show ?thesis by auto
qed

end
