(* ===== verification/Startup.thy ===== *)
theory Startup
  imports Server Tls
begin

text \<open>
  Starting the process: the metrics server's \<open>spawn\<close> (\<open>gateway-metrics/src/server.rs\<close>), the start-up part of
  \<open>GatewayServer::run\<close> (\<open>gateway-core/src/server.rs\<close>) up to the accept loop, and \<open>main\<close> (\<open>gateway-proxy/src/main.rs\<close>).

  Binding sockets and parsing socket addresses are the record \<open>os_lib\<close>; spawned tasks are recorded in the order
  of their spawning. What follows the start-up is the system of the theory \<open>Server\<close>.
\<close>

section \<open>Run\<close>

record ('addr, 'lst) os_lib =
  os_parse_addr :: "string \<Rightarrow> 'addr option"
  os_bind_addr :: "'addr \<Rightarrow> string + 'lst"
  os_bind :: "string \<Rightarrow> string + 'lst"

definition metrics_spawn :: "('addr, 'lst) os_lib \<Rightarrow> string \<Rightarrow> metrics_error + 'lst" where
  "metrics_spawn N bind =
     try_bind (ok_or (MeBind bind ''invalid metrics bind address'') (os_parse_addr N bind)) (\<lambda>addr.
       map_err (MeBind bind) (os_bind_addr N addr))"

datatype 'lst task =
    MetricsTask 'lst
  | HealthTask string nat health_check_config
  | ReloadTask nat
  | SignalTask

record ('lst, 'crypto) running =
  rn_listener :: 'lst
  rn_acceptor :: "'crypto tls_acceptor option"
  rn_system :: server_system

definition listen ::
  "('addr, 'lst) os_lib \<Rightarrow> ('f, 'roots, 'ver, 'crypto) tls_lib \<Rightarrow> listener_config \<Rightarrow> core_error + ('lst, 'crypto) running" where
  "listen N T cfg =
     try_bind (map_err (BindError (ls_bind cfg)) (os_bind N (ls_bind cfg))) (\<lambda>listener.
     try_bind (case ls_tls cfg of None \<Rightarrow> Inr None | Some tls_cfg \<Rightarrow> map_sum id Some (build_acceptor T tls_cfg)) (\<lambda>tls_acceptor.
       Inr \<lparr>rn_listener = listener, rn_acceptor = tls_acceptor, rn_system = server_start\<rparr>))"

definition gateway_run ::
  "('addr, 'lst) os_lib \<Rightarrow> ('f, 'roots, 'ver, 'crypto) tls_lib \<Rightarrow> config_watcher \<Rightarrow> ('re, 'sem, 'r) gateway_state \<Rightarrow>
   'lst task list \<times> (core_error + ('lst, 'crypto) running)" where
  "gateway_run N T w st =
     (let cfg = watcher_current w
      in case metrics_spawn N (ob_metrics_bind (gc_observability cfg)) of
           Inl e \<Rightarrow> ([], Inl (CoreMetrics (metrics_error_display e)))
         | Inr metrics_listener \<Rightarrow>
             (MetricsTask metrics_listener # map (\<lambda>(n, i, hc). HealthTask n i hc) (spawn_health_checks (gs_upstreams st))
                @ [ReloadTask (watcher_subscribe w), SignalTask],
              listen N T (gc_listener cfg)))"

section \<open>Main\<close>

text \<open>An error of \<open>main\<close> is the context that \<open>anyhow\<close> attaches and the display of its cause.\<close>

definition config_path_of :: "string list \<Rightarrow> string" where
  "config_path_of args = (if 1 < length args then args ! 1 else ''config.yaml'')"

definition main_run ::
  "(string \<Rightarrow> string + string) \<Rightarrow> (string \<Rightarrow> string + gateway_config) \<Rightarrow> ('re, 'cap) regex_lib \<Rightarrow> 'sem semaphore_lib \<Rightarrow>
   ('fam, 'reg, 'cl, 'r) connectors \<Rightarrow> ('addr, 'lst) os_lib \<Rightarrow> ('f, 'roots, 'ver, 'crypto) tls_lib \<Rightarrow> string list \<Rightarrow>
   ('lst task list \<times>
     ((string \<times> string) + (config_watcher \<times> ('re, 'sem, 'r) gateway_state \<times> usize \<times> ('lst, 'crypto) running))) rust" where
  "main_run read_file from_yaml RE S C N T args =
     (let config_path = config_path_of args
      in case watcher_load read_file from_yaml (re_new RE) config_path of
Inl e \<Rightarrow> Ret ([], Inl (''failed to load config from '' @ quoted config_path, config_error_display e))
         | Inr w \<Rightarrow>
             rust_bind (gateway_build RE S C (watcher_current w)) (\<lambda>built.
               case built of
                 Inl e \<Rightarrow> Ret ([], Inl (''server build failed'', core_error_display e))
               | Inr (st, max_body_bytes, shutdown) \<Rightarrow>
                   (case gateway_run N T w st of
                      (tasks, Inl e) \<Rightarrow> Ret (tasks, Inl (''server run failed'', core_error_display e))
                    | (tasks, Inr running) \<Rightarrow> Ret (tasks, Inr (w, st, max_body_bytes, running)))))"

section \<open>Lemmas\<close>

lemma watcher_load_Inr:
  "watcher_load rf yaml compile p = Inr w \<longleftrightarrow>
     (\<exists>cfg. parse_and_validate rf yaml compile p = Inr cfg \<and> w = \<lparr>cw_path = p, cw_inner = cfg, cw_notify = cfg, cw_sent = 0\<rparr>)"
  by (auto simp: watcher_load_def try_bind_Inr)

lemma gateway_build_Inr:
  assumes "gateway_build RE S C cfg = Ret (Inr (st, limit, sd))"
  shows "router_build RE cfg = Inr (router_current (gs_router st))" and "gs_upstreams st = registry_build cfg"
    and "limiter_build S cfg = Ret (gs_concurrency st)" and "limit = ls_max_body_bytes (gc_listener cfg)" and "gs_keys st = None"
  using assms
  by (auto simp: gateway_build_def rust_bind_eq try_bind_Inr router_handle_new_def router_current_def auth_pipeline_new_def
      jwt_provider_new_def Let_def map_sum_Inr split: sum.splits)

text \<open>The two things \<open>listen\<close> needs.\<close>

definition can_listen ::
  "('addr, 'lst) os_lib \<Rightarrow> ('f, 'roots, 'ver, 'crypto) tls_lib \<Rightarrow> listener_config \<Rightarrow> bool" where
  "can_listen N T cfg \<longleftrightarrow> (\<exists>l. os_bind N (ls_bind cfg) = Inr l) \<and>
     (case ls_tls cfg of None \<Rightarrow> True | Some t \<Rightarrow> (\<exists>a. build_acceptor T t = Inr a))"

lemma listen_Inr:
  "listen N T cfg = Inr r \<longleftrightarrow>
     os_bind N (ls_bind cfg) = Inr (rn_listener r) \<and> rn_system r = server_start \<and>
     (case ls_tls cfg of
        None \<Rightarrow> rn_acceptor r = None
      | Some t \<Rightarrow> (\<exists>a. build_acceptor T t = Inr a \<and> rn_acceptor r = Some a))"
  by (cases r) (auto simp: listen_def try_bind_Inr map_sum_Inr split: option.splits)

lemma listen_possible: "(\<exists>r. listen N T cfg = Inr r) \<longleftrightarrow> can_listen N T cfg"
proof
  assume "can_listen N T cfg"
  then obtain l a where "os_bind N (ls_bind cfg) = Inr l"
    "case ls_tls cfg of None \<Rightarrow> a = None | Some t \<Rightarrow> (\<exists>x. build_acceptor T t = Inr x \<and> a = Some x)"
    by (auto simp: can_listen_def split: option.splits)
  then show "\<exists>r. listen N T cfg = Inr r"
    by (intro exI [of _ "\<lparr>rn_listener = l, rn_acceptor = a, rn_system = server_start\<rparr>"]) (auto simp: listen_Inr split: option.splits)
qed (auto simp: listen_Inr can_listen_def split: option.splits)

lemma metrics_spawn_Inr:
  "metrics_spawn N b = Inr l \<longleftrightarrow> (\<exists>addr. os_parse_addr N b = Some addr \<and> os_bind_addr N addr = Inr l)"
  by (auto simp: metrics_spawn_def try_bind_Inr)

definition start_tasks :: "'lst \<Rightarrow> gateway_config \<Rightarrow> 'lst task list" where
  "start_tasks ml cfg = MetricsTask ml # map (\<lambda>(n, i, hc). HealthTask n i hc) (spawn_health_checks (registry_build cfg)) @
     [ReloadTask 0, SignalTask]"

lemma main_run_Inr:
  "main_run rf yaml RE S C N T args = Ret (tasks, Inr (w, st, limit, r)) \<longleftrightarrow>
     watcher_load rf yaml (re_new RE) (config_path_of args) = Inr w \<and>
     (\<exists>sd. gateway_build RE S C (cw_inner w) = Ret (Inr (st, limit, sd))) \<and>
     (\<exists>ml. metrics_spawn N (ob_metrics_bind (gc_observability (cw_inner w))) = Inr ml \<and> tasks = start_tasks ml (cw_inner w)) \<and>
     listen N T (gc_listener (cw_inner w)) = Inr r"
proof (cases "watcher_load rf yaml (re_new RE) (config_path_of args)")
  case w: (Inr w')
  show ?thesis
  proof (cases "gateway_build RE S C (cw_inner w')")
    case (Ret b)
    with w show ?thesis
      by (cases b) (auto simp: main_run_def gateway_run_def watcher_current_def watcher_subscribe_def start_tasks_def Let_def
          gateway_build_Inr(2) split: sum.splits prod.splits)
  qed (use w in \<open>auto simp: main_run_def watcher_current_def\<close>)
qed (simp add: main_run_def)

lemma config_path_cases: "config_path_of args = (case args of _ # p # _ \<Rightarrow> p | _ \<Rightarrow> ''config.yaml'')"
  by (auto simp: config_path_of_def split: list.split)

section \<open>A concrete start\<close>

definition ex_os :: "(string, string) os_lib" where
  "ex_os = \<lparr>os_parse_addr = Some, os_bind_addr = Inr, os_bind = Inr\<rparr>"

definition start_config :: gateway_config where
  "start_config = (sample_config [sample_root])\<lparr>gc_listener := (gc_listener (sample_config []))\<lparr>ls_tls :=
     Some \<lparr>tls_cert_path = ''c'', tls_key_path = ''k'', tls_client_ca_path = Some ''ca''\<rparr>\<rparr>\<rparr>"

lemma start_config_valid: "validate (re_new literal_regex) start_config = Inr ()"
proof -
  have "str_trim ''root'' \<noteq> []" by code_simp
  then show ?thesis
    by (simp add: validate_Inr config_ok_def route_ok_def upstream_ok_def start_config_def sample_root_def sample_upstream_def
        middleware_config_default_def)
qed

lemma start_config_loads: "parse_and_validate Inr (\<lambda>s. Inr start_config) (re_new literal_regex) p = Inr start_config"
  using start_config_valid by (simp add: parse_and_validate_def map_err_def)

lemma start_config_listens: "can_listen ex_os list_tls (gc_listener start_config)"
  by (simp add: can_listen_def ex_os_def start_config_def build_acceptor_def build_client_auth_def load_certs_def
      load_private_key_def list_tls_def map_err_def ok_or_def)

lemma start_config_fits: "limits_fit start_config"
proof -
  have "(10000 :: usize) \<le> MAX_PERMITS" unfolding MAX_PERMITS_def by code_simp
  then show ?thesis
    by (simp add: limits_fit_def start_config_def sample_root_def) (simp add: sample_config_def default_max_concurrent_requests_def)
qed

section \<open>Properties\<close>



text \<open>C15: What is running after the start is what the configuration says. The configuration in force passed validation, the
  router, the pools and the concurrency limits are built from it; connections are accepted with TLS exactly if TLS is configured, and then
  with the acceptor of that configuration; every endpoint with a health check has its task, the metrics server, the reload
  task and the signal handler run; no connection is open and the reload system starts in a state in which router
  and configuration agree.
\<close>

theorem startup_safe:
  assumes "main_run rf yaml RE S C N T args = Ret (tasks, Inr (w, st, limit, r))"
  shows "\<exists>cfg ml. parse_and_validate rf yaml (re_new RE) (case args of _ # p # _ \<Rightarrow> p | _ \<Rightarrow> ''config.yaml'') = Inr cfg \<and> watcher_current w = cfg \<and>
    validate (re_new RE) cfg = Inr () \<and>
    router_build RE cfg = Inr (router_current (gs_router st)) \<and> gs_upstreams st = registry_build cfg \<and>
    limiter_build S cfg = Ret (gs_concurrency st) \<and>
    map_option Inr (rn_acceptor r) = map_option (build_acceptor T) (ls_tls (gc_listener cfg)) \<and>
    tasks = MetricsTask ml # map (\<lambda>(n, i, hc). HealthTask n i hc) (spawn_health_checks (registry_build cfg)) @
      [ReloadTask 0, SignalTask] \<and>
    rn_system r = server_start \<and>
    (\<exists>s. reload_start RE w = Inr s \<and> reload_inv RE s \<and> rl_router s = gs_router st)"
proof -
  from assms obtain ml sd where w: "watcher_load rf yaml (re_new RE) (config_path_of args) = Inr w"
    and b: "gateway_build RE S C (cw_inner w) = Ret (Inr (st, limit, sd))"
    and t: "tasks = start_tasks ml (cw_inner w)" and l: "listen N T (gc_listener (cw_inner w)) = Inr r"
    by (auto simp: main_run_Inr)
  have p: "parse_and_validate rf yaml (re_new RE) (config_path_of args) = Inr (cw_inner w)" using w by (auto simp: watcher_load_Inr)
  obtain s where s: "reload_start RE w = Inr s" "rl_router s = gs_router st"
    using gateway_build_Inr(1) [OF b]
    by (auto simp: reload_start_def watcher_current_def router_handle_new_def router_current_def)
  have "map_option Inr (rn_acceptor r) = map_option (build_acceptor T) (ls_tls (gc_listener (cw_inner w)))"
    using l by (auto simp: listen_Inr split: option.splits)
  with p t l s reload_inv_start [OF w s(1)] gateway_build_Inr(1-3) [OF b] parse_and_validate_Inr [OF p] show ?thesis
    by (auto simp: watcher_current_def start_tasks_def listen_Inr config_path_cases)
qed

theorem startup_safe_witness:
  "\<exists>tasks w st limit r. main_run Inr (\<lambda>s. Inr start_config) literal_regex nat_semaphore ex_connectors ex_os list_tls
      [''stateform'', ''prod.yaml''] = Ret (tasks, Inr (w, st, limit, r)) \<and>
     rn_acceptor r \<noteq> None \<and> watcher_current w = start_config \<and> gs_upstreams st = registry_build start_config"
proof -
  let ?main = "main_run Inr (\<lambda>s. Inr start_config) literal_regex nat_semaphore ex_connectors ex_os list_tls [''stateform'', ''prod.yaml'']"
  obtain w where w: "watcher_load Inr (\<lambda>s. Inr start_config) (re_new literal_regex) (config_path_of [''stateform'', ''prod.yaml'']) = Inr w"
    "cw_inner w = start_config"
    using start_config_loads by (auto simp: watcher_load_Inr)
  obtain l where "limiter_build nat_semaphore start_config = Ret l" using limiter_build_cases(1) start_config_fits by blast
  then obtain st limit sd where "gateway_build literal_regex nat_semaphore ex_connectors start_config = Ret (Inr (st, limit, sd))"
    using gateway_starts [OF start_config_valid ex_connectors_ok, where S = nat_semaphore] by auto
  moreover obtain r where "listen ex_os list_tls (gc_listener start_config) = Inr r"
    using start_config_listens listen_possible by blast
  moreover have "metrics_spawn ex_os b = Inr b" for b by (simp add: metrics_spawn_Inr ex_os_def)
  ultimately obtain tasks where m: "?main = Ret (tasks, Inr (w, st, limit, r))"
    using w by (auto simp: main_run_Inr)
  have tls: "ls_tls (gc_listener start_config) \<noteq> None" by (simp add: start_config_def)
  from startup_safe [OF m] start_config_loads tls m show ?thesis by fastforce
qed

end
