(* ===== verification/Gateway.thy ===== *)
theory Gateway
  imports Startup
begin

text \<open>
  The running gateway over many requests: from the state \<open>main\<close> starts with, through any sequence of requests, health
  marks and reloads, every response that comes from an upstream was received from an active endpoint that the start
  configuration gives to the route's upstream. Reloads replace the router only, so this is the configuration the
  process was started with.
\<close>

section \<open>Pools of a configuration\<close>

definition pool_matches :: "upstream_config \<Rightarrow> upstream_pool \<Rightarrow> bool" where
  "pool_matches u pool \<longleftrightarrow> up_config pool = u \<and>
     map es_address (up_endpoints pool) = map ec_address (filter ec_active (uc_endpoints u))"

definition pools_ok :: "gateway_config \<Rightarrow> ('re, 'sem, 'r) gateway_state \<Rightarrow> bool" where
  "pools_ok cfg st \<longleftrightarrow>
     (\<forall>n pool. registry_get (gs_upstreams st) n = Some pool \<longrightarrow>
        (\<exists>u. map_of (gc_upstreams cfg) n = Some u \<and> pool_matches u pool))"

text \<open>What other tasks do while a request waits: they may change anything but the configuration and the addresses of the
  pools. The lemmas below show that every task keeps to it.\<close>

definition keeps_pools :: "gateway_config \<Rightarrow> ('hm, 'hv, 'u, 're, 'cap, 'key, 'j, 'sem, 'r) request_env \<Rightarrow> bool" where
  "keeps_pools cfg E \<longleftrightarrow>
     (\<forall>n s. pools_ok cfg s \<longrightarrow> pools_ok cfg (pe_others E n s)) \<and>
     (\<forall>u p. pool_matches u p \<longrightarrow> pool_matches u (pe_pool_others E p))"

lemma pools_ok_build: "gs_upstreams st = registry_build cfg \<Longrightarrow> pools_ok cfg st"
  by (auto simp: pools_ok_def registry_get_build pool_matches_def pool_new_def)

lemma pools_ok_cong: "pools_ok cfg st \<Longrightarrow> gs_upstreams st' = gs_upstreams st \<Longrightarrow> pools_ok cfg st'"
  by (simp add: pools_ok_def)

lemma pools_ok_update:
  assumes "pools_ok cfg st" and "map_of (gc_upstreams cfg) n = Some u" and "pool_matches u pool"
    and "gs_upstreams st' = \<lparr>ur_pools = AList.update n pool (ur_pools (gs_upstreams st))\<rparr>"
  shows "pools_ok cfg st'"
  using assms by (auto simp: pools_ok_def registry_get_def update_conv')

lemma pool_matches_update:
  assumes "pool_matches u pool" and "es_address (f (up_endpoints pool ! i)) = es_address (up_endpoints pool ! i)"
  shows "pool_matches u (update_endpoint i f pool)"
proof -
  have "map es_address ((up_endpoints pool)[i := f (up_endpoints pool ! i)]) = map es_address (up_endpoints pool)"
    by (cases "i < length (up_endpoints pool)") (simp_all add: map_update assms(2) list_update_same_conv list_update_beyond)
  with assms(1) show ?thesis by (simp add: pool_matches_def update_endpoint_def)
qed

lemma pool_matches_send_end: "pool_matches u pool \<Longrightarrow> pool_matches u (send_end i el pool)"
  unfolding send_end_def by (rule pool_matches_update) (simp_all add: conns_add_def Let_def)

lemma pool_matches_select: "pool_matches u pool \<Longrightarrow> pool_matches u (pool\<lparr>up_rr_counter := c\<rparr>)"
  by (simp add: pool_matches_def)

lemma send_keeps_pool:
  assumes "send L client nanos el others pool req key = Ret (result, attempts, pool')" and "pool_matches u pool"
    and "\<And>p. pool_matches u p \<Longrightarrow> pool_matches u (others p)"
  shows "pool_matches u pool'"
proof -
  obtain r pool1 where b: "send_begin pool key = Ret (r, pool1)"
    using assms(1) by (cases "send_begin pool key") (auto simp: send_def)
  have p1: "pool_matches u pool1"
  proof -
    obtain x c where "select_endpoint (up_endpoints pool) (uc_load_balancing (up_config pool)) key (up_rr_counter pool) = Ret (x, c)"
      using b by (cases "select_endpoint (up_endpoints pool) (uc_load_balancing (up_config pool)) key (up_rr_counter pool)")
        (auto simp: send_begin_def)
    with b have "pool1 = pool\<lparr>up_rr_counter := c\<rparr> \<or> (\<exists>i. pool1 = update_endpoint i (conns_add 1) (pool\<lparr>up_rr_counter := c\<rparr>))"
      by (auto simp: send_begin_def Let_def split: option.splits)
    then show ?thesis
      using pool_matches_select [OF assms(2), of c]
        pool_matches_update [OF pool_matches_select [OF assms(2)], where f = "conns_add 1"]
      by (auto simp: conns_add_def)
  qed
  show ?thesis
  proof (cases r)
    case (Inl e)
    with assms(1) b p1 show ?thesis by (simp add: send_def)
  next
    case (Inr i)
    with assms(1) b obtain uri where "rewrite_uri L (es_address (up_endpoints pool1 ! i)) (rq_uri req) = Ret uri"
      by (cases "rewrite_uri L (es_address (up_endpoints pool1 ! i)) (rq_uri req)") (auto simp: send_def)
    with assms(1) b Inr pool_matches_send_end [OF assms(3) [OF p1]] show ?thesis
      by (auto simp: send_def split: prod.splits)
  qed
qed

section \<open>One request\<close>

definition small_pools :: "gateway_config \<Rightarrow> bool" where
  "small_pools cfg \<longleftrightarrow> (\<forall>n u. map_of (gc_upstreams cfg) n = Some u \<longrightarrow> length (uc_endpoints u) < 2 ^ 64)"

lemma keeps_poolsD:
  assumes "keeps_pools cfg E"
  shows "pools_ok cfg s \<Longrightarrow> pools_ok cfg (pe_others E n s)" and "pool_matches u p \<Longrightarrow> pool_matches u (pe_pool_others E p)"
  using assms by (simp_all add: keeps_pools_def)

text \<open>The pools keep their addresses through every stage.\<close>

lemma stage_pools:
  assumes "keeps_pools cfg E" and "pools_ok cfg st"
  shows "pools_ok cfg (pe_others E 1 (st\<lparr>gs_concurrency := l\<rparr>))"
    and "pools_ok cfg (pe_others E 2 ((pe_others E 1 (st\<lparr>gs_concurrency := l\<rparr>))\<lparr>gs_keys := keys\<rparr>))"
    and "at_check E st req = Some (m, ctx, st2) \<Longrightarrow> pools_ok cfg (pe_others E 3 (st2\<lparr>gs_ratelimit := rl\<rparr>))"
    and "at_lookup E st req = Some (m, st3) \<Longrightarrow> pools_ok cfg (pe_others E 4 (st3\<lparr>gs_cache := c\<rparr>))"
    and "at_proxy E st req = Some (m, st4) \<Longrightarrow> pools_ok cfg st4"
proof -
  have others: "pools_ok cfg (pe_others E n s')" if "pools_ok cfg s" "gs_upstreams s' = gs_upstreams s" for n s s'
    by (rule keeps_poolsD(1) [OF assms(1) pools_ok_cong [OF that]])
  show s1: "pools_ok cfg (pe_others E 1 (st\<lparr>gs_concurrency := l\<rparr>))" for l by (rule others [OF assms(2)]) simp
  show s2: "pools_ok cfg (pe_others E 2 ((pe_others E 1 (st\<lparr>gs_concurrency := l\<rparr>))\<lparr>gs_keys := keys\<rparr>))" for l keys
    by (rule others [OF s1]) simp
  show s3: "pools_ok cfg (pe_others E 3 (st2\<lparr>gs_ratelimit := rl\<rparr>))" if "at_check E st req = Some (m, ctx, st2)" for ctx st2 rl
    using that by (rule at_check_gate) (simp add: others [OF s2])
  show s4: "pools_ok cfg (pe_others E 4 (st3\<lparr>gs_cache := c\<rparr>))" if "at_lookup E st req = Some (m, st3)" for st3 c
    using that by (rule at_lookup_check) (simp add: others [OF s3])
  show "pools_ok cfg st4" if "at_proxy E st req = Some (m, st4)"
    using that by (rule at_proxy_lookup) (simp add: s4)
qed

lemma proxy_pools:
  assumes "keeps_pools cfg E" and "pools_ok cfg st" and "proxy E i m req effs st = Ret (resp, effs', st')"
  shows "pools_ok cfg st'"
proof -
  have sent: "pools_ok cfg (after_send E (mr_upstream m) pool' st)"
    if got: "registry_get (gs_upstreams st) (mr_upstream m) = Some pool"
      and run: "request_send E req m pool = Ret (result, attempts, pool')"
    for pool result attempts pool'
  proof -
    obtain u where u: "map_of (gc_upstreams cfg) (mr_upstream m) = Some u" "pool_matches u pool"
      using assms(2) got by (auto simp: pools_ok_def)
    have "pool_matches u pool'" by (rule send_keeps_pool [OF run u(2)]) (rule keeps_poolsD(2) [OF assms(1)])
    from pools_ok_update [OF assms(2) u(1) this] show ?thesis unfolding after_send_def by (rule keeps_poolsD(1) [OF assms(1)]) simp
  qed
  show ?thesis
  proof (cases rule: proxy_cases [of st m E i req effs])
    case no_pool
    with assms(2,3) show ?thesis by (auto dest!: fail_parts)
  next
    case (send_failed pool e attempts pool')
    with assms(3) sent show ?thesis by (auto dest!: fail_parts)
  next
    case (answered pool r el attempts pool' cache effs2)
    have "pools_ok cfg (pe_others E 6 ((after_send E (mr_upstream m) pool' st)\<lparr>gs_cache := cache\<rparr>))"
      by (rule keeps_poolsD(1) [OF assms(1) pools_ok_cong [OF sent [OF answered(1,2)]]]) simp
    then show ?thesis using assms(3) unfolding answered(5) by (auto simp: rust_bind_eq)
  qed (use assms(3) in simp_all)
qed

lemma handle_pools:
  assumes "keeps_pools cfg E" and "pools_ok cfg st" and "handle E st req = Ret (resp, effs, st')"
  shows "pools_ok cfg st'"
proof (cases rule: handle_cases [of E st req])
  case unrouted
  with assms(2,3) show ?thesis by (auto dest!: fail_parts)
next
  case (refused m msg l)
  show ?thesis using assms(3) stage_pools(1) [OF assms(1,2)] unfolding refused(3) by (auto simp: rust_bind_eq)
next
  case (unauthenticated m permit l e keys)
  show ?thesis using assms(3) stage_pools(2) [OF assms(1,2)] unfolding unauthenticated(4)
    by (auto simp: bind_drop_permit pools_ok_def dest!: fail_parts)
next
  case (limited m ctx st2 permit l out rl)
  show ?thesis using assms(3) stage_pools(3) [OF assms(1,2) limited(1)] unfolding limited(5)
    by (auto simp: rust_bind_eq drop_permit_def pools_ok_def)
next
  case (cached m st3 permit l e cache effs')
  show ?thesis using assms(3) stage_pools(4) [OF assms(1,2) cached(1)] unfolding cached(5)
    by (auto simp: rust_bind_eq drop_permit_def pools_ok_def)
next
  case (proxied m st4 permit l effs')
  with assms(3) obtain x where p: "proxy E (request_id_of E (rq_headers req)) m req effs' st4 = Ret (resp, effs, x)"
    and x: "gs_upstreams st' = gs_upstreams x" by (auto simp: bind_drop_permit)
  show ?thesis by (rule pools_ok_cong [OF proxy_pools [OF assms(1) stage_pools(5) [OF assms(1,2) proxied(1)] p] x])
qed (use assms(3) in simp)

text \<open>A request that puts something on the wire, and what it answers.\<close>

lemma proxy_answer:
  assumes "proxy E i m req effs st = Ret (resp, effs', st')" and "metrics_ok effs" and "Sent q \<in> set effs'"
  shows "gateway_made E resp \<or> (\<exists>j hs. pe_client E q j = Received (rs_status resp) hs (Inr (rs_body resp)))"
proof -
  have sent: "Sent q \<in> set (filter is_sent effs')" using assms(3) by simp
  show ?thesis
  proof (cases rule: proxy_cases [of st m E i req effs])
    case no_pool
    with assms(1) have run: "fail E 502 ''upstream not configured'' i effs st = Ret (resp, effs', st')" by simp
    have "gateway_made E resp" by (rule fail_made [OF run]) simp
    then show ?thesis ..
  next
    case (send_failed pool e attempts pool')
    have s: "(case e of UpstreamTimeout _ \<Rightarrow> 504 | _ \<Rightarrow> 502) \<in> {401, 403, 404, 429, 500, 502, 503, 504 :: u16}" by (cases e) simp_all
    have "gateway_made E resp" by (rule fail_made [OF assms(1) [unfolded send_failed(3)] s])
    then show ?thesis ..
  next
    case (answered pool r el attempts pool' cache effs2)
    obtain rq k where rq: "attempts = replicate (Suc k) rq"
      "pe_client E rq k = Received (rs_status r) (rs_headers r) (Inr (rs_body r))" using answered(2) by (rule send_answered)
    have "filter is_sent effs' = map Sent attempts" and "rs_status resp = rs_status r" and "rs_body resp = rs_body r"
      using assms(1) metrics_ok_sends [OF assms(2)] metrics_ok_sends [OF answered(4)] unfolding answered(5)
      by (auto simp: rust_bind_eq build_upstream_response_def Let_def split: option.splits)
    with sent rq show ?thesis by (auto simp del: replicate_Suc)
  qed (use assms(1) in simp_all)
qed

text \<open>It went to an active endpoint of the route's upstream in the configuration.\<close>

lemma wire_configured:
  assumes "pools_ok cfg st" and "small_pools cfg" and "wire_effects E m req st effs" and "Sent q \<in> set effs"
  shows "\<exists>u e. map_of (gc_upstreams cfg) (mr_upstream m) = Some u \<and> e \<in> set (uc_endpoints u) \<and> ec_active e \<and>
    addressed_to (pe_http E) (ec_address e) (rq_uri req) (rq_uri q) \<and> rq_method q = rq_method req \<and> rq_body q = rq_body req"
proof -
  have sent: "Sent q \<in> set (filter is_sent effs)" using assms(4) by simp
  then obtain pool result attempts pool' where pool: "registry_get (gs_upstreams st) (mr_upstream m) = Some pool"
    and s: "request_send E req m pool = Ret (result, attempts, pool')" and f: "filter is_sent effs = map Sent attempts"
    using assms(3) unfolding wire_effects_def by (metis empty_iff list.set(1))
  obtain u where u: "map_of (gc_upstreams cfg) (mr_upstream m) = Some u" "pool_matches u pool"
    using assms(1) pool by (auto simp: pools_ok_def)
  have addrs: "map es_address (up_endpoints pool) = map ec_address (filter ec_active (uc_endpoints u))"
    using u(2) by (simp add: pool_matches_def)
  have "length (up_endpoints pool) \<le> length (uc_endpoints u)" using arg_cong [OF addrs, of length] by simp
  with assms(2) u(1) have len: "length (up_endpoints pool) < 2 ^ 64" unfolding small_pools_def by (meson le_less_trans)
  have "attempts \<noteq> []" using f sent by auto
  then obtain n rq where "attempts = replicate n rq" and w: "sent_to (pe_http E) m req pool rq"
    using request_send_wire [OF s] by blast
  with sent f have q: "sent_to (pe_http E) m req pool q" by auto
  then obtain i where i: "i < length (up_endpoints pool)"
    "addressed_to (pe_http E) (es_address (up_endpoints pool ! i)) (rq_uri req) (rq_uri q)"
    using len by (auto simp: sent_to_def clone_request_def)
  have "es_address (up_endpoints pool ! i) \<in> set (map es_address (up_endpoints pool))" using i(1) by simp
  then obtain e where "e \<in> set (uc_endpoints u)" "ec_active e" "ec_address e = es_address (up_endpoints pool ! i)"
    unfolding addrs by auto
  with u(1) i(2) sent_to_parts [OF q] show ?thesis by auto
qed

lemma handle_request_ok:
  assumes "keeps_pools cfg E" and "small_pools cfg" and "pools_ok cfg st" and "handle E st req = Ret (resp, effs, st')"
    and "Sent q \<in> set effs"
  shows "(gateway_made E resp \<or> (\<exists>j hs. pe_client E q j = Received (rs_status resp) hs (Inr (rs_body resp)))) \<and>
    (\<exists>m u e. routed E st req = Inr m \<and> map_of (gc_upstreams cfg) (mr_upstream m) = Some u \<and> e \<in> set (uc_endpoints u) \<and> ec_active e \<and>
      addressed_to (pe_http E) (ec_address e) (rq_uri req) (rq_uri q) \<and> rq_method q = rq_method req \<and> rq_body q = rq_body req)"
proof -
  have sent: "\<not> no_sends effs" using assms(5) by (auto simp: filter_empty_conv intro!: bexI [of _ "Sent q"])
  with handle_effects [OF assms(4)] obtain m st4 where m: "at_proxy E st req = Some (m, st4)" "wire_effects E m req st4 effs" by blast
  have "gateway_made E resp \<or> (\<exists>j hs. pe_client E q j = Received (rs_status resp) hs (Inr (rs_body resp)))"
  proof (cases rule: handle_cases [of E st req])
    case (proxied m' st4' permit l effs')
    with assms(4) obtain x where "proxy E (request_id_of E (rq_headers req)) m' req effs' st4' = Ret (resp, effs, x)"
      by (auto simp: bind_drop_permit)
    from proxy_answer [OF this proxied(3) assms(5)] show ?thesis .
  next
    case (cached m' st3 permit l e cache effs')
    with m(1) show ?thesis by (simp add: at_proxy_def)
  next
    case (look_hung m' st3)
    with assms(4) show ?thesis by simp
  next
    case (limited m' ctx st2 permit l out rl)
    with m(1) show ?thesis by (simp add: at_proxy_def at_lookup_def)
  qed (use m(1) in \<open>simp_all add: at_proxy_def at_lookup_def at_check_def Let_def\<close>)
  with wire_configured [OF stage_pools(5) [OF assms(1,3) m(1)] assms(2) m(2) assms(5)] stage_routed(3) [OF m(1)]
  show ?thesis by blast
qed

text \<open>Through the server: what is not handled has no effect.\<close>

lemma serve_request_cases:
  assumes "serve_request E limited uuid limit st parts body = Ret (resp, effs, st')"
  obtains (large) "effs = []" "st' = st"
  | (handled) bytes where "read_body limited limit body = Some bytes"
      "handle (E\<lparr>pe_cert := None\<rparr>) st
        (parts\<lparr>rq_headers := ensure_request_id (pe_http E) uuid (rq_headers parts), rq_body := bytes\<rparr>) = Ret (resp, effs, st')"
  using assms by (auto simp: serve_request_def Let_def rust_bind_eq split: if_splits option.splits)

lemma keeps_pools_cert: "keeps_pools cfg E \<Longrightarrow> keeps_pools cfg (E\<lparr>pe_cert := c\<rparr>)"
  by (simp add: keeps_pools_def)

lemma serve_request_pools:
  assumes "keeps_pools cfg E" and "pools_ok cfg st" and "serve_request E limited uuid limit st parts body = Ret (resp, effs, st')"
  shows "pools_ok cfg st'"
  using assms(3)
proof (cases rule: serve_request_cases)
  case large
  with assms(2) show ?thesis by simp
next
  case (handled bytes)
  from handle_pools [OF keeps_pools_cert [OF assms(1)] assms(2) handled(2)] show ?thesis .
qed

section \<open>The running gateway\<close>

text \<open>Requests whose surroundings keep to the rule, rounds of the health-check tasks on single endpoints, reloads of the
  router, and what the surroundings of a request do: so that requests that have not ended, or never end because they
  hang, are covered too. A request that panics is no step of the model: in the release profile a
  panic aborts, and the process is gone.\<close>

inductive gateway_step ::
  "('re, 'cap) regex_lib \<Rightarrow> ('hm, 'hv, 'u, 're, 'cap, 'key, 'j, 'sem, 'r) request_env set \<Rightarrow>
   ('b \<Rightarrow> usize \<Rightarrow> string + bytes) \<Rightarrow> usize \<Rightarrow> ('re, 'sem, 'r) gateway_state \<Rightarrow> ('re, 'sem, 'r) gateway_state \<Rightarrow> bool"
  for RE envs limited limit where
  gw_request: "E \<in> envs \<Longrightarrow> serve_request E limited uuid limit st parts body = Ret (resp, effs, st') \<Longrightarrow>
     gateway_step RE envs limited limit st st'"
| gw_probe: "registry_get (gs_upstreams st) n = Some pool \<Longrightarrow>
     gateway_step RE envs limited limit st (st\<lparr>gs_upstreams := \<lparr>ur_pools =
       AList.update n (update_endpoint i (\<lambda>e. snd (health_check_round hc now result e)) pool) (ur_pools (gs_upstreams st))\<rparr>\<rparr>)"
| gw_reload: "router_rebuild RE (gs_router st) new_cfg = (r, h) \<Longrightarrow>
     gateway_step RE envs limited limit st (st\<lparr>gs_router := h\<rparr>)"
| gw_others: "E \<in> envs \<Longrightarrow> gateway_step RE envs limited limit st (pe_others E n st)"

lemma health_check_round_address: "es_address (snd (health_check_round hc now r e)) = es_address e"
  by (simp add: health_check_round_mark mark_def mark_success_def mark_failure_def transition_to_def Let_def
      split: option.split prod.split)

interpretation running: invariant_system "gateway_step RE envs limited limit"
  "\<lambda>st. small_pools cfg \<and> (\<forall>E \<in> envs. keeps_pools cfg E) \<and> pools_ok cfg st" for cfg RE envs limited limit
proof unfold_locales
  fix st st'
  assume step: "gateway_step RE envs limited limit st st'"
    and inv: "small_pools cfg \<and> (\<forall>E \<in> envs. keeps_pools cfg E) \<and> pools_ok cfg st"
  have "pools_ok cfg st'"
    using step
  proof (cases rule: gateway_step.cases)
    case (gw_request E uuid parts body resp effs)
    with inv serve_request_pools [OF _ _ gw_request(2), of cfg] show ?thesis by simp
  next
    case (gw_probe n pool i hc now result)
    with inv obtain u where u: "map_of (gc_upstreams cfg) n = Some u" "pool_matches u pool" unfolding pools_ok_def by blast
    have "pool_matches u (update_endpoint i (\<lambda>e. snd (health_check_round hc now result e)) pool)"
      by (rule pool_matches_update [OF u(2)]) (rule health_check_round_address)
    note matches = this
    show ?thesis unfolding gw_probe(1) by (rule pools_ok_update [OF _ u(1) matches]) (use inv in simp_all)
  next
    case (gw_reload new_cfg r h)
    show ?thesis unfolding gw_reload(1) by (rule pools_ok_cong [of cfg st]) (use inv in simp_all)
  next
    case (gw_others E n)
    with inv keeps_poolsD(1) show ?thesis by metis
  qed
  with inv show "small_pools cfg \<and> (\<forall>E \<in> envs. keeps_pools cfg E) \<and> pools_ok cfg st'" by blast
qed

section \<open>Properties\<close>

text \<open>C5: Requests reach configured endpoints only. The process was started with a configuration that loaded and validated;
  since then any number of requests were served, endpoints probed and routers reloaded. Then whatever a request puts on the wire
  has its method, its path and its body, and goes to the address of an active endpoint of the route's upstream in the configuration
  the process was started with; and the response is an error of the gateway, or exactly the status and the body that the client
  received for it.\<close>

theorem only_configured_endpoints:
  assumes "main_run rf yaml RE S C N T args = Ret (tasks, Inr (w, st0, limit, r))"
    and "small_pools (watcher_current w)" and "\<forall>E \<in> envs. keeps_pools (watcher_current w) E"
    and "(gateway_step RE envs limited limit)\<^sup>*\<^sup>* st0 st" and "E \<in> envs"
    and "serve_request E limited uuid limit st parts body = Ret (resp, effs, st')" and "Sent rq \<in> set effs"
  shows "\<exists>m bytes u e. read_body limited limit body = Some bytes \<and>
      match_request (pe_http E) (pe_regex E) (router_current (gs_router st)) (uri_path (pe_http E) (rq_uri parts))
        (rq_method parts) (ensure_request_id (pe_http E) uuid (rq_headers parts)) = Inr m \<and>
      map_of (gc_upstreams (watcher_current w)) (mr_upstream m) = Some u \<and> e \<in> set (uc_endpoints u) \<and> ec_active e \<and>
      addressed_to (pe_http E) (ec_address e) (rq_uri parts) (rq_uri rq) \<and> rq_method rq = rq_method parts \<and> rq_body rq = bytes \<and>
      (gateway_made E resp \<or> (\<exists>j hs. pe_client E rq j = Received (rs_status resp) hs (Inr (rs_body resp))))"
proof -
  let ?cfg = "watcher_current w"
  from assms(1) obtain sd where "gateway_build RE S C ?cfg = Ret (Inr (st0, limit, sd))"
    by (auto simp: main_run_Inr watcher_current_def)
  then have "pools_ok ?cfg st0" by (rule pools_ok_build [OF gateway_build_Inr(2)])
  then have ok: "pools_ok ?cfg st" using running.inv_steps [OF assms(4)] assms(2,3) by blast
  from assms(6) show ?thesis
  proof (cases rule: serve_request_cases)
    case large
    with assms(7) show ?thesis by simp
  next
    case (handled bytes)
    have "keeps_pools ?cfg (E\<lparr>pe_cert := None\<rparr>)" by (rule keeps_pools_cert) (use assms(3,5) in blast)
    from handle_request_ok [OF this assms(2) ok handled(2) assms(7)] handled(1) show ?thesis
      by (auto simp: gateway_made_def)
  qed
qed

definition gw_config :: gateway_config where
  "gw_config = (sample_config ex_routes)\<lparr>gc_cache := \<lparr>cc_redis_url = ''redis://localhost'', cc_l1_capacity = 2\<rparr>\<rparr>"

lemma gw_build:
  "gateway_build literal_regex nat_semaphore ex_connectors gw_config =
     Ret (Inr (sample_state, ls_max_body_bytes (gc_listener gw_config), coordinator_new))"
proof -
  have r: "router_build literal_regex gw_config = Inr (ex_router ex_routes)"
    using ex_router_built [of ex_routes] by (simp add: router_build_def gw_config_def)
  have "(10000 :: usize) \<le> MAX_PERMITS" unfolding MAX_PERMITS_def by code_simp
  then have l: "limiter_build nat_semaphore gw_config = Ret sample_limiter"
    by (simp add: limiter_build_def gw_config_def sample_limiter_def ex_routes_def map_filter_simps collect_map_def)
      (simp add: nat_semaphore_def sample_config_def default_max_concurrent_requests_def)
  have u: "registry_build gw_config = registry_build (sample_config ex_routes)" by (simp add: registry_build_def gw_config_def)
  obtain m where m: "metrics_new (cn_mk ex_connectors) (cn_register ex_connectors) (cn_registry ex_connectors) = Inr m"
    using metrics_new_ok [OF ex_connectors_ok(1)] by blast
  have p: "rlc_policies (gc_rate_limiting gw_config) = []" "cc_l1_capacity (gc_cache gw_config) = 2" by (simp_all add: gw_config_def)
  show ?thesis
    by (simp add: gateway_build_def m map_err_def router_handle_new_def r l u rate_limiter_new_def p response_cache_new_def
        l2_cache_new_def auth_pipeline_new_def api_key_provider_new_def jwt_provider_new_def redis_connect_def sample_state_def
        empty_cache_def Let_def) (simp add: ex_connectors_def m [unfolded ex_connectors_def, simplified] l u)
qed

lemma gw_config_loads: "parse_and_validate Inr (\<lambda>s. Inr gw_config) (re_new literal_regex) p = Inr gw_config"
proof -
  have "str_trim ''root'' \<noteq> []" "str_trim ''api'' \<noteq> []" "str_trim ''status'' \<noteq> []" by code_simp+
  then have "validate (re_new literal_regex) gw_config = Inr ()"
    by (simp add: validate_Inr config_ok_def route_ok_def upstream_ok_def gw_config_def ex_routes_def sample_upstream_def
        middleware_config_default_def)
  then show ?thesis by (simp add: parse_and_validate_def map_err_def)
qed

lemma gw_started:
  "\<exists>tasks w r. main_run Inr (\<lambda>s. Inr gw_config) literal_regex nat_semaphore ex_connectors ex_os list_tls [''stateform''] =
     Ret (tasks, Inr (w, sample_state, ls_max_body_bytes (gc_listener gw_config), r)) \<and> watcher_current w = gw_config"
proof -
  obtain w where w: "watcher_load Inr (\<lambda>s. Inr gw_config) (re_new literal_regex) (config_path_of [''stateform'']) = Inr w"
    "cw_inner w = gw_config"
    using gw_config_loads by (auto simp: watcher_load_Inr)
  have "can_listen ex_os list_tls (gc_listener gw_config)" by (simp add: can_listen_def ex_os_def gw_config_def sample_config_def)
  then obtain r where "listen ex_os list_tls (gc_listener gw_config) = Inr r" using listen_possible by blast
  moreover have "metrics_spawn ex_os b = Inr b" for b by (simp add: metrics_spawn_Inr ex_os_def)
  ultimately show ?thesis using w gw_build by (auto simp: main_run_Inr watcher_current_def)
qed

theorem only_configured_endpoints_witness:
  "\<exists>tasks w r resp effs st'. main_run Inr (\<lambda>s. Inr gw_config) literal_regex nat_semaphore ex_connectors ex_os list_tls [''stateform''] =
      Ret (tasks, Inr (w, sample_state, ls_max_body_bytes (gc_listener gw_config), r)) \<and>
    serve_request sample_env (\<lambda>b n. Inr b) ''r1'' (ls_max_body_bytes (gc_listener gw_config)) sample_state sample_request [] =
      Ret (resp, effs, st') \<and>
    (\<exists>e rq. e \<in> set (uc_endpoints sample_upstream) \<and> ec_active e \<and> rq_uri rq = ''http://'' @ ec_address e @ ''/API//users/7'' \<and>
       pe_client sample_env rq 0 = Received (rs_status resp) [] (Inr (rs_body resp)))"
proof -
  obtain tasks w r where m: "main_run Inr (\<lambda>s. Inr gw_config) literal_regex nat_semaphore ex_connectors ex_os list_tls [''stateform''] =
      Ret (tasks, Inr (w, sample_state, ls_max_body_bytes (gc_listener gw_config), r))" and w: "watcher_current w = gw_config"
    using gw_started by blast
  let ?h = "ensure_request_id alist_http ''r1'' []" and ?limit = "ls_max_body_bytes (gc_listener gw_config)"
  obtain resp st' evs where ok: "rs_status resp = 200" and hd: "handle sample_env sample_state (sample_with ?h) =
     Ret (resp, map Metric (record_cache_lookup ''api'' Bypass) @ Sent (sample_wire ?h) # map Metric evs, st')"
    using sample_handled by blast
  have env: "sample_env\<lparr>pe_cert := None\<rparr> = sample_env" by (simp add: sample_env_def)
  have s: "serve_request sample_env (\<lambda>b n. Inr b) ''r1'' ?limit sample_state sample_request [] =
      Ret (resp, map Metric (record_cache_lookup ''api'' Bypass) @ Sent (sample_wire ?h) # map Metric evs, st')"
    using hd by (simp add: serve_request_def read_body_def env Let_def sample_env_sel) (simp add: sample_with_def header_str_def alist_http_def al_get_Nil)
  have k: "\<forall>E \<in> {sample_env}. keeps_pools (watcher_current w) E" by (simp add: keeps_pools_def sample_env_sel)
  have l: "small_pools (watcher_current w)" by (simp add: small_pools_def w gw_config_def sample_upstream_def)
  have g: "\<not> gateway_made sample_env resp" using ok by (simp add: gateway_made_def)
  from only_configured_endpoints [OF m l k rtranclp.rtrancl_refl _ s, of "sample_wire ?h"] g
  obtain mt u e rq' j hs where *: "map_of (gc_upstreams gw_config) (mr_upstream mt) = Some u" "e \<in> set (uc_endpoints u)" "ec_active e"
    "addressed_to alist_http (ec_address e) (rq_uri sample_request) (rq_uri rq')"
    "pe_client sample_env rq' j = Received (rs_status resp) hs (Inr (rs_body resp))"
    by (auto simp: w sample_env_sel sample_with_def)
  have "u = sample_upstream" using *(1) by (simp add: gw_config_def split: if_splits)
  moreover have "rq_uri rq' = ''http://'' @ ec_address e @ ''/API//users/7''"
    using *(4) by (simp add: addressed_to_def alist_http_def sample_with_def)
  moreover have "pe_client sample_env rq' 0 = Received (rs_status resp) [] (Inr (rs_body resp))"
    using *(5) by (simp add: sample_env_sel)
  ultimately show ?thesis using m s *(2,3) by blast
qed

end
