(* ===== verification/Redis_Scripts.thy ===== *)
theory Redis_Scripts
  imports RateLimit
begin

text \<open>
  The two Lua scripts of \<open>gateway-ratelimit/src/l2_redis.rs\<close>, which Redis runs atomically. Lua numbers are
  binary64, Redis stores them exactly; the state of a key is its hash fields (token bucket) or its sorted
  set, an association list from member to score (sliding window), and the time on the server's clock, in milliseconds, at
  which the server deletes it. \<open>expire_ok\<close> says whether Redis accepts a time to live; a refused EXPIRE is an error of
  the script, after the writes before it, and leaves the time of deletion as it was. The integer arguments of the sliding
  window are exact as Lua numbers below \<open>2^53\<close>.
  Division by zero gives a value that is not finite, which EXPIRE refuses.
  The last sections run the checks of the second layer against a server that evaluates the scripts. Three clocks matter
  there: the replicas', which the scripts compute with, and the server's, which deletes keys.
\<close>

section \<open>Token bucket\<close>

record tb_hash =
  th_tokens :: f64
  th_last_refill :: f64

definition f64_ceil :: "f64 \<Rightarrow> int" where
  "f64_ceil x = \<lceil>x\<rceil>"

definition f64_div :: "f64 \<Rightarrow> f64 \<Rightarrow> f64" where
  "f64_div a b = f64_round (a / b)"

text \<open>EXPIRE at the server's time \<open>server\<close>.\<close>

definition expire :: "nat \<Rightarrow> int \<Rightarrow> nat option" where
  "expire server ttl = Some (server + nat ttl * 1000)"

definition tb_script ::
  "(int \<Rightarrow> bool) \<Rightarrow> nat \<Rightarrow> f64 \<Rightarrow> f64 \<Rightarrow> f64 \<Rightarrow> tb_hash option \<Rightarrow> nat option \<Rightarrow>
   (string + int list) \<times> tb_hash option \<times> nat option" where
  "tb_script expire_ok server capacity refill_rate now data deadline =
     (let tokens0 = (case data of None \<Rightarrow> capacity | Some h \<Rightarrow> th_tokens h);
          last_refill = (case data of None \<Rightarrow> now | Some h \<Rightarrow> th_last_refill h);
          elapsed = max 0 (f64_sub now last_refill);
          tokens1 = min capacity (f64_add tokens0 (f64_mul elapsed refill_rate));
          allowed = (1 \<le> tokens1);
          tokens = (if allowed then f64_sub tokens1 1 else tokens1);
          stored = Some \<lparr>th_tokens = tokens, th_last_refill = now\<rparr>
      in if refill_rate = 0 then (Inl ''ERR value is not an integer or out of range'', stored, deadline)
         else (let retry_after_ms = (if allowed then 0
                       else f64_ceil (f64_mul (f64_div (f64_sub 1 tokens) refill_rate) 1000));
                   ttl = f64_ceil (f64_div capacity refill_rate) + 10
in if expire_ok ttl
                  then (Inr [if allowed then 1 else 0, \<lfloor>tokens\<rfloor>, retry_after_ms], stored, expire server ttl)
                  else (Inl ''ERR value is not an integer or out of range'', stored, deadline)))"

section \<open>Sliding window\<close>

type_synonym zset = "(string \<times> f64) list"

text \<open>ZREMRANGEBYSCORE from minus infinity, ZADD, and the smallest score (ZRANGE 0 0 WITHSCORES).\<close>

definition zremrangebyscore :: "f64 \<Rightarrow> zset \<Rightarrow> zset" where
  "zremrangebyscore hi z = filter (\<lambda>(m, s). \<not> s \<le> hi) z"

definition zadd :: "f64 \<Rightarrow> string \<Rightarrow> zset \<Rightarrow> zset" where
  "zadd s m z = AList.update m s z"

definition zoldest :: "zset \<Rightarrow> f64 option" where
  "zoldest z = (if z = [] then None else Some (Min (snd ` set z)))"

text \<open>A key whose last member is removed is gone, with its time of deletion.\<close>

definition sw_script ::
  "(int \<Rightarrow> bool) \<Rightarrow> nat \<Rightarrow> nat \<Rightarrow> nat \<Rightarrow> f64 \<Rightarrow> string \<Rightarrow> zset \<Rightarrow> nat option \<Rightarrow>
   (string + int list) \<times> zset \<times> nat option" where
  "sw_script expire_ok server max_requests window now req_id z0 deadline0 =
     (let window_start = f64_sub now (of_nat window);
          z1 = zremrangebyscore window_start z0;
          deadline = (if z1 = [] then None else deadline0);
          count = length z1;
          allowed = count < max_requests;
          z2 = (if allowed then zadd now req_id z1 else z1);
          retry_after_ms =
            (if allowed then 0
             else (case zoldest z1 of
                     None \<Rightarrow> 0
                   | Some oldest_ts \<Rightarrow> f64_ceil (f64_mul (f64_sub (f64_add oldest_ts (of_nat window)) now) 1000)));
          remaining = max 0 (int max_requests - int count - (if allowed then 1 else 0));
          ttl = int window + 5
      in if expire_ok ttl then (Inr [if allowed then 1 else 0, remaining, retry_after_ms], z2, expire server ttl)
         else (Inl ''ERR value is not an integer or out of range'', z2, deadline))"

section \<open>The token bucket in Redis\<close>

definition tb_inv :: "f64 \<Rightarrow> tb_hash option \<Rightarrow> bool" where
  "tb_inv capacity data \<longleftrightarrow>
     (case data of None \<Rightarrow> True
      | Some h \<Rightarrow> 0 \<le> th_tokens h \<and> th_tokens h \<le> capacity \<and> f64_round (th_tokens h) = th_tokens h)"

lemma tb_script_inv [gw_inv]:
  assumes "tb_inv capacity data" and "0 \<le> capacity" and "f64_round capacity = capacity" and "0 \<le> rate"
    and "tb_script eo sv capacity rate now data d = (r, data', d')"
  shows "tb_inv capacity data'"
proof -
  let ?t0 = "case data of None \<Rightarrow> capacity | Some h \<Rightarrow> th_tokens h"
  let ?el = "max 0 (f64_sub now (case data of None \<Rightarrow> now | Some h \<Rightarrow> th_last_refill h))"
  let ?t1 = "min capacity (f64_add ?t0 (f64_mul ?el rate))"
  have t0: "0 \<le> ?t0" using assms(1,2) by (cases data) (auto simp: tb_inv_def)
  have "0 \<le> f64_mul ?el rate" using assms(4) by (simp add: f64_mul_def f64_round_nonneg)
  then have t1: "0 \<le> ?t1" "?t1 \<le> capacity" "f64_round ?t1 = ?t1"
    using t0 assms(2,3) by (simp_all add: f64_add_def f64_round_nonneg min_def)
  obtain h where h: "data' = Some h" "th_tokens h = (if 1 \<le> ?t1 then f64_sub ?t1 1 else ?t1)"
    using assms(5) by (auto simp: tb_script_def Let_def split: if_splits)
  have bounds: "0 \<le> v \<and> v \<le> capacity \<and> f64_round v = v"
    if "0 \<le> t" "t \<le> capacity" "f64_round t = t" "v = (if 1 \<le> t then f64_sub t 1 else t)" for t v
  proof (cases "1 \<le> t")
    case True
    from f64_sub_one_bounds [OF True that(3)] that(2,4) True show ?thesis by (simp add: f64_sub_def)
  qed (use that in simp)
  from bounds [OF t1 h(2)] h(1) show ?thesis by (simp add: tb_inv_def)
qed

text \<open>The tokens and the time a key without data stands for, and what one call of the script can let through.\<close>

definition tb_tokens :: "f64 \<Rightarrow> tb_hash option \<Rightarrow> f64" where
  "tb_tokens capacity data = (case data of None \<Rightarrow> capacity | Some h \<Rightarrow> th_tokens h)"

definition tb_last :: "f64 \<Rightarrow> tb_hash option \<Rightarrow> f64" where
  "tb_last now data = (case data of None \<Rightarrow> now | Some h \<Rightarrow> th_last_refill h)"

definition tb_refilled :: "f64 \<Rightarrow> f64 \<Rightarrow> f64 \<Rightarrow> tb_hash option \<Rightarrow> f64" where
  "tb_refilled capacity rate now data =
     min (f64_add (tb_tokens capacity data) (f64_mul (max 0 (f64_sub now (tb_last now data))) rate)) capacity"

lemma tb_script_parts:
  assumes "tb_script eo sv capacity rate now data d = (r, data', d')"
  shows "data' = Some \<lparr>th_tokens = (if 1 \<le> tb_refilled capacity rate now data
      then f64_sub (tb_refilled capacity rate now data) 1 else tb_refilled capacity rate now data), th_last_refill = now\<rparr>"
and "rate \<noteq> 0 \<Longrightarrow> eo (f64_ceil (f64_div capacity rate) + 10) \<Longrightarrow>
      (\<exists>rest. r = Inr ((if 1 \<le> tb_refilled capacity rate now data then 1 else 0) # rest)) \<and>
      d' = expire sv (f64_ceil (f64_div capacity rate) + 10)"
  using assms
  by (auto simp: tb_script_def tb_refilled_def tb_tokens_def tb_last_def Let_def min.commute split: if_splits)

lemma tb_script_gain:
  assumes "tb_inv capacity data" and "0 \<le> capacity" and "0 \<le> rate" and "tb_last now data \<le> now"
    and "tb_script eo sv capacity rate now data d = (r, Some h, d')"
  shows "(if 1 \<le> tb_refilled capacity rate now data then 1 else 0) + th_tokens h \<le>
    tb_tokens capacity data + (now - tb_last now data) * rate * (1 + f64_eps) ^ 2 + 2 * f64_eps * capacity"
proof -
  let ?el = "max 0 (f64_sub now (tb_last now data))"
  let ?t = "tb_refilled capacity rate now data"
  have el: "0 \<le> ?el" "?el \<le> (now - tb_last now data) * (1 + f64_eps)"
    using f64_round_le [of "now - tb_last now data"] assms(4) by (simp_all add: f64_sub_def)
  have m: "0 \<le> f64_mul ?el rate" using assms(3) el(1) by (simp add: f64_mul_def f64_round_nonneg)
  have "f64_mul ?el rate \<le> ?el * rate * (1 + f64_eps)"
    unfolding f64_mul_def using assms(3) el(1) by (intro f64_round_le) simp
  also have "\<dots> \<le> (now - tb_last now data) * (1 + f64_eps) * rate * (1 + f64_eps)"
    using assms(3) el(2) by (intro mult_right_mono) simp_all
  finally have "f64_mul ?el rate \<le> (now - tb_last now data) * rate * (1 + f64_eps) ^ 2"
    by (simp add: power2_eq_square algebra_simps)
  moreover have "?t \<le> tb_tokens capacity data + f64_mul ?el rate + f64_eps * capacity"
    unfolding tb_refilled_def using assms(1,2) m
    by (intro capped_add_gain) (auto simp: tb_inv_def tb_tokens_def split: option.splits)
  moreover have "(if 1 \<le> ?t then 1 else 0) + (if 1 \<le> ?t then f64_sub ?t 1 else ?t) \<le> ?t + f64_eps * capacity"
    using assms(2) by (intro take_one_gain) (simp_all add: tb_refilled_def)
  moreover have "th_tokens h = (if 1 \<le> ?t then f64_sub ?t 1 else ?t)" using tb_script_parts(1) [OF assms(5)] by simp
  ultimately show ?thesis by linarith
qed

text \<open>A bucket that the server deleted is full when it is used again. It was full anyway, up to rounding: its time to live is
  the time it takes to fill.\<close>

lemma tb_expired_gain:
  assumes "tb_inv capacity (Some h0)" and "0 \<le> capacity" and "0 < rate"
    and "of_int (f64_ceil (f64_div capacity rate)) \<le> now - th_last_refill h0"
    and "tb_script eo sv capacity rate now None d = (r, Some h, d')"
  shows "(if 1 \<le> tb_refilled capacity rate now None then 1 else 0) + th_tokens h \<le>
    th_tokens h0 + (now - th_last_refill h0) * rate * (1 + f64_eps) ^ 2 + 2 * f64_eps * capacity"
proof -
  let ?t = "tb_refilled capacity rate now None" and ?g = "(now - th_last_refill h0) * rate"
  have "th_tokens h = (if 1 \<le> ?t then f64_sub ?t 1 else ?t)" using tb_script_parts(1) [OF assms(5)] by simp
  moreover have "(if 1 \<le> ?t then 1 else 0) + (if 1 \<le> ?t then f64_sub ?t 1 else ?t) \<le> ?t + f64_eps * capacity"
    using assms(2) by (intro take_one_gain) (simp_all add: tb_refilled_def)
  moreover have "?t \<le> capacity" by (simp add: tb_refilled_def)
  moreover have "capacity \<le> ?g * (1 + f64_eps) ^ 2"
  proof -
    have "capacity / rate * (1 - f64_eps) \<le> f64_div capacity rate"
      unfolding f64_div_def using assms(2,3) by (intro f64_round_ge) simp
    also have "\<dots> \<le> of_int (f64_ceil (f64_div capacity rate))" unfolding f64_ceil_def by (rule le_of_int_ceiling)
    also note assms(4)
    finally have "capacity / rate * (1 - f64_eps) * rate \<le> ?g" using assms(3) by (intro mult_right_mono) simp_all
    then have "capacity * (1 - f64_eps) \<le> ?g" using assms(3) by simp
    then have "capacity * (1 - f64_eps) * (1 + f64_eps) ^ 2 \<le> ?g * (1 + f64_eps) ^ 2" by (intro mult_right_mono) simp_all
    moreover have "capacity * 1 \<le> capacity * ((1 - f64_eps) * (1 + f64_eps) ^ 2)"
      using assms(2) by (intro mult_left_mono) (simp_all add: f64_eps_def power2_eq_square)
    ultimately show ?thesis by (simp add: mult.assoc)
  qed
  moreover have "0 \<le> th_tokens h0" "0 \<le> f64_eps * capacity" using assms(1,2) by (simp_all add: tb_inv_def)
  ultimately show ?thesis by linarith
qed

section \<open>The sliding window in Redis\<close>

text \<open>A run of the script on one key: times, request identifiers and the server's times; the admitted requests are collected.\<close>

definition kept :: "nat \<Rightarrow> zset \<Rightarrow> nat option \<Rightarrow> zset" where
  "kept server z deadline = (case deadline of Some d \<Rightarrow> if d \<le> server then [] else z | None \<Rightarrow> z)"

fun sw_run :: "(int \<Rightarrow> bool) \<Rightarrow> nat \<Rightarrow> nat \<Rightarrow> (f64 \<times> string \<times> nat) list \<Rightarrow> zset \<Rightarrow> nat option \<Rightarrow> (f64 \<times> string) list" where
  "sw_run eo n w [] z d = []"
| "sw_run eo n w ((t, i, s) # evs) z d =
     (let z0 = kept s z d;
          z1 = zremrangebyscore (f64_sub t (of_nat w)) z0;
          z2 = (if length z1 < n then zadd t i z1 else z1)
      in (if length z1 < n then [(t, i)] else []) @ sw_run eo n w evs z2 (if z2 = [] then None else expire s (int w + 5)))"

lemma sw_script_parts:
  assumes "eo (int w + 5)"
  shows "\<exists>r. sw_script eo s n w t i z d =
    (let z1 = zremrangebyscore (f64_sub t (of_nat w)) z
     in (Inr ((if length z1 < n then 1 else 0) # r), if length z1 < n then zadd t i z1 else z1, expire s (int w + 5)))"
  using assms by (simp add: sw_script_def Let_def)

lemma length_update: "length (AList.update k v xs) \<le> Suc (length xs)"
  by (induction xs) auto

lemma set_zremrangebyscore: "set (zremrangebyscore h z) = {p \<in> set z. h < snd p}"
  by (auto simp: zremrangebyscore_def)

lemma zadd_fresh: "m \<notin> fst ` set z \<Longrightarrow> zadd s m z = z @ [(m, s)]"
  unfolding zadd_def by (induction z) auto

text \<open>The window of a set: the admitted requests younger than the window start that are all still in it.\<close>

definition sw_inv :: "nat \<Rightarrow> f64 \<Rightarrow> (f64 \<times> string) list \<Rightarrow> zset \<Rightarrow> bool" where
  "sw_inv n ws adm z \<longleftrightarrow>
     length z \<le> n \<and> set z \<subseteq> prod.swap ` set adm \<and>
     (\<forall>(t, i) \<in> set adm. ws < t \<longrightarrow> (i, t) \<in> set z) \<and> distinct (map snd adm)"

definition in_window :: "f64 \<Rightarrow> (f64 \<times> string) list \<Rightarrow> nat" where
  "in_window ws adm = length (filter (\<lambda>(t, i). ws < t) adm)"

lemma in_window_le:
  assumes "sw_inv n ws adm z"
  shows "in_window ws adm \<le> length (zremrangebyscore ws z)"
proof -
  let ?f = "filter (\<lambda>(t, i). ws < t) adm"
  have "distinct adm" using assms by (simp add: sw_inv_def distinct_map)
  then have "distinct (map prod.swap ?f)" by (simp add: distinct_map)
  then have "length (map prod.swap ?f) = card (set (map prod.swap ?f))" by (rule distinct_card [symmetric])
  also have "\<dots> \<le> card (set (zremrangebyscore ws z))"
    using assms by (intro card_mono) (auto simp: sw_inv_def set_zremrangebyscore)
  also have "\<dots> \<le> length (zremrangebyscore ws z)" by (rule card_length)
  finally show ?thesis by (simp add: in_window_def)
qed

lemma sw_inv_mono:
  assumes "sw_inv n ws adm z" and "ws \<le> ws'"
  shows "sw_inv n ws' adm (zremrangebyscore ws' z)"
proof -
  have "length (zremrangebyscore ws' z) \<le> length z" by (simp add: zremrangebyscore_def)
  with assms show ?thesis
    by (fastforce simp: sw_inv_def set_zremrangebyscore)
qed

lemma sw_inv_admit:
  assumes "sw_inv n ws adm z" and "length z < n" and "i \<notin> snd ` set adm"
  shows "sw_inv n ws (adm @ [(t, i)]) (zadd t i z)"
proof -
  have "i \<notin> fst ` set z" using assms(1,3) by (force simp: sw_inv_def)
  then have "zadd t i z = z @ [(i, t)]" by (rule zadd_fresh)
  with assms show ?thesis by (auto simp: sw_inv_def)
qed

lemma f64_sub_mono: "a \<le> b \<Longrightarrow> f64_sub a c \<le> f64_sub b c"
  unfolding f64_sub_def by (rule f64_round_mono) simp

text \<open>Clocks: the times of the requests are binary64 numbers, and the clocks of the replicas are within \<open>skew\<close> seconds of the
  server's. What the server deletes are entries that are out of every window to come.\<close>

definition clock_ok :: "rat \<Rightarrow> f64 \<Rightarrow> nat \<Rightarrow> bool" where
  "clock_ok skew t server \<longleftrightarrow> f64_round t = t \<and> \<bar>t - of_nat server / 1000\<bar> \<le> skew"

lemma clock_okD:
  assumes "clock_ok skew t server"
  shows "f64_round t = t" and "of_nat server / 1000 - skew \<le> t" and "t \<le> of_nat server / 1000 + skew"
  using assms by (simp_all add: clock_ok_def abs_le_iff)

definition outlived :: "nat \<Rightarrow> (f64 \<times> string) list \<Rightarrow> nat option \<Rightarrow> bool" where
  "outlived w adm d \<longleftrightarrow> (\<forall>x. d = Some x \<longrightarrow> (\<forall>t \<in> fst ` set adm. f64_round t = t \<and> t \<le> of_nat x / 1000 - of_nat w - 5 / 2))"

lemma sw_inv_kept:
  assumes "sw_inv n ws adm z" and "ws \<le> f64_sub t (of_nat w)" and "outlived w adm d" and "clock_ok (5 / 2) t s"
  shows "sw_inv n (f64_sub t (of_nat w)) adm (zremrangebyscore (f64_sub t (of_nat w)) (kept s z d))"
proof (cases "kept s z d = z")
  case True
  with sw_inv_mono [OF assms(1,2)] show ?thesis by simp
next
  case False
  then obtain x where x: "d = Some x" "x \<le> s" "kept s z d = []" by (auto simp: kept_def split: option.splits if_splits)
  have "t' \<le> f64_sub t (of_nat w)" if "t' \<in> fst ` set adm" for t'
  proof -
    have "t' \<le> of_nat x / 1000 - of_nat w - 5 / 2" and exact: "f64_round t' = t'" using assms(3) x(1) that by (auto simp: outlived_def)
    moreover have "(of_nat x :: rat) \<le> of_nat s" using x(2) by simp
    moreover note clock_okD(2) [OF assms(4)]
    ultimately have "t' \<le> t - of_nat w" by linarith
    then have "f64_round t' \<le> f64_round (t - of_nat w)" by (rule f64_round_mono)
    with exact show ?thesis by (simp add: f64_sub_def)
  qed
  then have "\<forall>(t', i) \<in> set adm. \<not> f64_sub t (of_nat w) < t'" by (force simp: not_less)
  with assms(1) x(3) show ?thesis by (auto simp: sw_inv_def zremrangebyscore_def)
qed

lemma outlived_step:
  assumes "clock_ok (5 / 2) t s" and "\<forall>t' \<in> fst ` set adm. t' \<le> t" and "\<forall>t' \<in> fst ` set adm. f64_round t' = t'"
  shows "outlived w adm (if z = [] then None else expire s (int w + 5))"
proof -
  note clock_okD(3) [OF assms(1)]
  moreover have "nat (int w + 5) = w + 5" by simp
  ultimately show ?thesis using assms(2,3)
    by (force simp: outlived_def expire_def field_simps)
qed

lemma sw_run_window:
  assumes "adm = sw_run eo n w evs z d" and "sw_inv n ws adm0 z" and "outlived w adm0 d"
    and "\<forall>t \<in> fst ` set evs. ws \<le> f64_sub t (of_nat w) \<and> (\<forall>t' \<in> fst ` set adm0. t' \<le> t)" and "sorted (map fst evs)"
    and "\<forall>(t, i, s) \<in> set evs. clock_ok (5 / 2) t s" and "\<forall>t \<in> fst ` set adm0. f64_round t = t"
    and "distinct (map snd adm0 @ map (fst \<circ> snd) evs)" and "k < length adm"
  shows "in_window (f64_sub (fst (adm ! k)) (of_nat w)) (adm0 @ take k adm) < n"
  using assms
proof (induction evs arbitrary: z d adm ws adm0 k)
  case (Cons ev evs)
  obtain t i s where ev: "ev = (t, i, s)" by (cases ev)
  let ?ws = "f64_sub t (of_nat w)"
  let ?z1 = "zremrangebyscore ?ws (kept s z d)"
  let ?z2 = "if length ?z1 < n then zadd t i ?z1 else ?z1"
  let ?d2 = "if ?z2 = [] then None else expire s (int w + 5)"
  let ?adm1 = "sw_run eo n w evs ?z2 ?d2"
  have adm: "adm = (if length ?z1 < n then [(t, i)] else []) @ ?adm1" using Cons.prems(1) ev by (simp add: Let_def)
  have clock: "clock_ok (5 / 2) t s" "f64_round t = t" "\<forall>(t, i, s) \<in> set evs. clock_ok (5 / 2) t s"
    using Cons.prems(6) ev by (auto simp: clock_ok_def)
  have inv: "sw_inv n ?ws adm0 ?z1" using Cons.prems(2-4) ev clock(1) by (intro sw_inv_kept [where ws = ws]) auto
  have srt: "sorted (map fst evs)" "\<forall>t' \<in> fst ` set evs. t \<le> t'" using Cons.prems(5) ev by auto
  have later: "\<forall>t' \<in> fst ` set evs. ?ws \<le> f64_sub t' (of_nat w)" using srt(2) by (auto intro!: f64_sub_mono)
  have old: "\<forall>t' \<in> fst ` set adm0. t' \<le> t" using Cons.prems(4) ev by auto
  show ?case
  proof (cases "length ?z1 < n")
    case True
    have "length (zremrangebyscore ?ws ?z1) \<le> length ?z1" by (simp add: zremrangebyscore_def)
    with in_window_le [OF inv] True have first: "in_window ?ws adm0 < n" by linarith
    let ?adm = "adm0 @ [(t, i)]"
    have inv2: "sw_inv n ?ws ?adm ?z2" using True Cons.prems(8) ev by (simp, intro sw_inv_admit [OF inv True]) auto
    have out2: "outlived w ?adm ?d2" by (rule outlived_step [OF clock(1)]) (use old clock(2) Cons.prems(7) in auto)
    have later2: "\<forall>t' \<in> fst ` set evs. ?ws \<le> f64_sub t' (of_nat w) \<and> (\<forall>u \<in> fst ` set ?adm. u \<le> t')"
      using later srt(2) old by fastforce
    show ?thesis
    proof (cases k)
      case 0
      with first True adm show ?thesis by simp
    next
      case (Suc j)
      have "j < length ?adm1" using Suc Cons.prems(9) adm True by simp
      moreover have "distinct (map snd ?adm @ map (fst \<circ> snd) evs)" using Cons.prems(8) ev by (simp add: comp_def)
      moreover have "\<forall>t \<in> fst ` set ?adm. f64_round t = t" using clock(2) Cons.prems(7) by auto
      ultimately have "in_window (f64_sub (fst (?adm1 ! j)) (of_nat w)) (?adm @ take j ?adm1) < n"
        using Cons.IH [OF refl inv2 out2 later2 srt(1) clock(3)] by blast
      with Suc adm True show ?thesis by simp
    qed
  next
    case False
    have inv2: "sw_inv n ?ws adm0 ?z2" using False inv by simp
    have out2: "outlived w adm0 ?d2" by (rule outlived_step [OF clock(1) old Cons.prems(7)])
    have later2: "\<forall>t' \<in> fst ` set evs. ?ws \<le> f64_sub t' (of_nat w) \<and> (\<forall>u \<in> fst ` set adm0. u \<le> t')"
      using later srt(2) old by fastforce
    have "k < length ?adm1" using Cons.prems(9) adm False by simp
    moreover have "distinct (map snd adm0 @ map (fst \<circ> snd) evs)" using Cons.prems(8) by (simp add: comp_def)
    ultimately have "in_window (f64_sub (fst (?adm1 ! k)) (of_nat w)) (adm0 @ take k ?adm1) < n"
      using Cons.IH [OF refl inv2 out2 later2 srt(1) clock(3) Cons.prems(7)] by blast
    with adm False show ?thesis by simp
  qed
qed simp

lemma sw_run_limit:
  assumes "adm = sw_run eo n w evs [] None" and "sorted (map fst evs)" and "\<forall>(t, i, s) \<in> set evs. clock_ok (5 / 2) t s"
    and "distinct (map (fst \<circ> snd) evs)" and "k < length adm"
  shows "in_window (f64_sub (fst (adm ! k)) (of_nat w)) (take k adm) < n"
proof (cases evs)
  case Nil
  with assms show ?thesis by simp
next
  case (Cons ev evs')
  let ?ws = "f64_sub (fst ev) (of_nat w)"
  have "\<forall>t \<in> fst ` set evs. ?ws \<le> f64_sub t (of_nat w)"
    using assms(2) Cons by (fastforce intro!: f64_sub_mono)
  moreover have "sw_inv n ?ws [] []" by (simp add: sw_inv_def)
  moreover have "outlived w [] None" by (simp add: outlived_def)
  ultimately show ?thesis using sw_run_window [OF assms(1), of ?ws "[]" k] assms(2-5) by simp
qed

section \<open>The second layer with its scripts\<close>

text \<open>The keys a server holds, each with the time of its deletion. A script on a key of the other type fails; a sorted set
  without members is no key, and a key whose time is over is none.\<close>

datatype redis_value = HashValue tb_hash | ZsetValue zset

type_synonym redis_entry = "redis_value \<times> nat option"

type_synonym keyspace = "string \<rightharpoonup> redis_entry"

definition live :: "nat \<Rightarrow> redis_entry option \<Rightarrow> redis_entry option" where
  "live server e = (case e of Some (v, Some d) \<Rightarrow> if d \<le> server then None else e | _ \<Rightarrow> e)"

definition zset_of :: "redis_entry option \<Rightarrow> zset" where
  "zset_of e = (case e of Some (ZsetValue z, d) \<Rightarrow> z | _ \<Rightarrow> [])"

definition hash_of :: "redis_entry option \<Rightarrow> tb_hash option" where
  "hash_of e = (case e of Some (HashValue h, d) \<Rightarrow> Some h | _ \<Rightarrow> None)"

definition deadline_of :: "redis_entry option \<Rightarrow> nat option" where
  "deadline_of e = (case e of Some (v, d) \<Rightarrow> d | None \<Rightarrow> None)"

definition eval_script :: "(int \<Rightarrow> bool) \<Rightarrow> nat \<Rightarrow> keyspace \<Rightarrow> script_call \<Rightarrow> (string + int list) \<times> keyspace" where
  "eval_script expire_ok server ks call =
     (case call of
        TokenBucketCall key capacity refill_rate now \<Rightarrow>
          (case live server (ks key) of
             Some (ZsetValue z, d) \<Rightarrow> (Inl ''WRONGTYPE'', ks)
           | e \<Rightarrow>
               (let (reply, data, deadline) = tb_script expire_ok server (u64_as_f64 capacity) (u64_as_f64 refill_rate) now
                      (hash_of e) (deadline_of e)
                in (reply, ks(key := map_option (\<lambda>h. (HashValue h, deadline)) data))))
      | SlidingWindowCall key max_requests window now req_id \<Rightarrow>
          (case live server (ks key) of
             Some (HashValue h, d) \<Rightarrow> (Inl ''WRONGTYPE'', ks)
           | e \<Rightarrow>
               (let (reply, z, deadline) = sw_script expire_ok server (unat max_requests) (unat window) now req_id
                      (zset_of e) (deadline_of e)
                in (reply, ks(key := if z = [] then None else Some (ZsetValue z, deadline))))))"

text \<open>Checks of one key, by whichever replica, in the order in which the server evaluates them: each with the time of its replica,
  its random number and the time of the server. The checks that are let through are collected with their times and request
  identifiers.\<close>

type_synonym check_event = "f64 \<times> u32 \<times> nat"

definition check_env :: "(int \<Rightarrow> bool) \<Rightarrow> (f64 \<Rightarrow> string) \<Rightarrow> keyspace \<Rightarrow> check_event \<Rightarrow> l2_env" where
  "check_env expire_ok show_f64 ks ev =
     \<lparr>le_now = fst ev, le_rand = fst (snd ev), le_show = show_f64,
      le_invoke = (\<lambda>call. fst (eval_script expire_ok (snd (snd ev)) ks call))\<rparr>"

fun l2_run ::
  "(int \<Rightarrow> bool) \<Rightarrow> (f64 \<Rightarrow> string) \<Rightarrow> distributed_rate_limit_config \<Rightarrow> string \<Rightarrow> check_event list \<Rightarrow> keyspace \<Rightarrow>
   (f64 \<times> string) list \<times> keyspace" where
  "l2_run eo sh config key [] ks = ([], ks)"
| "l2_run eo sh config key (ev # evs) ks =
     (let X = check_env eo sh ks ev;
          ks' = snd (eval_script eo (snd (snd ev)) ks (l2_call X config key));
          (adm, ks'') = l2_run eo sh config key evs ks'
      in ((if l2_allowed (l2_check X config key) then [(fst ev, l2_request_id X key)] else []) @ adm, ks''))"

definition event_id :: "(f64 \<Rightarrow> string) \<Rightarrow> string \<Rightarrow> check_event \<Rightarrow> f64 \<times> string \<times> nat" where
  "event_id sh key ev = (fst ev, key @ '':'' @ sh (fst ev) @ '':'' @ u64_to_string (ucast (fst (snd ev))), snd (snd ev))"

text \<open>Through the scripts' replies the gateway admits what the script admits, as long as the script's EXPIRE succeeds.\<close>

lemma live_zset:
  assumes "\<forall>h d. e \<noteq> Some (HashValue h, d)"
  shows "zset_of (live s e) = kept s (zset_of e) (deadline_of e)" and "\<forall>h d. live s e \<noteq> Some (HashValue h, d)"
  using assms by (auto simp: live_def zset_of_def kept_def deadline_of_def split: option.splits redis_value.splits prod.splits)

lemma l2_run_sw:
  assumes "eo (int (unat (as_secs window)) + 5)" and "\<forall>h d. ks key \<noteq> Some (HashValue h, d)"
  shows "fst (l2_run eo sh (SlidingWindow n window) key evs ks) =
    sw_run eo (unat n) (unat (as_secs window)) (map (event_id sh key) evs) (zset_of (ks key)) (deadline_of (ks key))"
  using assms(2)
proof (induction evs arbitrary: ks)
  case (Cons ev evs)
  let ?w = "unat (as_secs window)" and ?s = "snd (snd ev)"
  let ?X = "check_env eo sh ks ev"
  let ?c = "l2_call ?X (SlidingWindow n window) key"
  let ?i = "l2_request_id ?X key"
  let ?e = "live ?s (ks key)"
  let ?z1 = "zremrangebyscore (f64_sub (fst ev) (of_nat ?w)) (kept ?s (zset_of (ks key)) (deadline_of (ks key)))"
  let ?z2 = "if length ?z1 < unat n then zadd (fst ev) ?i ?z1 else ?z1"
  have c: "?c = SlidingWindowCall key n (as_secs window) (fst ev) ?i" by (simp add: l2_call_def check_env_def)
  have i: "event_id sh key ev = (fst ev, ?i, ?s)" by (simp add: event_id_def l2_request_id_def check_env_def)
  obtain r where s: "sw_script eo ?s (unat n) ?w (fst ev) ?i (zset_of ?e) (deadline_of ?e) =
      (Inr ((if length ?z1 < unat n then 1 else 0) # r), ?z2, expire ?s (int ?w + 5))"
    using sw_script_parts [of eo ?w ?s "unat n" "fst ev" ?i "zset_of ?e" "deadline_of ?e", OF assms(1)]
      live_zset(1) [OF Cons.prems, of ?s]
    by (auto simp: Let_def)
  have e: "eval_script eo ?s ks ?c = (Inr ((if length ?z1 < unat n then 1 else 0) # r),
      ks(key := if ?z2 = [] then None else Some (ZsetValue ?z2, expire ?s (int ?w + 5))))"
    using live_zset(2) [OF Cons.prems, of ?s] s
    by (auto simp: eval_script_def c split: option.splits redis_value.splits prod.splits)
  let ?ks = "snd (eval_script eo ?s ks ?c)"
  have k: "zset_of (?ks key) = ?z2" "deadline_of (?ks key) = (if ?z2 = [] then None else expire ?s (int ?w + 5))"
    "\<forall>h d. ?ks key \<noteq> Some (HashValue h, d)"
    by (simp_all add: e zset_of_def deadline_of_def)
  have a: "l2_allowed (l2_check ?X (SlidingWindow n window) key) \<longleftrightarrow> length ?z1 < unat n"
    using e by (auto simp: l2_check_def l2_check_inner_def map_err_def reply_entry_def check_env_def [of eo sh ks ev])
  show ?case
    using Cons.IH [of ?ks, OF k(3)] unfolding l2_run.simps Let_def split_beta list.map i sw_run.simps a k(1,2) by simp
qed simp

lemma u64_as_f64_nonzero: "w \<noteq> 0 \<Longrightarrow> u64_as_f64 w \<noteq> 0"
proof -
  assume "w \<noteq> 0"
  then have "1 \<le> unat w" by (simp add: Suc_le_eq unat_gt_0)
  then have "(of_nat 1 :: rat) \<le> of_nat (unat w)" by (rule of_nat_mono)
  then have "f64_round (of_nat 1) \<le> u64_as_f64 w" unfolding u64_as_f64_def by (rule f64_round_mono)
  moreover have "f64_round (of_nat 1) = 1" using f64_round_of_nat [of 1] by simp
  ultimately show ?thesis by linarith
qed

text \<open>The server deletes a bucket at least five seconds later than it takes to fill.\<close>

definition fills_before :: "f64 \<Rightarrow> f64 \<Rightarrow> redis_entry option \<Rightarrow> bool" where
  "fills_before capacity rate e \<longleftrightarrow>
     (\<forall>h x. e = Some (HashValue h, Some x) \<longrightarrow> th_last_refill h + of_int (f64_ceil (f64_div capacity rate)) + 5 \<le> of_nat x / 1000)"

lemma live_hash:
  assumes "\<forall>z d. e \<noteq> Some (ZsetValue z, d)"
  obtains (same) "live s e = e"
  | (expired) h x where "live s e = None" "e = Some (HashValue h, Some x)" "x \<le> s"
proof (cases "live s e = e")
  case False
  then obtain v x where "e = Some (v, Some x)" "x \<le> s" "live s e = None"
    by (auto simp: live_def split: option.splits prod.splits if_splits)
  with expired assms show thesis by (cases v) auto
qed (rule same)

lemma tb_check_step:
  fixes n rate :: u64
  defines "cap \<equiv> u64_as_f64 n" and "r \<equiv> u64_as_f64 rate"
  assumes "rate \<noteq> 0" and "eo (f64_ceil (f64_div cap r) + 10)"
    and "\<forall>z d. ks key \<noteq> Some (ZsetValue z, d)" and "tb_inv cap (hash_of (ks key))"
    and "tb_last (fst ev) (hash_of (ks key)) \<le> fst ev" and "fills_before cap r (ks key)" and "clock_ok 5 (fst ev) (snd (snd ev))"
  obtains h d where "snd (eval_script eo (snd (snd ev)) ks (l2_call (check_env eo sh ks ev) (TokenBucket n rate) key)) =
      ks(key \<mapsto> (HashValue h, d))"
    and "th_last_refill h = fst ev" and "tb_inv cap (Some h)" and "fills_before cap r (Some (HashValue h, d))"
    and "(if l2_allowed (l2_check (check_env eo sh ks ev) (TokenBucket n rate) key) then 1 else 0) + th_tokens h \<le>
      tb_tokens cap (hash_of (ks key)) + (fst ev - tb_last (fst ev) (hash_of (ks key))) * r * (1 + f64_eps) ^ 2 + 2 * f64_eps * cap"
proof -
  let ?s = "snd (snd ev)" and ?C = "f64_ceil (f64_div cap r)"
  let ?e = "live ?s (ks key)"
  let ?X = "check_env eo sh ks ev"
  let ?c = "l2_call ?X (TokenBucket n rate) key"
  let ?ok = "1 \<le> tb_refilled cap r (fst ev) (hash_of ?e)"
  have cap: "0 \<le> cap" "f64_round cap = cap" "0 \<le> r" by (simp_all add: cap_def r_def u64_as_f64_nonneg) (simp add: u64_as_f64_def)
  have r0: "r \<noteq> 0" using assms(3) u64_as_f64_nonzero by (simp add: r_def)
  have c: "?c = TokenBucketCall key n rate (fst ev)" by (simp add: l2_call_def check_env_def)
  obtain reply d' d where s: "tb_script eo ?s cap r (fst ev) (hash_of ?e) (deadline_of ?e) = (reply, d', d)" by (rule prod_cases3)
  obtain h where h: "d' = Some h" "th_last_refill h = fst ev" using tb_script_parts(1) [OF s] by simp
  obtain rest where rep: "reply = Inr ((if ?ok then 1 else 0) # rest)" and d: "d = expire ?s (?C + 10)"
    using tb_script_parts(2) [OF s r0 assms(4)] by blast
  have no_zset: "\<forall>z d. ?e \<noteq> Some (ZsetValue z, d)"
    using live_hash [OF assms(5), of ?s] assms(5) by (metis option.distinct(1))
  have e: "eval_script eo ?s ks ?c = (reply, ks(key \<mapsto> (HashValue h, d)))"
    using no_zset s h(1)
    by (auto simp: eval_script_def c cap_def r_def split: option.splits redis_value.splits prod.splits)
  have "le_invoke ?X ?c = reply" by (simp add: check_env_def) (simp add: e [unfolded check_env_def])
  then have a: "l2_allowed (l2_check ?X (TokenBucket n rate) key) \<longleftrightarrow> ?ok"
    by (simp add: l2_check_def l2_check_inner_def rep map_err_def reply_entry_def)
  have "tb_inv cap (hash_of ?e)"
    using assms(6) by (cases rule: live_hash [OF assms(5), of ?s]) (simp_all add: tb_inv_def hash_of_def)
  note inv = tb_script_inv [OF this cap s]
  have "0 \<le> f64_div cap r" unfolding f64_div_def using cap by (intro f64_round_nonneg) simp
  then have C: "0 \<le> ?C" by (simp add: f64_ceil_def)
  have fills: "fills_before cap r (Some (HashValue h, d))"
  proof -
    have "(of_nat (?s + nat (?C + 10) * 1000) :: rat) / 1000 = of_nat ?s / 1000 + of_int ?C + 10"
      using C by (simp add: field_simps of_nat_nat)
    moreover note clock_okD(3) [OF assms(9)]
    ultimately show ?thesis using h(2) d by (simp add: fills_before_def expire_def)
  qed
  have "(if ?ok then 1 else 0) + th_tokens h \<le>
      tb_tokens cap (hash_of (ks key)) + (fst ev - tb_last (fst ev) (hash_of (ks key))) * r * (1 + f64_eps) ^ 2 + 2 * f64_eps * cap"
  proof (cases rule: live_hash [OF assms(5), of ?s])
    case 1
    with tb_script_gain [OF _ cap(1,3) _ s [unfolded h(1)]] assms(6,7) show ?thesis by simp
  next
    case (2 h0 x)
    then have none: "hash_of ?e = None" and some: "hash_of (ks key) = Some h0" by (simp_all add: hash_of_def)
    have "th_last_refill h0 + of_int ?C + 5 \<le> of_nat x / 1000" using assms(8) 2(2) by (simp add: fills_before_def)
    moreover have "(of_nat x :: rat) \<le> of_nat ?s" using 2(3) by simp
    moreover note clock_okD(2) [OF assms(9)]
    ultimately have "of_int ?C \<le> fst ev - th_last_refill h0" by linarith
    from tb_expired_gain [OF _ cap(1) _ this s [unfolded none h(1)]] assms(6) cap(3) r0
    show ?thesis unfolding none some by (simp add: tb_tokens_def tb_last_def)
  qed
  with that [of h d] e h(2) inv fills show thesis by (simp add: h(1) a)
qed

lemma l2_run_tb:
  fixes n rate :: u64
  defines "cap \<equiv> u64_as_f64 n" and "r \<equiv> u64_as_f64 rate"
  assumes "rate \<noteq> 0" and "eo (f64_ceil (f64_div cap r) + 10)"
    and "\<forall>z d. ks key \<noteq> Some (ZsetValue z, d)" and "tb_inv cap (hash_of (ks key))"
    and "sorted (tb_last t0 (hash_of (ks key)) # map fst evs)"
    and "evs \<noteq> [] \<Longrightarrow> hash_of (ks key) = None \<Longrightarrow> t0 = fst (hd evs)"
    and "fills_before cap r (ks key)" and "\<forall>(t, i, s) \<in> set evs. clock_ok 5 t s"
  shows "of_nat (length (fst (l2_run eo sh (TokenBucket n rate) key evs ks))) \<le>
    tb_tokens cap (hash_of (ks key)) +
    (last (tb_last t0 (hash_of (ks key)) # map fst evs) - tb_last t0 (hash_of (ks key))) * r * (1 + f64_eps) ^ 2 +
    of_nat (length evs) * (2 * f64_eps * cap)"
  using assms(5-)
proof (induction evs arbitrary: ks t0)
  case Nil
  then show ?case by (auto simp: tb_inv_def tb_tokens_def cap_def u64_as_f64_nonneg split: option.splits)
next
  case (Cons ev evs)
  let ?d = "hash_of (ks key)"
  let ?now = "fst ev"
  let ?X = "check_env eo sh ks ev"
  let ?a = "l2_allowed (l2_check ?X (TokenBucket n rate) key)"
  let ?n = "\<lambda>evs ks. of_nat (length (fst (l2_run eo sh (TokenBucket n rate) key evs ks))) :: rat"
  have first: "tb_last t0 ?d = tb_last ?now ?d" using Cons.prems(4) by (auto simp: tb_last_def split: option.splits)
  then have last: "tb_last ?now ?d \<le> ?now" using Cons.prems(3) by simp
  have clock: "clock_ok 5 ?now (snd (snd ev))" "\<forall>(t, i, s) \<in> set evs. clock_ok 5 t s" using Cons.prems(6) by (auto simp: split_beta)
  obtain h d where e: "snd (eval_script eo (snd (snd ev)) ks (l2_call ?X (TokenBucket n rate) key)) = ks(key \<mapsto> (HashValue h, d))"
    and h: "th_last_refill h = ?now" "tb_inv cap (Some h)" "fills_before cap r (Some (HashValue h, d))"
    and step: "(if ?a then 1 else 0) + th_tokens h \<le>
      tb_tokens cap ?d + (?now - tb_last ?now ?d) * r * (1 + f64_eps) ^ 2 + 2 * f64_eps * cap"
    using tb_check_step [of rate eo n ks key ev sh] assms(3,4) Cons.prems(1,2,5) last clock(1) unfolding cap_def r_def by metis
  let ?ks = "ks(key \<mapsto> (HashValue h, d))"
  have d': "hash_of (?ks key) = Some h" by (simp add: hash_of_def)
  have srt: "sorted (tb_last ?now (hash_of (?ks key)) # map fst evs)" unfolding d' using Cons.prems(3) h(1) by (simp add: tb_last_def)
  have f': "fills_before cap r (?ks key)" using h(3) by simp
  have "\<forall>z d. ?ks key \<noteq> Some (ZsetValue z, d)" by simp
  from Cons.IH [of ?ks ?now, OF this _ srt _ f' clock(2)] h
  have IH: "?n evs ?ks \<le> th_tokens h + (last (?now # map fst evs) - ?now) * r * (1 + f64_eps) ^ 2 + of_nat (length evs) * (2 * f64_eps * cap)"
    unfolding d' by (simp only: tb_last_def tb_tokens_def option.case option.distinct False_implies_equals True_implies_equals)
  have len: "?n (ev # evs) ks = (if ?a then 1 else 0) + ?n evs ?ks" using e by (simp add: Let_def split_beta)
  have "(last (?now # map fst evs) - tb_last ?now ?d) * r * (1 + f64_eps) ^ 2 =
      (last (?now # map fst evs) - ?now) * r * (1 + f64_eps) ^ 2 + (?now - tb_last ?now ?d) * r * (1 + f64_eps) ^ 2"
    by (simp add: algebra_simps)
  with IH step show ?case unfolding len first by (simp add: distrib_right)
qed

section \<open>Properties\<close>





end
