(* ===== verification/Simulation.thy ===== *)
theory Simulation
  imports Prelude
begin

text \<open>
  Refinement between step relations. A concrete system simulates an abstract one through an abstraction function and an
  invariant when each of its steps is a step of the abstract system or changes nothing there. Every run is then a run
  of the abstract system, and what is invariant there holds of the concrete states.
\<close>

locale simulation =
  fixes cstep :: "'c \<Rightarrow> 'c \<Rightarrow> bool" and astep :: "'a \<Rightarrow> 'a \<Rightarrow> bool" and abst :: "'c \<Rightarrow> 'a" and cinv :: "'c \<Rightarrow> bool"
  assumes cinv_step: "cstep s t \<Longrightarrow> cinv s \<Longrightarrow> cinv t"
    and sim_step: "cstep s t \<Longrightarrow> cinv s \<Longrightarrow> abst t = abst s \<or> astep (abst s) (abst t)"

sublocale simulation \<subseteq> conc: invariant_system cstep cinv
  by unfold_locales (rule cinv_step)

context simulation
begin

lemma sim_steps:
  assumes "cstep\<^sup>*\<^sup>* s t" and "cinv s"
  shows "astep\<^sup>*\<^sup>* (abst s) (abst t)"
  using assms(1)
proof (induction rule: rtranclp_induct)
  case (step t u)
  have "cinv t" by (rule conc.inv_steps [OF step(1) assms(2)])
  from sim_step [OF step(2) this] step(3) show ?case by (metis rtranclp.rtrancl_into_rtrancl)
qed simp

lemma transfer_invariant:
  assumes "cstep\<^sup>*\<^sup>* s t" and "cinv s" and "invariant_system astep ainv" and "ainv (abst s)"
  shows "ainv (abst t)"
  using invariant_system.inv_steps [OF assms(3) sim_steps [OF assms(1,2)] assms(4)] .

end

end
