(* ===== verification/Bulkhead.thy ===== *)
theory Bulkhead
  imports Concurrency Simulation
begin

text \<open>
  What the concurrency gate promises, without semaphores: \<open>bulkhead_step\<close> is the specification of a layered bulkhead over
  the requests alone. The state is the routes of the requests that are past the global gate and wait for their
  route, and the routes of the requests that run; a request enters while fewer than the global limit are inside, and starts
  while fewer than its route's limit run there.
\<close>

section \<open>Specification\<close>

type_synonym bulkhead = "string multiset \<times> string multiset"

inductive bulkhead_step :: "nat \<Rightarrow> (string \<rightharpoonup> nat) \<Rightarrow> bulkhead \<Rightarrow> bulkhead \<Rightarrow> bool"
  for global_limit :: nat and route_limit :: "string \<rightharpoonup> nat" where
  bh_enter: "size W + size R < global_limit \<Longrightarrow> bulkhead_step global_limit route_limit (W, R) (add_mset r W, R)"
| bh_begin: "r \<in># W \<Longrightarrow> (\<And>n. route_limit r = Some n \<Longrightarrow> count R r < n) \<Longrightarrow>
     bulkhead_step global_limit route_limit (W, R) (W - {#r#}, add_mset r R)"
| bh_abandon: "r \<in># W \<Longrightarrow> bulkhead_step global_limit route_limit (W, R) (W - {#r#}, R)"
| bh_finish: "r \<in># R \<Longrightarrow> bulkhead_step global_limit route_limit (W, R) (W, R - {#r#})"

definition bulkhead_of :: "'sem conc_system \<Rightarrow> bulkhead" where
  "bulkhead_of s = (cs_waiting s, image_mset fst (cs_running s))"

section \<open>The gate refines it\<close>

lemma count_on_route: "count (image_mset fst M) r = on_route r M"
  unfolding on_route_def
  by (induction M) auto

lemma route_free_iff:
  assumes "conc_inv S g caps s"
  shows "(\<forall>sem. cl_routes (cs_limiter s) r = Some sem \<longrightarrow> 0 < sem_available S sem) \<longleftrightarrow>
    (\<forall>n. caps r = Some n \<longrightarrow> count (image_mset fst (cs_running s)) r < n)"
  using conc_invD(3) [OF assms, of r] unfolding count_on_route
  by (cases "cl_routes (cs_limiter s) r"; cases "caps r") auto

lemma gate_step_bulkhead:
  assumes "conc_step S s t" and "conc_inv S g caps s"
  shows "bulkhead_of t = bulkhead_of s \<or> bulkhead_step g caps (bulkhead_of s) (bulkhead_of t)"
  using assms(1)
proof (cases rule: conc_step.cases)
  case (enter l' r)
  then have "size (cs_waiting s) + size (cs_running s) < g" using conc_invD(1) [OF assms(2)] by linarith
  with enter show ?thesis by (simp add: bulkhead_of_def bh_enter)
next
  case (admit r p l')
  then show ?thesis using route_free_iff [OF assms(2), of r] by (simp add: bulkhead_of_def bh_begin)
next
  case (leave r p)
  then have "image_mset fst (cs_running s - {#(r, p)#}) = image_mset fst (cs_running s) - {#r#}"
    by (simp add: image_mset_Diff)
  moreover have "r \<in># image_mset fst (cs_running s)" using leave by force
  ultimately show ?thesis using leave by (simp add: bulkhead_of_def bh_finish)
qed (simp_all add: bulkhead_of_def bh_abandon)

interpretation gate_bulkhead: simulation "conc_step S" "bulkhead_step g caps" bulkhead_of
  "\<lambda>s. semaphore_laws S \<and> conc_inv S g caps s" for S g caps
  by unfold_locales (auto intro: conc_inv_step dest: gate_step_bulkhead)

text \<open>And the gate can do whatever the specification allows: nothing is refused for want of a permit while the limits leave
  room.\<close>

lemma bulkhead_step_gate:
  assumes "bulkhead_step g caps (bulkhead_of s) b" and "conc_inv S g caps s"
  shows "\<exists>t. conc_step S s t \<and> bulkhead_of t = b"
  using assms(1)
proof (cases rule: bulkhead_step.cases)
  case (bh_enter W R r)
  then have "0 < sem_available S (cl_global (cs_limiter s))"
    using conc_invD(1) [OF assms(2)] by (auto simp: bulkhead_of_def)
  from conc_step.enter [OF this, of _ r] bh_enter show ?thesis
    by (fastforce simp: bulkhead_of_def acquire_global_def)
next
  case (bh_begin r W R)
  then have free: "\<forall>sem. cl_routes (cs_limiter s) r = Some sem \<longrightarrow> 0 < sem_available S sem" and w: "r \<in># cs_waiting s"
    using route_free_iff [OF assms(2), of r] by (auto simp: bulkhead_of_def)
  obtain p l' where "acquire_route S Granted r (cs_limiter s) = (Inr p, l')"
    by (cases "cl_routes (cs_limiter s) r") (simp_all add: acquire_route_def)
  from conc_step.admit [OF w free this] bh_begin show ?thesis by (fastforce simp: bulkhead_of_def)
next
  case (bh_abandon r W R)
  then have "r \<in># cs_waiting s" by (simp add: bulkhead_of_def)
  from conc_step.give_up [OF this, of S] bh_abandon show ?thesis by (fastforce simp: bulkhead_of_def)
next
  case (bh_finish r R W)
  then obtain p where p: "(r, p) \<in># cs_running s" by (auto simp: bulkhead_of_def)
  from conc_step.leave [OF this, of S] bh_finish p show ?thesis
    by (fastforce simp: bulkhead_of_def image_mset_Diff)
qed

section \<open>Properties\<close>

text \<open>C13: The gate is the layered bulkhead. In every reachable state a step of the gate (a wait granted, timed out or closed,
  a dropped request, a dropped permit) is a step of the specification or changes nothing in it, so every run of the
  gate is a run of the specification with the configured limits; and every step the specification allows from there
  the gate can take, so no permit is ever missing while the limits leave room.\<close>

theorem gate_refines_bulkhead:
  assumes "semaphore_laws S" and "distinct (map rt_id (gc_routes cfg))" and "limiter_build S cfg = Ret l"
    and "(conc_step S)\<^sup>*\<^sup>* (conc_start l) s"
    and "spec = bulkhead_step (unat (ls_max_concurrent_requests (gc_listener cfg))) (route_limits cfg)"
  shows "spec\<^sup>*\<^sup>* ({#}, {#}) (bulkhead_of s) \<and>
    (\<forall>t. conc_step S s t \<longrightarrow> bulkhead_of t = bulkhead_of s \<or> spec (bulkhead_of s) (bulkhead_of t)) \<and>
    (\<forall>b. spec (bulkhead_of s) b \<longrightarrow> (\<exists>t. conc_step S s t \<and> bulkhead_of t = b))"
proof -
  note start = conc_inv_start [OF assms(1-3)]
  note inv = conc_inv_reachable [OF assms(4,1) start]
  have "bulkhead_of (conc_start l) = ({#}, {#})" by (simp add: bulkhead_of_def conc_start_def)
  with gate_bulkhead.sim_steps [OF assms(4) conjI [OF assms(1) start]] show ?thesis
    using gate_step_bulkhead [OF _ inv] bulkhead_step_gate [OF _ inv] unfolding assms(5) by auto
qed

theorem gate_refines_bulkhead_witness:
  "\<exists>t. conc_step nat_semaphore (conc_start sample_limiter) t \<and> bulkhead_of t = ({#''root''#}, {#})"
proof -
  let ?c = "sample_config [sample_root]"
  have "bulkhead_of (conc_start sample_limiter) = ({#}, {#})" by (simp add: bulkhead_of_def conc_start_def)
  moreover have "bulkhead_step (unat (ls_max_concurrent_requests (gc_listener ?c))) (route_limits ?c) ({#}, {#})
      (add_mset ''root'' {#}, {#})"
    by (rule bh_enter) (simp add: sample_config_def default_max_concurrent_requests_def)
  ultimately show ?thesis
    using gate_refines_bulkhead [OF nat_semaphore_laws _ sample_limiter_built rtranclp.rtrancl_refl refl] by simp
qed

end
