(* ===== verification/Health_Loop.thy ===== *)
theory Health_Loop
  imports Metrics
begin

text \<open>
  The loop of a health-check task (\<open>gateway-core/src/health.rs\<close>): every tick probes the endpoint's health URL, marks the
  endpoint and sets its gauge. The loop never ends; \<open>health_check_rounds \<dots> n k e\<close> is what the rounds \<open>k\<close> to
  \<open>k + n - 1\<close> do, and \<open>health_check_loop\<close> the task in its first \<open>n\<close> rounds. \<open>probe url j\<close> is what building and sending the request of round \<open>j\<close> gives, \<open>now j\<close> the clock at
  its mark. Requests that are proxied meanwhile touch the connection count and the latency of the endpoint only.
\<close>

fun health_check_rounds ::
  "(string \<Rightarrow> nat \<Rightarrow> probe_result) \<Rightarrow> (nat \<Rightarrow> u64) \<Rightarrow> string \<Rightarrow> health_check_config \<Rightarrow> nat \<Rightarrow> nat \<Rightarrow> endpoint_state \<Rightarrow>
   metric_event list \<times> endpoint_state" where
  "health_check_rounds probe now upstream_name cfg 0 k endpoint = ([], endpoint)"
| "health_check_rounds probe now upstream_name cfg (Suc n) k endpoint =
     (let (gauge_value, endpoint') = health_check_round cfg (now k) (probe (health_check_url cfg endpoint) k) endpoint;
          recorded = (case gauge_value of
                        None \<Rightarrow> []
                      | Some v \<Rightarrow> record_endpoint_health upstream_name (es_address endpoint) v);
          (rest, endpoint'') = health_check_rounds probe now upstream_name cfg n (Suc k) endpoint'
      in (recorded @ rest, endpoint''))"

text \<open>\<open>tokio::time::interval\<close> panics on a period of zero.\<close>

definition health_check_loop ::
  "(string \<Rightarrow> nat \<Rightarrow> probe_result) \<Rightarrow> (nat \<Rightarrow> u64) \<Rightarrow> string \<Rightarrow> health_check_config \<Rightarrow> nat \<Rightarrow> endpoint_state \<Rightarrow>
   (metric_event list \<times> endpoint_state) rust" where
  "health_check_loop probe now upstream_name cfg n endpoint =
     (if hc_interval cfg = 0 then Panic else Ret (health_check_rounds probe now upstream_name cfg n 0 endpoint))"

section \<open>What the rounds amount to\<close>

text \<open>The marks of the rounds: a probe that could not be built is none.\<close>

definition round_marks :: "(nat \<Rightarrow> probe_result) \<Rightarrow> (nat \<Rightarrow> u64) \<Rightarrow> nat \<Rightarrow> nat \<Rightarrow> probe list" where
  "round_marks result now n k = List.map_filter (\<lambda>j. map_option (Pair (now j)) (probe_ok (result j))) [k..<k + n]"

text \<open>The gauge settings of a history of marks: the health after each.\<close>

fun gauge_settings :: "string \<Rightarrow> health_check_config \<Rightarrow> probe list \<Rightarrow> endpoint_state \<Rightarrow> metric_event list" where
  "gauge_settings u cfg [] e = []"
| "gauge_settings u cfg (p # ps) e =
     event ''stateform_endpoint_health'' [u, es_address e] (SetTo (as_gauge_value (health_state (mark cfg p e)))) #
     gauge_settings u cfg ps (mark cfg p e)"

lemma round_marks_simps:
  "round_marks result now 0 k = []"
  "round_marks result now (Suc n) k =
     (case probe_ok (result k) of None \<Rightarrow> [] | Some ok \<Rightarrow> [(now k, ok)]) @ round_marks result now n (Suc k)"
proof -
  have "[k..<k + Suc n] = k # [Suc k..<Suc k + n]" by (simp add: upt_rec)
  then show "round_marks result now (Suc n) k =
      (case probe_ok (result k) of None \<Rightarrow> [] | Some ok \<Rightarrow> [(now k, ok)]) @ round_marks result now n (Suc k)"
    unfolding round_marks_def by (simp only: map_filter_simps) (simp split: option.split)
qed (simp add: round_marks_def map_filter_simps)

lemma mark_address [simp]: "es_address (mark cfg p e) = es_address e"
  by (simp add: mark_def mark_success_def mark_failure_def transition_to_def Let_def split: prod.split)

lemma health_check_rounds_marks:
  "health_check_rounds probe now u cfg n k e =
     (let ps = round_marks (probe (''http://'' @ es_address e @ hc_path cfg)) now n k
      in (gauge_settings u cfg ps e, probes cfg ps e))"
proof (induction n arbitrary: k e)
  case (Suc n)
  let ?url = "''http://'' @ es_address e @ hc_path cfg"
  show ?case
  proof (cases "probe_ok (probe ?url k)")
    case None
    with Suc show ?thesis
      by (simp add: health_check_round_mark health_check_url_def round_marks_simps Let_def)
  next
    case (Some ok)
    with Suc [of "Suc k" "mark cfg (now k, ok) e"] show ?thesis
      by (simp add: health_check_round_mark health_check_url_def round_marks_simps record_endpoint_health_def Let_def)
  qed
qed (simp add: round_marks_simps)

lemma last_gauge_setting:
  "ps \<noteq> [] \<Longrightarrow> last (gauge_settings u cfg ps e) =
     event ''stateform_endpoint_health'' [u, es_address e] (SetTo (as_gauge_value (health_state (probes cfg ps e))))"
proof (induction ps arbitrary: e)
  case (Cons p ps)
  show ?case
  proof (cases "ps = []")
    case False
    then have "gauge_settings u cfg ps (mark cfg p e) \<noteq> []" by (cases ps) simp_all
    with Cons.IH [OF False, of "mark cfg p e"] show ?thesis by simp
  qed simp
qed simp

lemma gauge_settings_length: "length (gauge_settings u cfg ps e) = length ps"
  by (induction ps arbitrary: e) simp_all

section \<open>Properties\<close>

text \<open>C36: The gauge of an endpoint follows its health. A task whose interval is zero, which validation accepts, panics before
  its first round. Otherwise, after any number of rounds the endpoint is what the
  outcomes of the probes make of it, in order: a 2xx answer of its health URL is a success, any other answer, an error or
  a timeout a failure, and a probe that cannot be built leaves everything as it is. Every mark set the endpoint's gauge
  once, and the value set last is that of its present health (1, 0.5 or 0).\<close>

theorem health_gauge_follows:
  assumes "ps = List.map_filter (\<lambda>j. case probe (''http://'' @ es_address e @ hc_path cfg) j of
        ProbeNotBuilt err \<Rightarrow> None | ProbeStatus s \<Rightarrow> Some (now j, 200 \<le> s \<and> s < 300)
      | ProbeError err \<Rightarrow> Some (now j, False) | ProbeTimedOut \<Rightarrow> Some (now j, False)) [0..<n]"
  shows "case health_check_loop probe now u cfg n e of
      Panic \<Rightarrow> hc_interval cfg = 0
    | Hang \<Rightarrow> False
    | Ret (evs, e') \<Rightarrow> hc_interval cfg \<noteq> 0 \<and> e' = probes cfg ps e \<and> length evs = length ps \<and>
        (ps \<noteq> [] \<longrightarrow> last evs = event ''stateform_endpoint_health'' [u, es_address e]
           (SetTo (case health_state e' of Healthy \<Rightarrow> 1 | Degraded \<Rightarrow> 1 / 2 | Unhealthy \<Rightarrow> 0)))"
proof (cases "hc_interval cfg = 0")
  case False
  obtain evs e' where rounds: "health_check_rounds probe now u cfg n 0 e = (evs, e')" by fastforce
  have marks: "map_option (Pair t) (probe_ok r) = (case r of ProbeNotBuilt err \<Rightarrow> None
      | ProbeStatus s \<Rightarrow> Some (t, 200 \<le> s \<and> s < 300) | ProbeError err \<Rightarrow> Some (t, False) | ProbeTimedOut \<Rightarrow> Some (t, False))" for t r
    by (simp add: status_is_success_def split: probe_result.split)
  have "round_marks (probe (''http://'' @ es_address e @ hc_path cfg)) now n 0 = ps"
    unfolding round_marks_def marks add_0 assms ..
  with rounds have run: "evs = gauge_settings u cfg ps e" "e' = probes cfg ps e"
    by (simp_all add: health_check_rounds_marks)
  moreover have "as_gauge_value h = (case h of Healthy \<Rightarrow> 1 | Degraded \<Rightarrow> 1 / 2 | Unhealthy \<Rightarrow> 0)" for h
    by (cases h) simp_all
  ultimately show ?thesis
    using False rounds last_gauge_setting [of ps u cfg e] by (simp add: health_check_loop_def gauge_settings_length)
qed (simp add: health_check_loop_def)

theorem health_gauge_follows_witness:
  "\<exists>evs e'. health_check_loop (\<lambda>url j. if j = 0 then ProbeNotBuilt [] else ProbeStatus 503) (\<lambda>j. 40000) ''pool'' ex_health_check 4
      (endpoint_new ''a'' 1) = Ret (evs, e') \<and> length evs = 3 \<and> e' = probes ex_health_check [(40000, False), (40000, False), (40000, False)]
      (endpoint_new ''a'' 1)"
proof -
  have "hc_interval ex_health_check \<noteq> 0" by (simp add: ex_health_check_def default_health_interval_def from_secs_def)
  moreover obtain evs e' where "health_check_rounds (\<lambda>url j. if j = 0 then ProbeNotBuilt [] else ProbeStatus 503) (\<lambda>j. 40000) ''pool''
      ex_health_check 4 0 (endpoint_new ''a'' 1) = (evs, e')" by fastforce
  ultimately have run: "health_check_loop (\<lambda>url j. if j = 0 then ProbeNotBuilt [] else ProbeStatus 503) (\<lambda>j. 40000) ''pool''
      ex_health_check 4 (endpoint_new ''a'' 1) = Ret (evs, e')" by (simp add: health_check_loop_def)
  have marks: "[0..<4] = [0, 1, 2, 3 :: nat]" by (simp add: upt_rec)
  from health_gauge_follows [OF refl, where probe = "\<lambda>url j. if j = 0 then ProbeNotBuilt [] else ProbeStatus 503" and now = "\<lambda>j. 40000"
      and u = "''pool''" and cfg = ex_health_check and n = 4 and e = "endpoint_new ''a'' 1"] run
  show ?thesis by (simp add: marks map_filter_simps)
qed

end
