(* ===== verification/Lifecycle.thy ===== *)
theory Lifecycle
  imports Server Simulation
begin

text \<open>
  The end of the process: the connections of the theory \<open>Server\<close>, the signal task with its drain loop
  (\<open>gateway-core/src/shutdown.rs\<close>) and the return of \<open>run\<close> and \<open>main\<close> (\<open>gateway-core/src/server.rs\<close>,
  \<open>gateway-proxy/src/main.rs\<close>), interleaved.

  The drain loop runs in the spawned signal task, and nothing joins that task: \<open>run\<close> returns when the accept loop
  stops, \<open>main\<close> returns after it, and the runtime drops the tasks that are left. In a state that has exited
  \<open>sv_serving\<close> counts the connections whose tasks were dropped while they were being served.
\<close>

section \<open>The process\<close>

datatype drain_phase =
    AwaitingSignal
  | Draining
  | Overdue
  | Reported drain_result

record lifecycle =
  lf_server :: server_system
  lf_drain :: drain_phase
  lf_elapsed :: duration
  lf_exited :: bool

definition lifecycle_start :: lifecycle where
  "lifecycle_start = \<lparr>lf_server = server_start, lf_drain = AwaitingSignal, lf_elapsed = 0, lf_exited = False\<rparr>"

text \<open>The signal task wakes up: the flag is broadcast and the drain loop starts its clock.\<close>

definition signal_received :: "lifecycle \<Rightarrow> lifecycle" where
  "signal_received s =
     s\<lparr>lf_server := (lf_server s)\<lparr>sv_shutdown := shutdown_begin (sv_shutdown (lf_server s))\<rparr>,
       lf_drain := Draining, lf_elapsed := 0\<rparr>"

text \<open>One round of the drain loop. The counter is read a second time for the report of a forced shutdown.\<close>

definition drain_poll :: "lifecycle \<Rightarrow> lifecycle" where
  "drain_poll s =
     (let counter = sc_counter (sv_shutdown (lf_server s))
      in case lf_drain s of
           Draining \<Rightarrow>
             (if counter = 0 then s\<lparr>lf_drain := Reported Drained\<rparr>
              else if lf_elapsed s \<ge> DRAIN_TIMEOUT then s\<lparr>lf_drain := Overdue\<rparr>
              else s)
         | Overdue \<Rightarrow> s\<lparr>lf_drain := Reported (Forced counter)\<rparr>
         | _ \<Rightarrow> s)"

inductive lifecycle_step :: "lifecycle \<Rightarrow> lifecycle \<Rightarrow> bool" where
  connections: "\<not> lf_exited s \<Longrightarrow> server_step (lf_server s) sv \<Longrightarrow>
     signal_is_set (sv_shutdown sv) = signal_is_set (sv_shutdown (lf_server s)) \<Longrightarrow> lifecycle_step s (s\<lparr>lf_server := sv\<rparr>)"
| signalled: "\<not> lf_exited s \<Longrightarrow> lf_drain s = AwaitingSignal \<Longrightarrow> lifecycle_step s (signal_received s)"
| clock: "\<not> lf_exited s \<Longrightarrow> lifecycle_step s (s\<lparr>lf_elapsed := lf_elapsed s + d\<rparr>)"
| poll: "\<not> lf_exited s \<Longrightarrow> lifecycle_step s (drain_poll s)"
| process_exit: "\<not> lf_exited s \<Longrightarrow> \<not> sv_accepting (lf_server s) \<Longrightarrow> lifecycle_step s (s\<lparr>lf_exited := True\<rparr>)"

section \<open>Invariant\<close>

definition lifecycle_inv :: "lifecycle \<Rightarrow> bool" where
  "lifecycle_inv s \<longleftrightarrow>
     (signal_is_set (sv_shutdown (lf_server s)) \<longleftrightarrow> lf_drain s \<noteq> AwaitingSignal) \<and>
     (lf_exited s \<longrightarrow> \<not> sv_accepting (lf_server s))"

lemma drain_poll_parts:
  "lf_server (drain_poll s) = lf_server s" "lf_exited (drain_poll s) = lf_exited s"
  "lf_drain (drain_poll s) = AwaitingSignal \<longleftrightarrow> lf_drain s = AwaitingSignal"
  by (auto simp: drain_poll_def Let_def split: drain_phase.split)

lemma lifecycle_inv_start: "lifecycle_inv lifecycle_start"
  by (simp add: lifecycle_inv_def lifecycle_start_def server_start_def coordinator_new_def signal_is_set_def)

lemma lifecycle_inv_step [gw_inv]:
  assumes "lifecycle_step s t" and "lifecycle_inv s"
  shows "lifecycle_inv t"
  using assms(1)
proof (cases rule: lifecycle_step.cases)
  case signalled
  with assms(2) show ?thesis
    by (simp add: lifecycle_inv_def signal_received_def) (simp add: shutdown_begin_def signal_is_set_def)
qed (use assms(2) in \<open>simp_all add: lifecycle_inv_def drain_poll_parts\<close>)

text \<open>Seen from its connections, the process is the server system.\<close>

interpretation life: simulation lifecycle_step server_step lf_server lifecycle_inv
proof unfold_locales
  fix s t
  assume step: "lifecycle_step s t" and inv: "lifecycle_inv s"
  show "lifecycle_inv t" using step inv by (rule lifecycle_inv_step)
  show "lf_server t = lf_server s \<or> server_step (lf_server s) (lf_server t)"
    using step by cases (auto simp: drain_poll_parts signal_received_def intro: server_step.os_signal)
qed

lemma lifecycle_reachable:
  assumes "lifecycle_step\<^sup>*\<^sup>* lifecycle_start s"
  shows "lifecycle_inv s" and "server_inv (lf_server s)"
proof -
  show "lifecycle_inv s" by (rule life.conc.inv_steps [OF assms lifecycle_inv_start])
  have "server_inv (lf_server lifecycle_start)" by (simp add: lifecycle_start_def server_inv_start)
  then show "server_inv (lf_server s)"
    by (rule life.transfer_invariant [OF assms lifecycle_inv_start server.invariant_system_axioms])
qed

text \<open>A server that no longer accepts and serves nothing stays so, whatever the rest of the process does.\<close>

definition idle_below :: "server_system \<Rightarrow> lifecycle \<Rightarrow> bool" where
  "idle_below s0 s \<longleftrightarrow> signal_is_set (sv_shutdown (lf_server s)) \<and> lf_drain s \<noteq> AwaitingSignal \<and> stopped_below s0 (lf_server s)"

interpretation idle: invariant_system lifecycle_step "idle_below s0" for s0
proof unfold_locales
  fix s t
  assume step: "lifecycle_step s t" and inv: "idle_below s0 s"
  from step show "idle_below s0 t"
  proof (cases rule: lifecycle_step.cases)
    case (connections sv)
    with inv stopped.inv_step [OF connections(3), of s0] show ?thesis by (simp add: idle_below_def)
  qed (use inv in \<open>simp_all add: idle_below_def drain_poll_parts\<close>)
qed

section \<open>Properties\<close>

text \<open>C34: A drain report can be trusted once the accept loop has stopped: in any run, when the drain loop reports that all
  requests are drained, no connection is being served at that moment (there are fewer connections than the counter can
  hold), and if the accept loop has stopped by then, none is ever served again.\<close>

theorem drain_report_sound:
  assumes "lifecycle_step\<^sup>*\<^sup>* lifecycle_start s" and "sv_serving (lf_server s) < 2 ^ 64"
    and "lifecycle_step s t" and "lf_drain s = Draining" and "lf_drain t = Reported Drained"
  shows "sv_serving (lf_server t) = 0 \<and>
    (\<not> sv_accepting (lf_server t) \<longrightarrow> (\<forall>u. lifecycle_step\<^sup>*\<^sup>* t u \<longrightarrow> sv_serving (lf_server u) = 0))"
proof -
  note inv = lifecycle_reachable [OF assms(1)]
  have same: "lf_server t = lf_server s" and zero: "sc_counter (sv_shutdown (lf_server s)) = 0"
    using assms(3) assms(4,5)
    by (auto elim!: lifecycle_step.cases simp: signal_received_def drain_poll_def Let_def split: if_splits)
  have "word_of_nat (sv_serving (lf_server s)) = (0 :: usize)"
    using inv zero by (simp add: lifecycle_inv_def server_inv_def)
  then have idle: "sv_serving (lf_server s) = 0"
    using assms(2) by (auto simp: word_of_nat_eq_0_iff dest: nat_dvd_not_less)
  moreover have "sv_serving (lf_server u) = 0" if "\<not> sv_accepting (lf_server t)" "lifecycle_step\<^sup>*\<^sup>* t u" for u
  proof -
    have "idle_below (lf_server t) t"
      using that(1) inv assms(4,5) same by (simp add: idle_below_def lifecycle_inv_def stopped_below_def)
    from idle.inv_steps [OF that(2) this] idle same show ?thesis by (simp add: idle_below_def stopped_below_def)
  qed
  ultimately show ?thesis using same by simp
qed

theorem drain_report_sound_witness:
  "lf_drain (drain_poll (signal_received lifecycle_start)) = Reported Drained \<and>
   sv_serving (lf_server (drain_poll (signal_received lifecycle_start))) = 0"
proof -
  let ?s = "signal_received lifecycle_start"
  have "lifecycle_step\<^sup>*\<^sup>* lifecycle_start ?s"
    by (rule r_into_rtranclp, rule lifecycle_step.signalled) (simp_all add: lifecycle_start_def)
  moreover have "lifecycle_step ?s (drain_poll ?s)"
    by (rule lifecycle_step.poll) (simp add: signal_received_def lifecycle_start_def)
  moreover have r: "lf_drain (drain_poll ?s) = Reported Drained" "lf_drain ?s = Draining" "sv_serving (lf_server ?s) < 2 ^ 64"
    by (simp_all add: drain_poll_def signal_received_def lifecycle_start_def server_start_def shutdown_begin_def coordinator_new_def)
  ultimately show ?thesis using drain_report_sound [of ?s "drain_poll ?s"] by simp
qed

text \<open>C35: The process does not wait for the drain. It exits only after a signal and with the accept loop stopped; but from
  every reachable state in which the signal has been received, it can exit with all the connections that are being served
  at that time and with the drain loop where it stands, so a request in flight is cut off although the time limit of the
  drain has not passed.\<close>

theorem exit_does_not_wait_for_drain:
  assumes "lifecycle_step\<^sup>*\<^sup>* lifecycle_start s"
  shows "(lf_exited s \<longrightarrow> lf_drain s \<noteq> AwaitingSignal \<and> \<not> sv_accepting (lf_server s)) \<and>
    (lf_drain s \<noteq> AwaitingSignal \<longrightarrow>
      (\<exists>t. lifecycle_step\<^sup>*\<^sup>* s t \<and> lf_exited t \<and> sv_serving (lf_server t) = sv_serving (lf_server s) \<and>
         lf_drain t = lf_drain s \<and> lf_elapsed t = lf_elapsed s))"
proof -
  note inv = lifecycle_reachable [OF assms]
  let ?sv = "(lf_server s)\<lparr>sv_accepting := False\<rparr>"
  let ?t = "s\<lparr>lf_server := ?sv, lf_exited := True\<rparr>"
  have "lifecycle_step\<^sup>*\<^sup>* s ?t" if live: "\<not> lf_exited s" and sig: "lf_drain s \<noteq> AwaitingSignal"
  proof -
    have "lifecycle_step\<^sup>*\<^sup>* s (s\<lparr>lf_server := ?sv\<rparr>)"
    proof (cases "sv_accepting (lf_server s)")
      case True
      then have "server_step (lf_server s) ?sv"
        using inv sig by (intro server_step.stop_accepting) (simp_all add: lifecycle_inv_def)
      then show ?thesis using live by (intro r_into_rtranclp lifecycle_step.connections) simp_all
    next
      case False
      then have "?sv = lf_server s" by (cases "lf_server s") simp
      then show ?thesis by simp
    qed
    moreover have "lifecycle_step (s\<lparr>lf_server := ?sv\<rparr>) ?t"
      using lifecycle_step.process_exit [of "s\<lparr>lf_server := ?sv\<rparr>"] live by simp
    ultimately show ?thesis by (rule rtranclp.rtrancl_into_rtrancl)
  qed
  then have "lf_drain s \<noteq> AwaitingSignal \<Longrightarrow>
      \<exists>t. lifecycle_step\<^sup>*\<^sup>* s t \<and> lf_exited t \<and> sv_serving (lf_server t) = sv_serving (lf_server s) \<and>
        lf_drain t = lf_drain s \<and> lf_elapsed t = lf_elapsed s"
    by (cases "lf_exited s") (blast, fastforce)
  then show ?thesis using inv by (auto simp: lifecycle_inv_def server_inv_def)
qed

theorem exit_does_not_wait_for_drain_witness:
  "\<exists>t. lifecycle_step\<^sup>*\<^sup>* lifecycle_start t \<and> lf_exited t \<and> sv_serving (lf_server t) = 1 \<and> lf_drain t = Draining \<and>
     lf_elapsed t < DRAIN_TIMEOUT"
proof -
  let ?a = "lifecycle_start\<lparr>lf_server := accept_connection server_start\<rparr>"
  have "server_step server_start (accept_connection server_start)"
    by (rule server_step.accepted) (simp add: server_start_def)
  then have "lifecycle_step lifecycle_start ?a"
    by (intro lifecycle_step.connections)
      (simp_all add: lifecycle_start_def accept_connection_def drain_acquire_def signal_is_set_def)
  moreover have "lifecycle_step ?a (signal_received ?a)" by (rule lifecycle_step.signalled) (simp_all add: lifecycle_start_def)
  ultimately have run: "lifecycle_step\<^sup>*\<^sup>* lifecycle_start (signal_received ?a)" by simp
  have s: "lf_drain (signal_received ?a) = Draining" "lf_elapsed (signal_received ?a) = 0"
    "sv_serving (lf_server (signal_received ?a)) = 1"
    by (simp_all add: signal_received_def accept_connection_def server_start_def)
  have "0 < DRAIN_TIMEOUT" by (simp add: DRAIN_TIMEOUT_def from_secs_def)
  with exit_does_not_wait_for_drain [OF run] s show ?thesis using rtranclp_trans [OF run] by fastforce
qed

end
