(* ===== verification/Spec2Isabelle.thy ===== *)
theory Spec2Isabelle
  imports Config_Props Gateway_Rate Gateway Redis_Scripts Bulkhead Health_Loop Lifecycle
begin

text \<open>
  A verification library for the Stateform API gateway, the Rust workspace under \<open>src/crates\<close>.

  \<^bold>\<open>The program.\<close> \<open>gateway-config\<close> loads, validates and watches the YAML configuration. \<open>gateway-core\<close> accepts
  connections (\<open>server.rs\<close>), reads a request under a body limit and hands it to the pipeline (\<open>pipeline.rs\<close>), which asks
  in this order: the router (\<open>gateway-router\<close>) for the route, the concurrency gate (\<open>concurrency.rs\<close>) for a permit,
  \<open>gateway-auth\<close> for the identity, \<open>gateway-ratelimit\<close> for leave, \<open>gateway-cache\<close> for a stored response, and the
  upstream pool (\<open>upstream.rs\<close>) for a fresh one, which is then offered to the cache. \<open>gateway-metrics\<close> counts
  what happens, background tasks probe the endpoints (\<open>health.rs\<close>) and rebuild the router on a reload, and
  \<open>shutdown.rs\<close> drains the connections at the end.

  \<^bold>\<open>How code becomes definitions.\<close> A struct is a record, an enum a datatype, a machine integer a word of its width
  (arithmetic wraps, as in the release profile), a \<open>String\<close> its bytes, a \<open>Duration\<close> its nanoseconds, an \<open>f64\<close> a
  rational together with explicit rounding after each operation (\<open>F64\<close>). \<open>Result\<close> is a sum with the error on the left;
  code that can panic returns in the type \<open>rust\<close>. State is passed explicitly. An \<open>async\<close> function is split at the awaits
  where other tasks can run: either it takes a function that stands for what they do, or its parts are the steps
  of an inductive transition relation. Code that is not in the repository (\<open>http\<close>, \<open>hyper\<close>, \<open>regex\<close>, \<open>tokio\<close>
  semaphores, \<open>jsonwebtoken\<close>, Redis, \<open>serde_json\<close>, Prometheus, \<open>rustls\<close>, the file system, the clock) is an argument, and what a theorem needs of it is
  a named predicate (\<open>header_laws\<close>, \<open>semaphore_laws\<close>, \<open>redis_laws\<close>, \<open>json_laws\<close>, \<open>first_law\<close>, \<open>value_law\<close>, \<open>rustls_laws\<close>) with a concrete
  instance that satisfies it.

  \<^bold>\<open>Theories.\<close>
  \<^item> \<open>Prelude\<close>, \<open>F64\<close>, \<open>Libs\<close>: integers, strings, slices, binary64 numbers, the libraries' operations and laws, and
    the locale \<open>invariant_system\<close> for the interleaved systems (pools, concurrency gate, reloads, server, the running gateway, the whole process).
  \<^item> \<open>Simulation\<close>: the locale \<open>simulation\<close> for refinement between step relations, a sublocale of \<open>invariant_system\<close>; it is
    interpreted on the concurrency gate and its specification, and on the process and its connections.
  \<^item> \<open>Config\<close>, \<open>Config_Props\<close> (\<open>gateway-config/src/schema.rs\<close>, \<open>validation.rs\<close>): the schema and \<open>validate\<close>, characterised by
    \<open>config_ok\<close>; the faults a configuration can have, and that a rejection names one of them.
  \<^item> \<open>Trie\<close>, \<open>Router\<close>, \<open>Router_Props\<close> (\<open>gateway-router\<close>): the segment trie refines a map from segment lists to
    routes; matching through the tries equals the reference \<open>reference_match\<close> on the declared routes; soundness,
    completeness, path parameters, longest prefix, path normalisation.
  \<^item> \<open>Hot_Reload\<close> (\<open>hot_reload.rs\<close>, the reload task of \<open>server.rs\<close>): at every moment the active router is built from a
    validated configuration, and from the current one when the task has caught up.
  \<^item> \<open>Health\<close>, \<open>Balance\<close>, \<open>Upstream\<close>, \<open>Health_Loop\<close> (\<open>upstream.rs\<close>, \<open>health.rs\<close>): the health state machine with thresholds and
    cooldown; the three selection algorithms under one contract (locale \<open>selector\<close>), exact fairness of the weighted
    rotation, minimality of the load score, panics; retries against a reference, back-off, exact connection counts in every
    interleaving; the loop of a health-check task and the gauge it sets.
  \<^item> \<open>Guards\<close>, \<open>Shutdown\<close>, \<open>Concurrency\<close> (\<open>shutdown.rs\<close>, \<open>concurrency.rs\<close>): counters held up by guards (locale
    \<open>guard_counter\<close>, interpreted on the connection counts, the drain counter and the connection gauge), the drain loop, the
    bulkheads and their permits in every interleaving.
  \<^item> \<open>Bulkhead\<close>: the gate as a refinement of a specification without semaphores, in both directions.
  \<^item> \<open>Auth\<close> (\<open>gateway-auth\<close>): what an authenticated request has shown, which keys a call may use, the key cache and its refresh.
  \<^item> \<open>RateLimit\<close>, \<open>Redis_Scripts\<close> (\<open>gateway-ratelimit\<close>): how many requests a bucket lets through, with rounding errors
    accounted for; the decision of the two layers; the Lua scripts on the data they keep in Redis and the checks of several
    replicas through them.
  \<^item> \<open>Cache_Policy\<close>, \<open>Cache\<close> (\<open>gateway-cache\<close>): directives, keys, the two layers; where a served response comes
    from, that a storable response is found again, and which ones never are.
  \<^item> \<open>Metrics\<close> (\<open>gateway-metrics\<close>): families, recorder calls, the scrape endpoint.
  \<^item> \<open>Pipeline\<close>, \<open>Responses\<close>, \<open>Pipeline_Props\<close> (\<open>pipeline.rs\<close>): \<open>handle\<close> on the whole state; the meaning of header changes and
    the three origins of a response; what holds of every request.
  \<^item> \<open>Gateway_Rate\<close>: how many requests of one identity on one policy reach the upstreams, for concurrent requests ordered by
    their checks in the limiter.
  \<^item> \<open>Server\<close> (\<open>server.rs\<close>): building, body limits, client certificates, connections.
  \<^item> \<open>Tls\<close>, \<open>Startup\<close> (\<open>tls.rs\<close>, the start of \<open>run\<close>, the metrics server's \<open>spawn\<close>, \<open>gateway-proxy/src/main.rs\<close>): the acceptor
    demands client certificates exactly as configured; when the process reaches its accept loop, and what is running then.
  \<^item> \<open>Gateway\<close>: the running process over many requests, health marks and reloads; requests reach the active endpoints of the
    start configuration only.
  \<^item> \<open>Lifecycle\<close> (the signal task and the return of \<open>run\<close> and \<open>main\<close>): connections, drain and process exit interleaved; when a
    drain report can be trusted, and that the process exits without waiting for it.
  \<^item> \<open>Examples\<close>: small configurations for the closed examples.

  \<^bold>\<open>Termination and bounds.\<close> Every loop is a total recursive function (the retry loop by the attempts left, the trie
  functions by the length of the path), except the drain loop, a partial function that is shown to return within 600
  rounds when the clock advances by the sleep of each round. The loop of a health-check task has no end; the model runs any
  number of its rounds. No other fuel is used. Where a theorem needs a counter not to overflow
  (a run of fewer than \<open>2 ^ 32\<close> probes, fewer than \<open>2 ^ 64\<close> endpoints) the bound is one of its hypotheses.

  \<^bold>\<open>Not modelled.\<close> Logging; sockets, the TLS handshake, the wait for an OS signal and the accept loop of the metrics
  server, which only do I/O; the serde derivations;
  \<open>gateway-lb\<close>, an empty stub; the Go control plane; the earlier copies under \<open>src/files\<close>. Memory orderings of the
  atomics are not modelled: each atomic operation is one step.
\<close>

end
